(* ===== verification/Prelude.thy ===== *)
theory Prelude
  imports Complex_Main "HOL-Library.Char_ord" "HOL-Library.List_Lexorder"
    "HOL-Library.Word" "HOL-Library.Multiset"
begin

text \<open>
  The prelude of the development: the collections of rewrite rules that the component
  theories fill and use, generic lemmas on lists, options, maps and association lists, and
  the result type of the operations that can fail.

  A Go function that returns \<^verbatim>\<open>(T, error)\<close> is modelled by a value of the sum
  \<open>'e + 'a\<close>: \<open>Inl\<close> carries the error and \<open>Inr\<close> the result. A Go map is a partial
  function where only lookups matter, and an association list where the code iterates over
  it; the list order then stands for one iteration order.
\<close>

named_theorems go_std \<open>equations of the standard-library models\<close>
named_theorems go_frame \<open>fields an operation leaves unchanged\<close>

subsection \<open>Results\<close>

type_synonym ('e, 'a) result = "'e + 'a"

definition is_ok :: "('e, 'a) result \<Rightarrow> bool" where
  "is_ok r = (case r of Inl _ \<Rightarrow> False | Inr _ \<Rightarrow> True)"

lemma is_ok_simps [simp]: "is_ok (Inl e) = False" "is_ok (Inr x) = True"
  by (simp_all add: is_ok_def)

lemma is_ok_iff: "is_ok r \<longleftrightarrow> (\<exists>x. r = Inr x)"
  by (cases r) auto

subsection \<open>Association lists\<close>

text \<open>The key sets of Go maps have no duplicates.\<close>

abbreviation keys_of :: "('k \<times> 'v) list \<Rightarrow> 'k list" where
  "keys_of kvs \<equiv> map fst kvs"

lemma map_of_mem: "map_of kvs k = Some v \<Longrightarrow> (k, v) \<in> set kvs"
  by (rule map_of_SomeD)

lemma map_of_perm:
  assumes "mset xs = mset ys" "distinct (keys_of xs)"
  shows "map_of xs = map_of ys"
proof -
  have "distinct (keys_of ys)"
    using assms by (metis mset_map mset_eq_imp_distinct_iff)
  moreover have "set xs = set ys"
    using assms(1) by (rule mset_eq_setD)
  ultimately show ?thesis
    using assms(2) by (metis map_of_inject_set)
qed

subsection \<open>Lists\<close>

lemma mset_concat_map_perm:
  assumes "mset xs = mset ys"
  shows "mset (concat (map f xs)) = mset (concat (map f ys))"
proof -
  have "mset (concat (map f zs)) = (\<Sum>z\<in>#mset zs. mset (f z))" for zs
    by (induction zs) auto
  with assms show ?thesis by simp
qed

lemma concat_map_eq_Nil: "concat (map f xs) = [] \<longleftrightarrow> (\<forall>x\<in>set xs. f x = [])"
  by auto

lemma filter_length_one:
  "length (filter P xs) = 1 \<longleftrightarrow> (\<exists>i<length xs. P (xs ! i) \<and> (\<forall>j<length xs. P (xs ! j) \<longrightarrow> j = i))"
proof -
  have card: "length (filter P xs) = card {i. i < length xs \<and> P (xs ! i)}"
    by (rule length_filter_conv_card)
  show ?thesis
  proof
    assume "length (filter P xs) = 1"
    with card obtain i where "{i. i < length xs \<and> P (xs ! i)} = {i}"
      by (metis card_1_singletonE)
    then show "\<exists>i<length xs. P (xs ! i) \<and> (\<forall>j<length xs. P (xs ! j) \<longrightarrow> j = i)"
      by blast
  next
    assume "\<exists>i<length xs. P (xs ! i) \<and> (\<forall>j<length xs. P (xs ! j) \<longrightarrow> j = i)"
    then obtain i where "{i. i < length xs \<and> P (xs ! i)} = {i}"
      by blast
    with card show "length (filter P xs) = 1" by simp
  qed
qed

lemma enumerate_mem: "(i, x) \<in> set (enumerate n xs) \<Longrightarrow> x \<in> set xs"
  by (auto simp: in_set_enumerate_eq)

lemma mem_enumerate: "x \<in> set xs \<Longrightarrow> \<exists>i. (i, x) \<in> set (enumerate n xs)"
proof -
  assume "x \<in> set xs"
  then obtain i where "i < length xs" "xs ! i = x" by (auto simp: in_set_conv_nth)
  then have "(n + i, x) \<in> set (enumerate n xs)" by (simp add: in_set_enumerate_eq)
  then show ?thesis by blast
qed

lemma sum_list_member_le: "x \<in> set xs \<Longrightarrow> f x \<le> sum_list (map f xs)" for f :: "'a \<Rightarrow> nat"
  by (induction xs) auto

lemma take_append_overlap:
  "take n (xs @ ys) = take n xs @ take (n - length xs) ys"
  by simp

subsection \<open>Sorting with a comparison of keys\<close>

text \<open>
  Go's \<^verbatim>\<open>sort.Slice\<close> with a less function that compares a key puts the slice in the
  order of the keys; elements with equal keys may come in any order. The models use the
  stable sort, which is one of the orders Go may produce.
\<close>

definition sort_desc :: "('a \<Rightarrow> 'k::linorder) \<Rightarrow> 'a list \<Rightarrow> 'a list" where
  "sort_desc key xs = rev (sort_key key xs)"

lemma sort_desc_set [simp]: "set (sort_desc key xs) = set xs"
  by (simp add: sort_desc_def)

lemma sort_desc_mset [simp]: "mset (sort_desc key xs) = mset xs"
  by (simp add: sort_desc_def)

lemma sort_desc_length [simp]: "length (sort_desc key xs) = length xs"
  by (simp add: sort_desc_def)

lemma sort_desc_sorted: "sorted_wrt (\<lambda>x y. key y \<le> key x) (sort_desc key xs)"
proof -
  have "sorted (map key (sort_key key xs))" by (rule sorted_sort_key)
  then have "sorted_wrt (\<lambda>x y. key x \<le> key y) (sort_key key xs)"
    by (simp add: sorted_wrt_map)
  then show ?thesis by (simp add: sort_desc_def sorted_wrt_rev)
qed

subsection \<open>Fallible maps\<close>

fun map_result :: "('a \<Rightarrow> ('e, 'b) result) \<Rightarrow> 'a list \<Rightarrow> ('e, 'b list) result" where
  "map_result f [] = Inr []"
| "map_result f (x # xs) =
     (case f x of
        Inl e \<Rightarrow> Inl e
      | Inr y \<Rightarrow> (case map_result f xs of Inl e \<Rightarrow> Inl e | Inr ys \<Rightarrow> Inr (y # ys)))"

lemma map_result_ok: "\<forall>x\<in>set xs. f x = Inr (g x) \<Longrightarrow> map_result f xs = Inr (map g xs)"
  by (induction xs) auto

lemma map_result_Inr:
  "map_result f xs = Inr ys \<Longrightarrow> list_all2 (\<lambda>x y. f x = Inr y) xs ys"
  by (induction xs arbitrary: ys) (auto split: sum.splits)

end
