(* ===== verification/Go_Strings.thy ===== *)
theory Go_Strings
  imports Prelude
begin

text \<open>
  The functions of Go's standard library on strings that the program uses, on strings as
  byte sequences (\<^verbatim>\<open>strings\<close>, \<^verbatim>\<open>strconv\<close>, \<^verbatim>\<open>encoding/hex\<close>). White space and letter case
  are those of ASCII: the program applies the white-space and case functions to
  configuration text, names and hexadecimal digests.
\<close>

subsection \<open>Prefixes, suffixes, substrings\<close>

definition has_prefix :: "string \<Rightarrow> string \<Rightarrow> bool" where
  "has_prefix s p \<longleftrightarrow> take (length p) s = p"

definition has_suffix :: "string \<Rightarrow> string \<Rightarrow> bool" where
  "has_suffix s p \<longleftrightarrow> has_prefix (rev s) (rev p)"

definition trim_prefix :: "string \<Rightarrow> string \<Rightarrow> string" where
  "trim_prefix s p = (if has_prefix s p then drop (length p) s else s)"

definition trim_suffix :: "string \<Rightarrow> string \<Rightarrow> string" where
  "trim_suffix s p = (if has_suffix s p then take (length s - length p) s else s)"

definition cut_prefix :: "string \<Rightarrow> string \<Rightarrow> string option" where
  "cut_prefix s p = (if has_prefix s p then Some (drop (length p) s) else None)"

fun contains :: "string \<Rightarrow> string \<Rightarrow> bool" where
  "contains [] sub = (sub = [])"
| "contains (c # cs) sub = (has_prefix (c # cs) sub \<or> contains cs sub)"

fun cut_char :: "string \<Rightarrow> char \<Rightarrow> (string \<times> string) option" where
  "cut_char [] sep = None"
| "cut_char (c # cs) sep =
     (if c = sep then Some ([], cs)
      else (case cut_char cs sep of None \<Rightarrow> None | Some (a, b) \<Rightarrow> Some (c # a, b)))"

lemma has_prefix_iff: "has_prefix s p \<longleftrightarrow> (\<exists>r. s = p @ r)"
proof
  assume "has_prefix s p"
  then show "\<exists>r. s = p @ r"
    unfolding has_prefix_def by (metis append_take_drop_id)
qed (auto simp: has_prefix_def)

lemma has_prefix_append [simp]: "has_prefix (p @ r) p"
  by (auto simp: has_prefix_iff)

lemma has_prefix_refl [simp]: "has_prefix s s"
  by (auto simp: has_prefix_iff)

lemma has_prefix_Nil [simp]: "has_prefix s []"
  by (simp add: has_prefix_def)

lemma has_prefix_trans: "has_prefix a b \<Longrightarrow> has_prefix b c \<Longrightarrow> has_prefix a c"
  by (auto simp: has_prefix_iff)

lemma contains_iff: "contains s sub \<longleftrightarrow> (\<exists>a b. s = a @ sub @ b)"
proof (induction s)
  case Nil
  show ?case by auto
next
  case (Cons c cs)
  show ?case
  proof
    assume "contains (c # cs) sub"
    then consider "has_prefix (c # cs) sub" | "contains cs sub" by auto
    then show "\<exists>a b. c # cs = a @ sub @ b"
    proof cases
      case 1
      then obtain r where "c # cs = [] @ sub @ r" by (auto simp: has_prefix_iff)
      then show ?thesis by blast
    next
      case 2
      then obtain a b where "c # cs = (c # a) @ sub @ b" using Cons.IH by auto
      then show ?thesis by blast
    qed
  next
    assume "\<exists>a b. c # cs = a @ sub @ b"
    then obtain a b where ab: "c # cs = a @ sub @ b" by blast
    show "contains (c # cs) sub"
    proof (cases a)
      case Nil
      with ab have "has_prefix (c # cs) sub" by (simp add: has_prefix_iff)
      then show ?thesis by simp
    next
      case (Cons d ds)
      with ab have "cs = ds @ sub @ b" by simp
      with Cons.IH show ?thesis by auto
    qed
  qed
qed

lemma cut_char_Some: "cut_char s sep = Some (a, b) \<Longrightarrow> s = a @ sep # b \<and> sep \<notin> set a"
  by (induction s arbitrary: a) (auto split: if_splits option.splits)

lemma cut_char_None: "cut_char s sep = None \<longleftrightarrow> sep \<notin> set s"
  by (induction s) (auto split: option.splits)

lemma cut_char_append: "sep \<notin> set a \<Longrightarrow> cut_char (a @ sep # b) sep = Some (a, b)"
  by (induction a) auto

subsection \<open>White space\<close>

definition is_space :: "char \<Rightarrow> bool" where
  "is_space c \<longleftrightarrow> c \<in> {CHR 0x09, CHR 0x0A, CHR 0x0B, CHR 0x0C, CHR 0x0D, CHR 0x20}"

definition trim_by :: "(char \<Rightarrow> bool) \<Rightarrow> string \<Rightarrow> string" where
  "trim_by P s = rev (dropWhile P (rev (dropWhile P s)))"

definition trim_right_by :: "(char \<Rightarrow> bool) \<Rightarrow> string \<Rightarrow> string" where
  "trim_right_by P s = rev (dropWhile P (rev s))"

definition trim_space :: "string \<Rightarrow> string" where
  "trim_space s = trim_by is_space s"

lemma trim_by_Nil [simp]: "trim_by P [] = []"
  by (simp add: trim_by_def)

lemma trim_space_Nil [simp]: "trim_space [] = []"
  by (simp add: trim_space_def)

lemma dropWhile_id: "\<forall>c\<in>set t. \<not> P c \<Longrightarrow> dropWhile P t = t"
  by (cases t) auto

lemma trim_by_id:
  assumes "\<forall>c\<in>set s. \<not> P c"
  shows "trim_by P s = s"
proof -
  have "dropWhile P (rev s) = rev s" by (rule dropWhile_id) (use assms in simp)
  with assms dropWhile_id[OF assms] show ?thesis by (simp add: trim_by_def)
qed

lemma trim_by_pad:
  assumes "\<forall>c\<in>set s. \<not> P c" "\<forall>c\<in>set a. P c" "\<forall>c\<in>set b. P c"
  shows "trim_by P (a @ s @ b) = s"
proof (cases s)
  case Nil
  have "dropWhile P (a @ s @ b) = []" using assms(2,3) Nil by (simp add: ball_Un)
  then show ?thesis unfolding trim_by_def using Nil by (simp only: rev.simps dropWhile.simps)
next
  case (Cons x xs)
  have "dropWhile P (a @ s @ b) = s @ b"
    using assms(1,2) Cons by (simp add: dropWhile_append2)
  moreover have "dropWhile P (rev b @ rev s) = rev s"
  proof -
    have "dropWhile P (rev s) = rev s"
      by (rule dropWhile_id) (use assms(1) in simp)
    moreover have "dropWhile P (rev b @ rev s) = dropWhile P (rev s)"
      by (rule dropWhile_append2) (use assms(3) in simp)
    ultimately show ?thesis by simp
  qed
  ultimately show ?thesis by (simp add: trim_by_def)
qed

subsection \<open>Splitting and joining\<close>

fun split_by :: "(char \<Rightarrow> bool) \<Rightarrow> string \<Rightarrow> string list" where
  "split_by P [] = [[]]"
| "split_by P (c # cs) =
     (if P c then [] # split_by P cs
      else (case split_by P cs of [] \<Rightarrow> [[c]] | w # ws \<Rightarrow> (c # w) # ws))"

definition split_on :: "char \<Rightarrow> string \<Rightarrow> string list" where
  "split_on sep s = split_by (\<lambda>c. c = sep) s"

definition str_fields :: "string \<Rightarrow> string list" where
  "str_fields s = filter (\<lambda>w. w \<noteq> []) (split_by is_space s)"

fun join_with :: "string \<Rightarrow> string list \<Rightarrow> string" where
  "join_with sep [] = []"
| "join_with sep [w] = w"
| "join_with sep (w # v # ws) = w @ sep @ join_with sep (v # ws)"

lemma split_by_ne [simp]: "split_by P s \<noteq> []"
  by (induction s) (auto split: list.splits)

lemma join_with_Cons: "ws \<noteq> [] \<Longrightarrow> join_with sep (w # ws) = w @ sep @ join_with sep ws"
  by (cases ws) auto

lemma join_with_Cons_Cons: "join_with sep ((c # w) # ws) = c # join_with sep (w # ws)"
  by (cases ws) auto

lemma join_split_on: "join_with [sep] (split_on sep s) = s"
proof (induction s)
  case Nil
  show ?case by (simp add: split_on_def)
next
  case (Cons c cs)
  obtain w ws where w: "split_on sep cs = w # ws"
    by (metis list.exhaust split_by_ne split_on_def)
  show ?case
    using Cons w by (auto simp: split_on_def join_with_Cons join_with_Cons_Cons)
qed

lemma split_by_noseps: "w \<in> set (split_by P s) \<Longrightarrow> c \<in> set w \<Longrightarrow> \<not> P c"
proof (induction s arbitrary: w)
  case Nil
  then show ?case by simp
next
  case (Cons d ds)
  obtain v vs where v: "split_by P ds = v # vs" by (metis list.exhaust split_by_ne)
  show ?case
    using Cons.prems Cons.IH[of v] Cons.IH[of w] v by (auto split: if_splits)
qed

lemma split_on_noseps: "w \<in> set (split_on sep s) \<Longrightarrow> sep \<notin> set w"
  unfolding split_on_def using split_by_noseps[where P = "\<lambda>c. c = sep"] by blast

lemma split_by_nosep_append:
  assumes "\<forall>c\<in>set w. \<not> P c"
  shows "split_by P (w @ s) = (case split_by P s of [] \<Rightarrow> [w] | v # vs \<Rightarrow> (w @ v) # vs)"
  using assms
proof (induction w)
  case Nil
  then show ?case by (cases "split_by P s") (simp_all add: split_by_ne)
next
  case (Cons c w)
  then show ?case by (auto split: list.splits)
qed

lemma split_by_single: "\<forall>c\<in>set w. \<not> P c \<Longrightarrow> split_by P w = [w]"
  using split_by_nosep_append[of w P "[]"] by simp

lemma split_by_append_sep: "P sep \<Longrightarrow> split_by P (a @ sep # b) = split_by P a @ split_by P b"
proof (induction a)
  case Nil
  then show ?case by simp
next
  case (Cons c cs)
  then show ?case by (auto split: list.splits)
qed

lemma split_join_on:
  assumes "ws \<noteq> []" "\<forall>w\<in>set ws. sep \<notin> set w"
  shows "split_on sep (join_with [sep] ws) = ws"
  using assms
proof (induction ws)
  case Nil
  then show ?case by simp
next
  case (Cons w ws)
  have one: "split_by (\<lambda>c. c = sep) w = [w]"
    using Cons.prems by (intro split_by_single) auto
  show ?case
  proof (cases "ws = []")
    case True
    with one show ?thesis by (simp add: split_on_def)
  next
    case False
    with Cons one show ?thesis
      by (simp add: split_on_def join_with_Cons split_by_append_sep)
  qed
qed

lemma split_by_infix: "w \<in> set (split_by P s) \<Longrightarrow> \<exists>a b. s = a @ w @ b"
proof (induction s arbitrary: w)
  case Nil
  then show ?case by simp
next
  case (Cons c cs)
  obtain v vs where v: "split_by P cs = v # vs" by (metis list.exhaust split_by_ne)
  have ih: "\<exists>a b. c # cs = a @ u @ b" if u: "u \<in> set (split_by P cs)" for u
  proof -
    obtain a b where "cs = a @ u @ b" using Cons.IH[OF u] by blast
    then have "c # cs = (c # a) @ u @ b" by simp
    then show ?thesis by blast
  qed
  have hd: "\<exists>b. cs = v @ b"
  proof -
    have "\<exists>b. s = hd (split_by P s) @ b" for s
      by (induction s) (auto split: list.splits)
    from this[of cs] v show ?thesis by simp
  qed
  show ?case
  proof (cases "P c")
    case True
    with Cons.prems consider "w = []" | "w \<in> set (split_by P cs)" by auto
    then show ?thesis
    proof cases
      case 1
      then have "c # cs = [] @ w @ (c # cs)" by simp
      then show ?thesis by blast
    qed (rule ih)
  next
    case False
    with Cons.prems v consider "w = c # v" | "w \<in> set vs" by auto
    then show ?thesis
    proof cases
      case 1
      from hd obtain b where "c # cs = [] @ w @ b" using 1 by auto
      then show ?thesis by blast
    next
      case 2
      with v ih show ?thesis by auto
    qed
  qed
qed

end
