(* ===== verification/Go_Paths.thy ===== *)
theory Go_Paths
  imports Go_Strings
begin

text \<open>
  The functions of \<^verbatim>\<open>path/filepath\<close> (on Unix) that the program uses, and the number,
  boolean and hexadecimal conversions of \<^verbatim>\<open>strconv\<close>, \<^verbatim>\<open>fmt\<close> and \<^verbatim>\<open>encoding/hex\<close>.
  A path is cleaned component by component on a stack of components, the reverse of the
  output buffer of \<^verbatim>\<open>filepath.Clean\<close>.
\<close>

subsection \<open>Cleaning a path\<close>

definition dotdot :: string where
  "dotdot = ''..''"

fun clean_push :: "bool \<Rightarrow> string list \<Rightarrow> string \<Rightarrow> string list" where
  "clean_push rooted st c =
     (if c = [] \<or> c = ''.'' then st
      else if c = dotdot then
        (case st of
           [] \<Rightarrow> if rooted then [] else [dotdot]
         | x # xs \<Rightarrow> if x = dotdot then dotdot # st else xs)
      else c # st)"

declare clean_push.simps [simp del]

definition is_abs :: "string \<Rightarrow> bool" where
  "is_abs p \<longleftrightarrow> has_prefix p ''/''"

definition path_comps :: "string \<Rightarrow> string list" where
  "path_comps p = split_on (CHR ''/'') p"

definition clean_comps :: "string \<Rightarrow> string list" where
  "clean_comps p = rev (foldl (clean_push (is_abs p)) [] (path_comps p))"

definition path_of_comps :: "bool \<Rightarrow> string list \<Rightarrow> string" where
  "path_of_comps rooted cs =
     (if rooted then ''/'' @ join_with ''/'' cs
      else if cs = [] then ''.'' else join_with ''/'' cs)"

definition clean :: "string \<Rightarrow> string" where
  "clean p = path_of_comps (is_abs p) (clean_comps p)"

definition join_path :: "string list \<Rightarrow> string" where
  "join_path es =
     (case dropWhile (\<lambda>e. e = []) es of
        [] \<Rightarrow> []
      | ds \<Rightarrow> clean (join_with ''/'' ds))"

definition path_base :: "string \<Rightarrow> string" where
  "path_base p =
     (if p = [] then ''.''
      else let q = trim_right_by (\<lambda>c. c = CHR ''/'') p
           in if q = [] then ''/'' else last (path_comps q))"

definition path_dir :: "string \<Rightarrow> string" where
  "path_dir p = clean (rev (dropWhile (\<lambda>c. c \<noteq> CHR ''/'') (rev p)))"

text \<open>A component that a cleaned path can hold: neither empty, nor a dot, nor a slash in it.\<close>

definition plain_comp :: "string \<Rightarrow> bool" where
  "plain_comp c \<longleftrightarrow> c \<noteq> [] \<and> c \<noteq> ''.'' \<and> c \<noteq> dotdot \<and> CHR ''/'' \<notin> set c"

lemma clean_push_plain: "plain_comp c \<Longrightarrow> clean_push r st c = c # st"
  by (simp add: clean_push.simps plain_comp_def)

lemma foldl_clean_push_plain:
  "\<forall>c\<in>set cs. plain_comp c \<Longrightarrow> foldl (clean_push r) st cs = rev cs @ st"
  by (induction cs arbitrary: st) (auto simp: clean_push_plain)

lemma clean_push_nodotdot:
  "c \<noteq> dotdot \<Longrightarrow> clean_push r st c = (if c \<noteq> [] \<and> c \<noteq> ''.'' then c # st else st)"
  by (simp add: clean_push.simps)

lemma foldl_clean_push_nodotdot:
  "dotdot \<notin> set cs \<Longrightarrow>
   foldl (clean_push r) st cs = rev (filter (\<lambda>c. c \<noteq> [] \<and> c \<noteq> ''.'') cs) @ st"
proof (induction cs arbitrary: st)
  case Nil
  show ?case by simp
next
  case (Cons c cs)
  then have c: "c \<noteq> dotdot" and cs: "dotdot \<notin> set cs" by auto
  show ?case by (simp only: foldl.simps Cons.IH[OF cs] clean_push_nodotdot[OF c]) simp
qed

lemma path_comps_noslash: "c \<in> set (path_comps p) \<Longrightarrow> CHR ''/'' \<notin> set c"
  unfolding path_comps_def by (rule split_on_noseps)

lemma path_comps_abs: "path_comps (''/'' @ p) = [] # path_comps p"
  by (simp add: path_comps_def split_on_def)

lemma path_comps_append: "path_comps (a @ ''/'' @ b) = path_comps a @ path_comps b"
  by (simp add: path_comps_def split_on_def split_by_append_sep)

lemma path_comps_join:
  "cs \<noteq> [] \<Longrightarrow> \<forall>c\<in>set cs. CHR ''/'' \<notin> set c \<Longrightarrow> path_comps (join_with ''/'' cs) = cs"
  unfolding path_comps_def by (rule split_join_on)

lemma path_comps_dotdot: "dotdot \<in> set (path_comps p) \<Longrightarrow> contains p ''..''"
  unfolding path_comps_def split_on_def dotdot_def contains_iff by (rule split_by_infix)

text \<open>The components of a path without a dot-dot component.\<close>

lemma clean_comps_nodotdot:
  assumes "dotdot \<notin> set (path_comps p)"
  shows "clean_comps p = filter (\<lambda>c. c \<noteq> [] \<and> c \<noteq> ''.'') (path_comps p)"
  using assms by (simp add: clean_comps_def foldl_clean_push_nodotdot)

lemma clean_comps_plain:
  assumes "dotdot \<notin> set (path_comps p)" "c \<in> set (clean_comps p)"
  shows "plain_comp c"
  using assms by (auto simp: clean_comps_nodotdot plain_comp_def dest: path_comps_noslash)

lemma clean_rooted:
  "clean (''/'' @ p) = ''/'' @ join_with ''/'' (clean_comps (''/'' @ p))"
  by (simp add: clean_def path_of_comps_def is_abs_def has_prefix_def)

lemma join_with_hd_noslash:
  assumes "cs \<noteq> []" "\<forall>c\<in>set cs. plain_comp c"
  shows "\<not> is_abs (join_with ''/'' cs)"
proof -
  from assms obtain c ds where cs: "cs = c # ds" by (cases cs) auto
  with assms(2) obtain x xs where "c = x # xs" "x \<noteq> CHR ''/''"
    by (cases c) (auto simp: plain_comp_def)
  with cs show ?thesis
    by (cases ds) (auto simp: is_abs_def has_prefix_def)
qed

lemma clean_join_plain:
  assumes "cs \<noteq> []" "\<forall>c\<in>set cs. plain_comp c"
  shows "clean (join_with ''/'' cs) = join_with ''/'' cs"
proof -
  have "path_comps (join_with ''/'' cs) = cs"
    using assms by (intro path_comps_join) (auto simp: plain_comp_def)
  then have "clean_comps (join_with ''/'' cs) = cs"
    using assms(2) by (simp add: clean_comps_def foldl_clean_push_plain)
  with assms show ?thesis
    using join_with_hd_noslash by (simp add: clean_def path_of_comps_def)
qed

text \<open>
  Joining a directory with the cleaned form of a relative path without dot-dot stays at or
  below the directory.
\<close>

lemma clean_comps_abs_join:
  assumes d: "\<forall>c\<in>set ds. plain_comp c" and f: "dotdot \<notin> set (path_comps f)"
  shows "clean_comps (''/'' @ join_with ''/'' ds @ ''/'' @ f)
       = ds @ filter (\<lambda>c. c \<noteq> [] \<and> c \<noteq> ''.'') (path_comps f)"
proof -
  have "path_comps (join_with ''/'' ds) = (if ds = [] then [[]] else ds)"
  proof (cases "ds = []")
    case True
    then show ?thesis by (simp add: path_comps_def split_on_def)
  next
    case False
    then show ?thesis using d by (simp add: path_comps_join plain_comp_def)
  qed
  then have pc: "path_comps (''/'' @ join_with ''/'' ds @ ''/'' @ f)
      = [] # (if ds = [] then [[]] else ds) @ path_comps f"
    by (simp only: path_comps_abs path_comps_append)
  have "dotdot \<notin> set (path_comps (''/'' @ join_with ''/'' ds @ ''/'' @ f))"
    using d f pc by (auto simp: plain_comp_def dotdot_def)
  from clean_comps_nodotdot[OF this]
  have "clean_comps (''/'' @ join_with ''/'' ds @ ''/'' @ f)
      = filter (\<lambda>c. c \<noteq> [] \<and> c \<noteq> ''.'') ([] # (if ds = [] then [[]] else ds) @ path_comps f)"
    by (simp only: pc)
  moreover have "filter (\<lambda>c. c \<noteq> [] \<and> c \<noteq> ''.'') ds = ds"
    using d by (intro filter_True) (auto simp: plain_comp_def)
  ultimately show ?thesis by auto
qed

subsection \<open>Rooted paths and confinement\<close>

lemma clean_push_rooted_plain:
  assumes "\<forall>x\<in>set st. plain_comp x" "CHR ''/'' \<notin> set c"
  shows "\<forall>x\<in>set (clean_push True st c). plain_comp x"
proof (cases "plain_comp c")
  case True
  with assms(1) show ?thesis by (simp add: clean_push_plain)
next
  case False
  with assms(2) consider "c = [] \<or> c = ''.''" | "c = dotdot" by (auto simp: plain_comp_def)
  then show ?thesis
  proof cases
    case 1
    then have "clean_push True st c = st" by (auto simp: clean_push.simps)
    with assms(1) show ?thesis by simp
  next
    case 2
    have "clean_push True st c = tl st"
    proof (cases st)
      case Nil
      with 2 show ?thesis by (simp add: clean_push.simps dotdot_def)
    next
      case (Cons x xs)
      with assms(1) have "x \<noteq> dotdot" by (simp add: plain_comp_def)
      with 2 Cons show ?thesis by (simp add: clean_push.simps dotdot_def)
    qed
    with assms(1) show ?thesis by (cases st) auto
  qed
qed

lemma clean_comps_rooted_plain:
  assumes "is_abs p"
  shows "\<forall>x\<in>set (clean_comps p). plain_comp x"
proof -
  have "\<forall>x\<in>set (foldl (clean_push True) st cs). plain_comp x"
    if "\<forall>x\<in>set st. plain_comp x" "\<forall>c\<in>set cs. CHR ''/'' \<notin> set c" for st cs
    using that
  proof (induction cs arbitrary: st)
    case Nil
    then show ?case by simp
  next
    case (Cons c cs)
    have "\<forall>x\<in>set (clean_push True st c). plain_comp x"
      by (rule clean_push_rooted_plain) (use Cons.prems in auto)
    with Cons.IH Cons.prems(2) show ?case by simp
  qed
  from this[of "[]" "path_comps p"] show ?thesis
    using assms path_comps_noslash by (auto simp: clean_comps_def)
qed

definition clean_abs :: "string \<Rightarrow> bool" where
  "clean_abs p \<longleftrightarrow> is_abs p \<and> clean p = p"

lemma clean_absE:
  assumes "clean_abs p"
  obtains ds where "\<forall>c\<in>set ds. plain_comp c" "p = ''/'' @ join_with ''/'' ds"
  using assms clean_comps_rooted_plain[of p]
  by (auto simp: clean_abs_def clean_def path_of_comps_def)

definition below :: "string \<Rightarrow> string \<Rightarrow> bool" where
  "below dir p \<longleftrightarrow> p = dir \<or> has_prefix p (dir @ ''/'') \<or> dir = ''/'' \<and> is_abs p"

lemma join_with_append:
  "xs \<noteq> [] \<Longrightarrow> ys \<noteq> [] \<Longrightarrow> join_with sep (xs @ ys) = join_with sep xs @ sep @ join_with sep ys"
proof (induction xs)
  case (Cons x xs)
  then show ?case by (cases "xs = []") (auto simp: join_with_Cons)
qed simp

lemma below_join:
  "below (''/'' @ join_with ''/'' ds) (''/'' @ join_with ''/'' (ds @ cs))"
proof (cases "ds = [] \<or> cs = []")
  case True
  then show ?thesis by (auto simp: below_def is_abs_def has_prefix_def)
next
  case False
  then have "''/'' @ join_with ''/'' (ds @ cs)
      = ((''/'' @ join_with ''/'' ds) @ ''/'') @ join_with ''/'' cs"
    by (simp add: join_with_append)
  then show ?thesis unfolding below_def using has_prefix_append by metis
qed

lemma join_path_two: "d \<noteq> [] \<Longrightarrow> join_path [d, f] = clean (d @ ''/'' @ f)"
  by (simp add: join_path_def)

lemma clean_rel_comps:
  assumes "\<not> is_abs f" "dotdot \<notin> set (path_comps f)"
  shows "path_comps (clean f) = (if clean_comps f = [] then [''.''] else clean_comps f)"
proof (cases "clean_comps f = []")
  case True
  with assms(1) show ?thesis
    by (simp add: clean_def path_of_comps_def path_comps_def split_on_def)
next
  case False
  have "\<forall>c\<in>set (clean_comps f). CHR ''/'' \<notin> set c"
    using clean_comps_plain[OF assms(2)] by (auto simp: plain_comp_def)
  with False assms(1) show ?thesis
    by (simp add: clean_def path_of_comps_def path_comps_join)
qed

lemma join_path_clean_rel:
  assumes "\<forall>c\<in>set ds. plain_comp c" "\<not> is_abs f" "dotdot \<notin> set (path_comps f)"
  shows "join_path [''/'' @ join_with ''/'' ds, clean f]
       = ''/'' @ join_with ''/'' (ds @ clean_comps f)"
proof -
  have pl: "\<forall>c\<in>set (clean_comps f). plain_comp c"
    using clean_comps_plain[OF assms(3)] by blast
  have nd: "dotdot \<notin> set (path_comps (clean f))"
    using pl clean_rel_comps[OF assms(2,3)] by (auto simp: plain_comp_def dotdot_def)
  have flt: "filter (\<lambda>c. c \<noteq> [] \<and> c \<noteq> ''.'') (path_comps (clean f)) = clean_comps f"
  proof (cases "clean_comps f = []")
    case True
    with clean_rel_comps[OF assms(2,3)] show ?thesis by simp
  next
    case False
    then have "path_comps (clean f) = clean_comps f"
      using clean_rel_comps[OF assms(2,3)] by simp
    then show ?thesis using pl by (auto intro!: filter_True simp: plain_comp_def)
  qed
  have "join_path [''/'' @ join_with ''/'' ds, clean f]
      = clean (''/'' @ join_with ''/'' ds @ ''/'' @ clean f)"
    by (simp add: join_path_two)
  also have "\<dots> = ''/'' @ join_with ''/'' (ds @ clean_comps f)"
    unfolding clean_rooted clean_comps_abs_join[OF assms(1) nd] flt by simp
  finally show ?thesis .
qed

text \<open>The confinement lemma used for every path a contract declares.\<close>

lemma join_path_confined:
  assumes "clean_abs dir" "\<not> is_abs f" "\<not> contains f ''..''"
  shows "below dir (join_path [dir, clean f])"
proof -
  from assms(1) obtain ds where ds: "\<forall>c\<in>set ds. plain_comp c" "dir = ''/'' @ join_with ''/'' ds"
    by (rule clean_absE)
  have nd: "dotdot \<notin> set (path_comps f)"
    using assms(3) path_comps_dotdot by blast
  show ?thesis
    unfolding ds(2) join_path_clean_rel[OF ds(1) assms(2) nd] by (rule below_join)
qed

text \<open>Joining plain components to a rooted path, and the directory part of one.\<close>

lemma join_path_rooted:
  assumes "\<forall>c\<in>set ds. plain_comp c" "\<forall>c\<in>set cs. plain_comp c" "cs \<noteq> []"
  shows "join_path ((''/'' @ join_with ''/'' ds) # cs) = ''/'' @ join_with ''/'' (ds @ cs)"
proof -
  have pc: "path_comps (join_with ''/'' cs) = cs"
    using assms(2,3) by (intro path_comps_join) (auto simp: plain_comp_def)
  then have nd: "dotdot \<notin> set (path_comps (join_with ''/'' cs))"
    using assms(2) by (auto simp: plain_comp_def)
  have flt: "filter (\<lambda>c. c \<noteq> [] \<and> c \<noteq> ''.'') cs = cs"
    using assms(2) by (intro filter_True) (auto simp: plain_comp_def)
  have "join_path ((''/'' @ join_with ''/'' ds) # cs)
      = clean (''/'' @ join_with ''/'' ds @ ''/'' @ join_with ''/'' cs)"
    using assms(3) by (simp add: join_path_def join_with_Cons)
  then show ?thesis
    unfolding clean_rooted clean_comps_abs_join[OF assms(1) nd] pc flt by simp
qed

lemma path_dir_rooted:
  assumes "\<forall>x\<in>set ds. plain_comp x" "plain_comp c"
  shows "path_dir (''/'' @ join_with ''/'' (ds @ [c])) = ''/'' @ join_with ''/'' ds"
proof -
  let ?Y = "if ds = [] then ''/'' else ''/'' @ join_with ''/'' ds @ ''/''"
  have s: "''/'' @ join_with ''/'' (ds @ [c]) = ?Y @ c"
    using join_with_append[of ds "[c]" "''/''"] by simp
  have "\<forall>x\<in>set (rev c). x \<noteq> CHR ''/''" using assms(2) by (auto simp: plain_comp_def)
  then have "dropWhile (\<lambda>x. x \<noteq> CHR ''/'') (rev c @ rev ?Y) = rev ?Y"
    by (subst dropWhile_append2) auto
  then have d: "path_dir (''/'' @ join_with ''/'' (ds @ [c])) = clean ?Y"
    unfolding path_dir_def s by (simp del: rev_append add: rev_append[of "if ds = [] then ''/'' else _"])
  show ?thesis
  proof (cases "ds = []")
    case True
    have "clean ''/'' = ''/''" by code_simp
    with True show ?thesis unfolding d by simp
  next
    case False
    have "dotdot \<notin> set (path_comps [])" by (simp add: path_comps_def split_on_def dotdot_def)
    from clean_comps_abs_join[OF assms(1) this] False show ?thesis
      unfolding d using clean_rooted[of "join_with ''/'' ds @ ''/''"]
      by (simp add: path_comps_def split_on_def)
  qed
qed

subsection \<open>Numbers, booleans, bytes as text\<close>

definition digit_char :: "nat \<Rightarrow> char" where
  "digit_char d = char_of (48 + d)"

definition is_digit :: "char \<Rightarrow> bool" where
  "is_digit c \<longleftrightarrow> 48 \<le> (of_char c :: nat) \<and> (of_char c :: nat) \<le> 57"

definition digit_val :: "char \<Rightarrow> nat" where
  "digit_val c = of_char c - 48"

fun nat_str :: "nat \<Rightarrow> string" where
  "nat_str n = (if n < 10 then [digit_char n] else nat_str (n div 10) @ [digit_char (n mod 10)])"

declare nat_str.simps [simp del]

definition int_str :: "int \<Rightarrow> string" where
  "int_str i = (if i < 0 then ''-'' @ nat_str (nat (- i)) else nat_str (nat i))"

definition digits_nat :: "string \<Rightarrow> nat" where
  "digits_nat s = foldl (\<lambda>n c. 10 * n + digit_val c) 0 s"

definition parse_digits :: "string \<Rightarrow> nat option" where
  "parse_digits s = (if s \<noteq> [] \<and> list_all is_digit s then Some (digits_nat s) else None)"

text \<open>\<^verbatim>\<open>strconv.Atoi\<close>: an optional sign, decimal digits, and a value of an \<^verbatim>\<open>int\<close> (64 bits).\<close>

definition atoi :: "string \<Rightarrow> int option" where
  "atoi s =
     (let (neg, ds) =
        (case s of
           c # cs \<Rightarrow> if c = CHR ''-'' then (True, cs) else if c = CHR ''+'' then (False, cs) else (False, s)
         | [] \<Rightarrow> (False, []))
      in case parse_digits ds of
           None \<Rightarrow> None
         | Some n \<Rightarrow>
             let v = (if neg then - int n else int n)
             in if - (2 ^ 63) \<le> v \<and> v < 2 ^ 63 then Some v else None)"

definition parse_bool :: "string \<Rightarrow> bool option" where
  "parse_bool s =
     (if s \<in> {''1'', ''t'', ''T'', ''true'', ''TRUE'', ''True''} then Some True
      else if s \<in> {''0'', ''f'', ''F'', ''false'', ''FALSE'', ''False''} then Some False
      else None)"

definition lower_char :: "char \<Rightarrow> char" where
  "lower_char c =
     (if 65 \<le> (of_char c :: nat) \<and> (of_char c :: nat) \<le> 90 then char_of ((of_char c :: nat) + 32) else c)"

definition to_lower :: "string \<Rightarrow> string" where
  "to_lower s = map lower_char s"

definition hex_digit :: "nat \<Rightarrow> char" where
  "hex_digit d = (if d < 10 then char_of (48 + d) else char_of (87 + d))"

definition hex_byte :: "8 word \<Rightarrow> string" where
  "hex_byte b = [hex_digit (unat b div 16), hex_digit (unat b mod 16)]"

definition hex_encode :: "8 word list \<Rightarrow> string" where
  "hex_encode bs = concat (map hex_byte bs)"

lemma digit_val_char [simp]: "d < 10 \<Longrightarrow> digit_val (digit_char d) = d"
  by (simp add: digit_val_def digit_char_def)

lemma is_digit_char [simp]: "d < 10 \<Longrightarrow> is_digit (digit_char d)"
  by (simp add: is_digit_def digit_char_def)

lemma digits_nat_snoc: "digits_nat (s @ [c]) = 10 * digits_nat s + digit_val c"
  by (simp add: digits_nat_def)

lemma nat_str_digits: "nat_str n \<noteq> [] \<and> list_all is_digit (nat_str n) \<and> digits_nat (nat_str n) = n"
proof (induction n rule: nat_str.induct)
  case (1 n)
  show ?case
  proof (cases "n < 10")
    case True
    then show ?thesis by (subst (1 2 3) nat_str.simps) (simp add: digits_nat_def)
  next
    case False
    with 1 show ?thesis
      by (subst (1 2 3) nat_str.simps) (simp add: digits_nat_snoc)
  qed
qed

lemma parse_nat_str [simp]: "parse_digits (nat_str n) = Some n"
  using nat_str_digits[of n] by (simp add: parse_digits_def)

lemma nat_str_inject: "nat_str m = nat_str n \<longleftrightarrow> m = n"
  by (metis option.inject parse_nat_str)

lemma nat_str_not_sign: "nat_str n = c # cs \<Longrightarrow> is_digit c"
  using nat_str_digits[of n] by simp

lemma atoi_int_str:
  assumes "- (2 ^ 63) \<le> i" "i < 2 ^ 63"
  shows "atoi (int_str i) = Some i"
proof (cases "i < 0")
  case True
  with assms show ?thesis by (simp add: atoi_def int_str_def)
next
  case False
  obtain c cs where c: "nat_str (nat i) = c # cs" using nat_str_digits by (metis list.exhaust)
  have "is_digit c" using c by (rule nat_str_not_sign)
  then have "c \<noteq> CHR ''-''" "c \<noteq> CHR ''+''" by (auto simp: is_digit_def)
  moreover have "parse_digits (c # cs) = Some (nat i)"
    using c parse_nat_str[of "nat i"] by simp
  ultimately show ?thesis using False assms c by (simp add: atoi_def int_str_def)
qed

lemma hex_digit_inject: "a < 16 \<Longrightarrow> b < 16 \<Longrightarrow> hex_digit a = hex_digit b \<longleftrightarrow> a = b"
proof -
  assume a: "a < 16" and b: "b < 16"
  have v: "(of_char (hex_digit d) :: nat) = (if d < 10 then 48 + d else 87 + d)" if "d < 16" for d
    using that by (simp add: hex_digit_def)
  show ?thesis
  proof
    assume "hex_digit a = hex_digit b"
    then have "(of_char (hex_digit a) :: nat) = of_char (hex_digit b)" by simp
    then show "a = b" using v[OF a] v[OF b] a b by (simp split: if_splits)
  qed simp
qed

lemma hex_byte_inject: "hex_byte a = hex_byte b \<longleftrightarrow> a = b"
proof
  assume h: "hex_byte a = hex_byte b"
  have lt: "unat x < 256" for x :: "8 word"
  proof -
    have "unat x < 2 ^ LENGTH(8)" by (rule unsigned_less)
    then show ?thesis by simp
  qed
  then have "unat a div 16 < 16" "unat b div 16 < 16"
    by (simp_all add: less_mult_imp_div_less)
  with h have "unat a div 16 = unat b div 16" "unat a mod 16 = unat b mod 16"
    by (simp_all add: hex_byte_def hex_digit_inject)
  then have "unat a = unat b" by (metis div_mult_mod_eq)
  then show "a = b" by (simp add: word_unat_eq_iff)
qed simp

lemma hex_encode_length: "length (hex_encode bs) = 2 * length bs"
  by (induction bs) (simp_all add: hex_encode_def hex_byte_def)

lemma hex_encode_inject: "hex_encode as = hex_encode bs \<longleftrightarrow> as = bs"
proof
  show "hex_encode as = hex_encode bs \<Longrightarrow> as = bs"
  proof (induction as arbitrary: bs)
    case Nil
    then have "length (hex_encode bs) = 0" by (simp add: hex_encode_def)
    then show ?case by (simp add: hex_encode_length)
  next
    case (Cons a as)
    then obtain b bs' where bs: "bs = b # bs'"
      using hex_encode_length[of bs] by (cases bs) (auto simp: hex_encode_def hex_byte_def)
    have "hex_byte a @ hex_encode as = hex_byte b @ hex_encode bs'"
      using Cons.prems by (simp add: bs hex_encode_def)
    then have "hex_byte a = hex_byte b" "hex_encode as = hex_encode bs'"
      by (simp_all add: hex_byte_def)
    with Cons.IH bs show ?case by (simp add: hex_byte_inject)
  qed
qed simp

lemma hex_digit_lower: "d < 16 \<Longrightarrow> lower_char (hex_digit d) = hex_digit d \<and> \<not> is_space (hex_digit d)"
proof -
  assume "d < 16"
  then have v: "(of_char (hex_digit d) :: nat) = (if d < 10 then 48 + d else 87 + d)"
    by (simp add: hex_digit_def)
  have "\<not> is_space c" if "32 < (of_char c :: nat)" for c
    using that by (auto simp: is_space_def)
  moreover have "32 < (of_char (hex_digit d) :: nat)" unfolding v by simp
  ultimately have "\<not> is_space (hex_digit d)" by blast
  then show ?thesis unfolding lower_char_def v using \<open>d < 16\<close> by (simp split: if_splits)
qed

lemma hex_encode_chars: "c \<in> set (hex_encode bs) \<Longrightarrow> lower_char c = c \<and> \<not> is_space c"
proof -
  assume "c \<in> set (hex_encode bs)"
  then obtain b where "c \<in> set (hex_byte b)" by (auto simp: hex_encode_def)
  moreover have "unat b < 2 ^ LENGTH(8)" by (rule unsigned_less)
  then have "unat b div 16 < 16" "unat b mod 16 < 16" by auto
  ultimately show ?thesis using hex_digit_lower unfolding hex_byte_def by auto
qed

lemma hex_encode_lower [simp]: "to_lower (hex_encode bs) = hex_encode bs"
  unfolding to_lower_def by (rule map_idI) (use hex_encode_chars in blast)

lemma hex_encode_trim [simp]: "trim_space (hex_encode bs) = hex_encode bs"
  unfolding trim_space_def by (rule trim_by_id) (use hex_encode_chars in blast)

end
