(* ===== verification/Go_Values.thy ===== *)
theory Go_Values
  imports Go_Paths
begin

text \<open>
  Dynamic Go values: what \<^verbatim>\<open>encoding/json\<close> and \<^verbatim>\<open>yaml.v3\<close> decode into the type \<^verbatim>\<open>any\<close>,
  and the \<^verbatim>\<open>float64\<close> arithmetic the schema gate does on them.

  A finite \<^verbatim>\<open>float64\<close> is its rational value; the infinities and NaN (which YAML can write
  and JSON cannot) are separate. An object is an association list whose order stands for one
  iteration order of the Go map. \<open>GNumber\<close> is a \<^verbatim>\<open>json.Number\<close> with the outcome of its
  \<^verbatim>\<open>Float64\<close> method; \<open>GOther\<close> is a value of any other type, known by its type's name.
\<close>

subsection \<open>Floating-point numbers\<close>

datatype gfloat = Fin rat | PosInf | NegInf | NaN

fun f_less :: "gfloat \<Rightarrow> gfloat \<Rightarrow> bool" where
  "f_less (Fin a) (Fin b) = (a < b)"
| "f_less (Fin a) PosInf = True"
| "f_less NegInf (Fin b) = True"
| "f_less NegInf PosInf = True"
| "f_less _ _ = False"

text \<open>\<^verbatim>\<open>math.Trunc(f) == f\<close>: true of the infinities, false of NaN.\<close>

fun f_integral :: "gfloat \<Rightarrow> bool" where
  "f_integral (Fin r) = (of_int \<lfloor>r\<rfloor> = r)"
| "f_integral PosInf = True"
| "f_integral NegInf = True"
| "f_integral NaN = False"

text \<open>
  The conversion \<^verbatim>\<open>int(f)\<close> truncates towards zero. Out of range (and for NaN) Go leaves the
  result to the implementation; the model takes the least \<^verbatim>\<open>int64\<close>, as amd64 does.
\<close>

fun f_to_int :: "gfloat \<Rightarrow> int" where
  "f_to_int (Fin r) =
     (let t = (if r < 0 then \<lceil>r\<rceil> else \<lfloor>r\<rfloor>)
      in if - (2 ^ 63) \<le> t \<and> t < 2 ^ 63 then t else - (2 ^ 63))"
| "f_to_int _ = - (2 ^ 63)"

text \<open>The conversion \<^verbatim>\<open>float64(n)\<close> rounds to 53 significant bits, ties to even.\<close>

fun bit_len :: "nat \<Rightarrow> nat" where
  "bit_len n = (if n = 0 then 0 else Suc (bit_len (n div 2)))"

declare bit_len.simps [simp del]

definition round53 :: "nat \<Rightarrow> nat" where
  "round53 a =
     (if bit_len a \<le> 53 then a
      else let k = bit_len a - 53; q = a div 2 ^ k; r = a mod 2 ^ k; half = 2 ^ (k - 1)
           in (if half < r \<or> r = half \<and> odd q then q + 1 else q) * 2 ^ k)"

definition f64_of_int :: "int \<Rightarrow> gfloat" where
  "f64_of_int n = Fin (of_int (sgn n * int (round53 (nat \<bar>n\<bar>))))"

lemma bit_len_less: "n < 2 ^ bit_len n"
proof (induction n rule: bit_len.induct)
  case (1 n)
  show ?case
  proof (cases "n = 0")
    case False
    with 1 have "n div 2 < 2 ^ bit_len (n div 2)" by simp
    then have "n < 2 * 2 ^ bit_len (n div 2)" by linarith
    with False show ?thesis by (subst bit_len.simps) simp
  qed (simp add: bit_len.simps)
qed

lemma bit_len_mono: "n < 2 ^ k \<Longrightarrow> bit_len n \<le> k"
proof (induction n arbitrary: k rule: bit_len.induct)
  case (1 n)
  show ?case
  proof (cases "n = 0")
    case False
    with "1.prems" obtain j where k: "k = Suc j" by (cases k) auto
    with "1.prems" have "n div 2 < 2 ^ j" by auto
    with "1.IH" False k show ?thesis by (subst bit_len.simps) simp
  qed (simp add: bit_len.simps)
qed

text \<open>Integers of up to 53 bits convert exactly.\<close>

lemma f64_of_int_exact: "\<bar>n\<bar> < 2 ^ 53 \<Longrightarrow> f64_of_int n = Fin (of_int n)"
proof -
  assume "\<bar>n\<bar> < 2 ^ 53"
  then have "nat \<bar>n\<bar> < 2 ^ 53" by simp
  then have "round53 (nat \<bar>n\<bar>) = nat \<bar>n\<bar>"
    using bit_len_mono by (simp add: round53_def)
  then show ?thesis by (simp add: f64_of_int_def sgn_if)
qed

subsection \<open>Dynamic values\<close>

datatype gval =
    GNull
  | GBool bool
  | GStr string
  | GFloat gfloat
  | GInt int
  | GNumber string "gfloat option"
  | GArr "gval list"
  | GObj "(string \<times> gval) list"
  | GOther string

type_synonym schema = "(string \<times> gval) list"

text \<open>An absent key reads as \<^verbatim>\<open>nil\<close>.\<close>

definition get_key :: "schema \<Rightarrow> string \<Rightarrow> gval" where
  "get_key s k = (case map_of s k of None \<Rightarrow> GNull | Some v \<Rightarrow> v)"

fun str_or_empty :: "gval \<Rightarrow> string" where
  "str_or_empty (GStr t) = t"
| "str_or_empty _ = []"

lemma size_mem_obj: "(k, v) \<in> set s \<Longrightarrow> size v < size (GObj s)"
  by (induction s) auto

lemma size_map_of: "map_of s k = Some v \<Longrightarrow> size v < size (GObj s)"
  by (drule map_of_SomeD) (rule size_mem_obj)

lemma size_mem_arr: "v \<in> set vs \<Longrightarrow> size v < size (GArr vs)"
  by (induction vs) auto

lemma size_get_key_less: "get_key s k = v \<Longrightarrow> v \<noteq> GNull \<Longrightarrow> size v < size (GObj s)"
  by (auto simp: get_key_def dest: size_map_of split: option.splits)

lemma map_of_get_key: "map_of s = map_of s' \<Longrightarrow> get_key s = get_key s'"
  by (simp add: get_key_def fun_eq_iff)

end
