(* ===== verification/Tcs_Validator.thy ===== *)
theory Tcs_Validator
  imports Go_Values
begin

text \<open>
  The schema gate: \<^verbatim>\<open>internal/tcs/validator.go\<close>, used by the desk on every input and every
  result. A violation is a value of a datatype with one constructor per message of the
  source, carrying what the message shows. The properties, the required names and the
  object's own keys are visited in list order, one of Go's iteration orders.
\<close>

subsection \<open>Violations and small helpers\<close>

datatype violation =
    VExpected string string string
  | VMissing string string
  | VUnexpected string string
  | VMinItems string int nat
  | VMaxItems string int nat
  | VEnum string string "gval list"
  | VMinLength string int
  | VMaxLength string int
  | VBelowMin string gfloat gfloat
  | VAboveMax string gfloat gfloat
  | VAnyOfMalformed string
  | VOneOfMalformed string
  | VNoMatch string nat
  | VManyMatch string nat nat

fun type_name :: "gval \<Rightarrow> string" where
  "type_name GNull = ''null''"
| "type_name (GStr _) = ''string''"
| "type_name (GBool _) = ''boolean''"
| "type_name (GFloat _) = ''number''"
| "type_name (GInt _) = ''number''"
| "type_name (GNumber _ _) = ''number''"
| "type_name (GArr _) = ''array''"
| "type_name (GObj _) = ''object''"
| "type_name (GOther t) = t"

fun to_float :: "gval \<Rightarrow> gfloat option" where
  "to_float (GFloat f) = Some f"
| "to_float (GInt n) = Some (f64_of_int n)"
| "to_float (GNumber _ f) = f"
| "to_float _ = None"

definition num_of :: "gval \<Rightarrow> gfloat option" where
  "num_of v = to_float v"

fun as_schema :: "gval \<Rightarrow> schema option" where
  "as_schema (GObj m) = Some m"
| "as_schema _ = None"

definition props_contains :: "schema \<Rightarrow> string \<Rightarrow> bool" where
  "props_contains s key =
     (case as_schema (get_key s ''properties'') of
        None \<Rightarrow> False
      | Some props \<Rightarrow> map_of props key \<noteq> None)"

definition check_bounds :: "schema \<Rightarrow> string \<Rightarrow> gfloat \<Rightarrow> violation list" where
  "check_bounds s path f =
     (case num_of (get_key s ''minimum'') of
        None \<Rightarrow> []
      | Some mn \<Rightarrow> if f_less f mn then [VBelowMin path f mn] else [])
   @ (case num_of (get_key s ''maximum'') of
        None \<Rightarrow> []
      | Some mx \<Rightarrow> if f_less mx f then [VAboveMax path f mx] else [])"

text \<open>The object case: the required names, then (around the properties) the extra keys.\<close>

definition required_errs :: "schema \<Rightarrow> schema \<Rightarrow> string \<Rightarrow> violation list" where
  "required_errs s m path =
     (case get_key s ''required'' of
        GArr req \<Rightarrow>
          concat (map (\<lambda>r. case r of
                       GStr rs \<Rightarrow> if map_of m rs = None then [VMissing path rs] else []
                     | _ \<Rightarrow> []) req)
      | _ \<Rightarrow> [])"

definition extra_errs :: "schema \<Rightarrow> schema \<Rightarrow> string \<Rightarrow> violation list" where
  "extra_errs s m path =
     (case get_key s ''additionalProperties'' of
        GBool extra \<Rightarrow>
          if extra then []
          else concat (map (\<lambda>(k, _). if props_contains s k then [] else [VUnexpected path k]) m)
      | _ \<Rightarrow> [])"

text \<open>The array case, after the items.\<close>

definition length_errs :: "schema \<Rightarrow> nat \<Rightarrow> string \<Rightarrow> violation list" where
  "length_errs s n path =
     (case num_of (get_key s ''minItems'') of
        None \<Rightarrow> []
      | Some mn \<Rightarrow> if int n < f_to_int mn then [VMinItems path (f_to_int mn) n] else [])
   @ (case num_of (get_key s ''maxItems'') of
        None \<Rightarrow> []
      | Some mx \<Rightarrow> if f_to_int mx < int n then [VMaxItems path (f_to_int mx) n] else [])"

text \<open>The string case.\<close>

definition string_errs :: "schema \<Rightarrow> string \<Rightarrow> string \<Rightarrow> violation list" where
  "string_errs s str path =
     (case get_key s ''enum'' of
        GArr enum \<Rightarrow> if GStr str \<in> set enum then [] else [VEnum path str enum]
      | _ \<Rightarrow> [])
   @ (case num_of (get_key s ''minLength'') of
        None \<Rightarrow> []
      | Some mn \<Rightarrow> if int (length str) < f_to_int mn then [VMinLength path (f_to_int mn)] else [])
   @ (case num_of (get_key s ''maxLength'') of
        None \<Rightarrow> []
      | Some mx \<Rightarrow> if f_to_int mx < int (length str) then [VMaxLength path (f_to_int mx)] else [])"

text \<open>
  The two combinators, given the test whether the value satisfies a branch schema without a
  violation. A branch that is not a schema is skipped.
\<close>

definition branch_ok :: "(schema \<Rightarrow> bool) \<Rightarrow> gval \<Rightarrow> bool" where
  "branch_ok acc b = (case as_schema b of None \<Rightarrow> False | Some bs \<Rightarrow> acc bs)"

definition validate_any_of :: "(schema \<Rightarrow> bool) \<Rightarrow> gval \<Rightarrow> string \<Rightarrow> violation list" where
  "validate_any_of acc raw path =
     (case raw of
        GArr branches \<Rightarrow>
          if branches = [] then [VAnyOfMalformed path]
          else if list_ex (branch_ok acc) branches then []
          else [VNoMatch path (length branches)]
      | _ \<Rightarrow> [VAnyOfMalformed path])"

definition validate_one_of :: "(schema \<Rightarrow> bool) \<Rightarrow> gval \<Rightarrow> string \<Rightarrow> violation list" where
  "validate_one_of acc raw path =
     (case raw of
        GArr branches \<Rightarrow>
          if branches = [] then [VOneOfMalformed path]
          else (let matches = length (filter (branch_ok acc) branches)
                in if matches = 0 then [VNoMatch path (length branches)]
                   else if 1 < matches then [VManyMatch path matches (length branches)]
                   else [])
      | _ \<Rightarrow> [VOneOfMalformed path])"

lemma branch_ok_cong:
  "b = b' \<Longrightarrow> (\<And>bs. b' = GObj bs \<Longrightarrow> acc bs = acc' bs) \<Longrightarrow> branch_ok acc b = branch_ok acc' b'"
  by (cases b') (auto simp: branch_ok_def)

lemma validate_any_of_cong [fundef_cong]:
  assumes "raw = raw'" "path = path'"
    "\<And>bs branches. raw' = GArr branches \<Longrightarrow> GObj bs \<in> set branches \<Longrightarrow> acc bs = acc' bs"
  shows "validate_any_of acc raw path = validate_any_of acc' raw' path'"
proof (cases raw')
  case (GArr branches)
  have "list_ex (branch_ok acc) branches = list_ex (branch_ok acc') branches"
    using assms(3)[OF GArr] by (intro list_ex_cong refl branch_ok_cong) auto
  with assms(1,2) GArr show ?thesis by (simp add: validate_any_of_def)
qed (use assms in \<open>simp_all add: validate_any_of_def\<close>)

lemma validate_one_of_cong [fundef_cong]:
  assumes "raw = raw'" "path = path'"
    "\<And>bs branches. raw' = GArr branches \<Longrightarrow> GObj bs \<in> set branches \<Longrightarrow> acc bs = acc' bs"
  shows "validate_one_of acc raw path = validate_one_of acc' raw' path'"
proof (cases raw')
  case (GArr branches)
  have "filter (branch_ok acc) branches = filter (branch_ok acc') branches"
    using assms(3)[OF GArr] by (intro filter_cong refl branch_ok_cong) auto
  with assms(1,2) GArr show ?thesis by (simp add: validate_one_of_def)
qed (use assms in \<open>simp_all add: validate_one_of_def\<close>)

subsection \<open>The validator\<close>

definition index_path :: "string \<Rightarrow> nat \<Rightarrow> string" where
  "index_path path i = path @ ''['' @ nat_str i @ '']''"

definition props_list :: "schema \<Rightarrow> schema" where
  "props_list s = (case as_schema (get_key s ''properties'') of None \<Rightarrow> [] | Some ps \<Rightarrow> ps)"

lemma props_list_size: "(k, GObj ps) \<in> set (props_list s) \<Longrightarrow> size (GObj ps) < size (GObj s)"
proof -
  assume a: "(k, GObj ps) \<in> set (props_list s)"
  then obtain props where p: "get_key s ''properties'' = GObj props" "(k, GObj ps) \<in> set props"
    by (cases "get_key s ''properties''") (auto simp: props_list_def)
  have "size (GObj props) < size (GObj s)"
    using size_get_key_less[OF p(1)] by simp
  with size_mem_obj[OF p(2)] show ?thesis by linarith
qed

lemma branch_size:
  assumes "map_of s k = Some raw" "raw = GArr branches" "GObj bs \<in> set branches"
  shows "size (GObj bs) < size (GObj s)"
proof -
  have "size raw < size (GObj s)" using assms(1) by (rule size_map_of)
  with size_mem_arr[OF assms(3)] assms(2) show ?thesis by simp
qed

lemma items_size: "get_key s k = GObj it \<Longrightarrow> size (GObj it) < size (GObj s)"
  using size_get_key_less by blast

lemma as_schema_Some [simp]: "as_schema v = Some s \<longleftrightarrow> v = GObj s"
  by (cases v) auto

function validate_value :: "schema \<Rightarrow> gval \<Rightarrow> string \<Rightarrow> violation list" where
  "validate_value s v path =
     (case map_of s ''oneOf'' of
        Some raw \<Rightarrow> validate_one_of (\<lambda>bs. validate_value bs v path = []) raw path
      | None \<Rightarrow>
     (case map_of s ''anyOf'' of
        Some raw \<Rightarrow> validate_any_of (\<lambda>bs. validate_value bs v path = []) raw path
      | None \<Rightarrow>
     (let typ = str_or_empty (get_key s ''type'') in
      if typ = ''object'' then
        (case v of
           GObj m \<Rightarrow>
             required_errs s m path
             @ concat (map (\<lambda>(k, raw).
                 case map_of m k of
                   None \<Rightarrow> []
                 | Some pv \<Rightarrow>
                     (case raw of
                        GObj ps \<Rightarrow> validate_value ps pv (path @ ''.'' @ k)
                      | _ \<Rightarrow> [])) (props_list s))
             @ extra_errs s m path
         | _ \<Rightarrow> [VExpected path ''object'' (type_name v)])
      else if typ = ''array'' then
        (case v of
           GArr xs \<Rightarrow>
             (case get_key s ''items'' of
                GObj items \<Rightarrow>
                  concat (map (\<lambda>(i, x). validate_value items x (index_path path i)) (enumerate 0 xs))
              | _ \<Rightarrow> [])
             @ length_errs s (length xs) path
         | _ \<Rightarrow> [VExpected path ''array'' (type_name v)])
      else if typ = ''string'' then
        (case v of
           GStr str \<Rightarrow> string_errs s str path
         | _ \<Rightarrow> [VExpected path ''string'' (type_name v)])
      else if typ = ''integer'' then
        (case to_float v of
           None \<Rightarrow> [VExpected path ''integer'' (type_name v)]
         | Some f \<Rightarrow>
             if f_integral f then check_bounds s path f
             else [VExpected path ''integer'' (type_name v)])
      else if typ = ''number'' then
        (case to_float v of
           None \<Rightarrow> [VExpected path ''number'' (type_name v)]
         | Some f \<Rightarrow> check_bounds s path f)
      else if typ = ''boolean'' then
        (case v of GBool _ \<Rightarrow> [] | _ \<Rightarrow> [VExpected path ''boolean'' (type_name v)])
      else if typ = ''null'' then
        (if v = GNull then [] else [VExpected path ''null'' (type_name v)])
      else [])))"
  by pat_completeness auto
termination
  by (relation "measure (\<lambda>(s, v, path). size (GObj s))")
     (auto simp del: gval.size intro: branch_size props_list_size items_size)

declare validate_value.simps [simp del]

definition validate :: "schema \<Rightarrow> gval \<Rightarrow> violation list" where
  "validate s v = (if s = [] then [] else validate_value s v ''$'')"

lemma validate_eq: "validate s v = validate_value s v ''$''"
  by (simp add: validate_def validate_value.simps get_key_def)

subsection \<open>What a contract means: the declarative reading\<close>

text \<open>
  The reading of a schema as a predicate, without paths, messages or an order of checks:
  an object has its required names, its declared properties conform, and a closed object
  has no other name; exactly one branch of a oneOf and some branch of an anyOf conforms.
\<close>

definition exactly_one :: "('a \<Rightarrow> bool) \<Rightarrow> 'a list \<Rightarrow> bool" where
  "exactly_one P xs \<longleftrightarrow> (\<exists>i<length xs. P (xs ! i) \<and> (\<forall>j<length xs. P (xs ! j) \<longrightarrow> j = i))"

lemma exactly_one_filter: "exactly_one P xs \<longleftrightarrow> length (filter P xs) = 1"
  unfolding exactly_one_def by (rule filter_length_one[symmetric])

lemma exactly_one_map: "exactly_one P (map f xs) \<longleftrightarrow> exactly_one (\<lambda>x. P (f x)) xs"
  by (simp add: exactly_one_filter filter_map o_def)

lemma exactly_one_cong [fundef_cong]:
  "xs = ys \<Longrightarrow> (\<And>x. x \<in> set ys \<Longrightarrow> P x = Q x) \<Longrightarrow> exactly_one P xs = exactly_one Q ys"
  unfolding exactly_one_filter by (metis filter_cong)

fun arr_of :: "gval \<Rightarrow> gval list" where
  "arr_of (GArr xs) = xs"
| "arr_of _ = []"

definition in_bounds :: "schema \<Rightarrow> gfloat \<Rightarrow> bool" where
  "in_bounds s f \<longleftrightarrow>
     pred_option (\<lambda>mn. \<not> f_less f mn) (num_of (get_key s ''minimum''))
   \<and> pred_option (\<lambda>mx. \<not> f_less mx f) (num_of (get_key s ''maximum''))"

definition size_between :: "gval \<Rightarrow> gval \<Rightarrow> nat \<Rightarrow> bool" where
  "size_between lo hi n \<longleftrightarrow>
     pred_option (\<lambda>mn. f_to_int mn \<le> int n) (num_of lo)
   \<and> pred_option (\<lambda>mx. int n \<le> f_to_int mx) (num_of hi)"

definition in_enum :: "schema \<Rightarrow> string \<Rightarrow> bool" where
  "in_enum s str \<longleftrightarrow> (\<forall>enum. get_key s ''enum'' = GArr enum \<longrightarrow> GStr str \<in> set enum)"

definition names_ok :: "schema \<Rightarrow> schema \<Rightarrow> bool" where
  "names_ok s m \<longleftrightarrow>
     (\<forall>r. GStr r \<in> set (arr_of (get_key s ''required'')) \<longrightarrow> r \<in> fst ` set m)
   \<and> (get_key s ''additionalProperties'' = GBool False \<longrightarrow> fst ` set m \<subseteq> fst ` set (props_list s))"

function conforms :: "schema \<Rightarrow> gval \<Rightarrow> bool" where
  "conforms s v \<longleftrightarrow>
     (case map_of s ''oneOf'' of
        Some raw \<Rightarrow>
          (case raw of
             GArr branches \<Rightarrow> exactly_one (\<lambda>b. case b of GObj bs \<Rightarrow> conforms bs v | _ \<Rightarrow> False) branches
           | _ \<Rightarrow> False)
      | None \<Rightarrow>
     (case map_of s ''anyOf'' of
        Some raw \<Rightarrow>
          (case raw of
             GArr branches \<Rightarrow> \<exists>b\<in>set branches. (case b of GObj bs \<Rightarrow> conforms bs v | _ \<Rightarrow> False)
           | _ \<Rightarrow> False)
      | None \<Rightarrow>
     (let typ = str_or_empty (get_key s ''type'') in
      if typ = ''object'' then
        (case v of
           GObj m \<Rightarrow> names_ok s m
             \<and> (\<forall>kr\<in>set (props_list s).
                 case kr of (k, GObj ps) \<Rightarrow>
                   (case map_of m k of None \<Rightarrow> True | Some pv \<Rightarrow> conforms ps pv)
                 | _ \<Rightarrow> True)
         | _ \<Rightarrow> False)
      else if typ = ''array'' then
        (case v of
           GArr xs \<Rightarrow> size_between (get_key s ''minItems'') (get_key s ''maxItems'') (length xs)
             \<and> (case get_key s ''items'' of
                  GObj items \<Rightarrow> \<forall>x\<in>set xs. conforms items x
                | _ \<Rightarrow> True)
         | _ \<Rightarrow> False)
      else if typ = ''string'' then
        (case v of
           GStr str \<Rightarrow> in_enum s str
             \<and> size_between (get_key s ''minLength'') (get_key s ''maxLength'') (length str)
         | _ \<Rightarrow> False)
      else if typ = ''integer'' then
        (case to_float v of None \<Rightarrow> False | Some f \<Rightarrow> f_integral f \<and> in_bounds s f)
      else if typ = ''number'' then
        (case to_float v of None \<Rightarrow> False | Some f \<Rightarrow> in_bounds s f)
      else if typ = ''boolean'' then (case v of GBool _ \<Rightarrow> True | _ \<Rightarrow> False)
      else if typ = ''null'' then v = GNull
      else True)))"
  by pat_completeness auto
termination
  by (relation "measure (\<lambda>(s, v). size (GObj s))")
     (auto simp del: gval.size intro: branch_size props_list_size items_size)

declare conforms.simps [simp del]

lemma check_bounds_Nil: "check_bounds s path f = [] \<longleftrightarrow> in_bounds s f"
  by (auto simp: check_bounds_def in_bounds_def split: option.splits)

lemma length_errs_Nil:
  "length_errs s n path = [] \<longleftrightarrow> size_between (get_key s ''minItems'') (get_key s ''maxItems'') n"
  by (auto simp: length_errs_def size_between_def split: option.splits)

lemma string_errs_Nil:
  "string_errs s str path = [] \<longleftrightarrow>
     in_enum s str \<and> size_between (get_key s ''minLength'') (get_key s ''maxLength'') (length str)"
  by (auto simp: string_errs_def size_between_def in_enum_def split: option.splits gval.splits)

lemma required_errs_Nil:
  "required_errs s m path = [] \<longleftrightarrow>
     (\<forall>r. GStr r \<in> set (arr_of (get_key s ''required'')) \<longrightarrow> r \<in> fst ` set m)"
proof (cases "get_key s ''required''")
  case (GArr req)
  have one: "(case r of GStr rs \<Rightarrow> if map_of m rs = None then [VMissing path rs] else [] | _ \<Rightarrow> []) = []
      \<longleftrightarrow> (\<forall>rs. r = GStr rs \<longrightarrow> rs \<in> fst ` set m)" for r
    by (cases r) (simp_all add: map_of_eq_None_iff)
  show ?thesis
    by (simp only: required_errs_def GArr gval.case concat_map_eq_Nil one arr_of.simps) blast
qed (simp_all add: required_errs_def)

lemma props_contains_iff: "props_contains s k \<longleftrightarrow> k \<in> fst ` set (props_list s)"
  by (auto simp: props_contains_def props_list_def map_of_eq_None_iff split: option.splits)

lemma extra_errs_Nil:
  "extra_errs s m path = [] \<longleftrightarrow>
     (get_key s ''additionalProperties'' = GBool False \<longrightarrow> fst ` set m \<subseteq> fst ` set (props_list s))"
proof (cases "get_key s ''additionalProperties''")
  case (GBool b)
  have "concat (map (\<lambda>(k, _). if Q k then [] else [VUnexpected path k]) m) = []
      \<longleftrightarrow> (\<forall>k\<in>fst ` set m. Q k)" for Q
    by (induction m) (auto split: if_splits)
  then show ?thesis
    by (simp only: extra_errs_def GBool gval.case props_contains_iff) auto
qed (simp_all add: extra_errs_def)

lemmas validator_Nil =
  check_bounds_Nil length_errs_Nil string_errs_Nil required_errs_Nil extra_errs_Nil

lemma validate_one_of_Nil:
  "validate_one_of acc (GArr branches) path = [] \<longleftrightarrow> exactly_one (branch_ok acc) branches"
proof (cases "filter (branch_ok acc) branches")
  case Nil
  then show ?thesis by (simp add: validate_one_of_def exactly_one_filter)
next
  case (Cons x xs)
  moreover from this have "branches \<noteq> []" by auto
  ultimately show ?thesis
    by (cases xs) (simp_all add: validate_one_of_def exactly_one_filter)
qed

lemma validate_any_of_Nil:
  "validate_any_of acc (GArr branches) path = [] \<longleftrightarrow> (\<exists>b\<in>set branches. branch_ok acc b)"
  by (auto simp: validate_any_of_def list_ex_iff)

lemma branch_ok_case: "branch_ok acc b = (case b of GObj bs \<Rightarrow> acc bs | _ \<Rightarrow> False)"
  by (cases b) (simp_all add: branch_ok_def)

lemma accept_cong:
  assumes "\<And>bs. b = GObj bs \<Longrightarrow> (validate_value bs v path = []) = conforms bs v"
  shows "branch_ok (\<lambda>bs. validate_value bs v path = []) b
       = (case b of GObj bs \<Rightarrow> conforms bs v | _ \<Rightarrow> False)"
  using assms by (cases b) (simp_all add: branch_ok_def)

lemma props_conform:
  assumes "\<And>k ps pv. (k, GObj ps) \<in> set (props_list s) \<Longrightarrow> map_of m k = Some pv \<Longrightarrow>
      (validate_value ps pv (path @ ''.'' @ k) = []) = conforms ps pv"
  shows "(concat (map (\<lambda>(k, raw).
             case map_of m k of
               None \<Rightarrow> []
             | Some pv \<Rightarrow>
                 (case raw of
                    GObj ps \<Rightarrow> validate_value ps pv (path @ ''.'' @ k)
                  | _ \<Rightarrow> [])) (props_list s)) = [])
       = (\<forall>kr\<in>set (props_list s).
             case kr of (k, GObj ps) \<Rightarrow>
               (case map_of m k of None \<Rightarrow> True | Some pv \<Rightarrow> conforms ps pv)
             | _ \<Rightarrow> True)"
  unfolding concat_map_eq_Nil
  using assms by (intro ball_cong refl) (auto split: gval.splits option.splits)

lemma items_conform:
  assumes "\<And>i x. (i, x) \<in> set (enumerate 0 xs) \<Longrightarrow>
      (validate_value items x (index_path path i) = []) = conforms items x"
  shows "(concat (map (\<lambda>(i, x). validate_value items x (index_path path i)) (enumerate 0 xs)) = [])
       = (\<forall>x\<in>set xs. conforms items x)"
proof -
  have "(\<forall>ix\<in>set (enumerate 0 xs). conforms items (snd ix)) = (\<forall>x\<in>set xs. conforms items x)"
    by (metis (no_types, lifting) list.set_map map_snd_enumerate image_iff)
  then show ?thesis
    unfolding concat_map_eq_Nil using assms by auto
qed

lemma one_of_conforms:
  assumes "map_of s ''oneOf'' = Some raw"
    "\<And>bs branches. raw = GArr branches \<Longrightarrow> GObj bs \<in> set branches \<Longrightarrow>
       (validate_value bs v path = []) = conforms bs v"
  shows "(validate_value s v path = []) = conforms s v"
proof (cases raw)
  case (GArr branches)
  have "exactly_one (branch_ok (\<lambda>bs. validate_value bs v path = [])) branches
      = exactly_one (\<lambda>b. case b of GObj bs \<Rightarrow> conforms bs v | _ \<Rightarrow> False) branches"
    using assms(2)[OF GArr] by (intro exactly_one_cong refl accept_cong) auto
  then show ?thesis
    using assms(1) GArr
    by (subst validate_value.simps, subst conforms.simps) (simp add: validate_one_of_Nil)
qed (use assms(1) in \<open>subst validate_value.simps, subst conforms.simps,
       simp add: validate_one_of_def\<close>)+

lemma any_of_conforms:
  assumes "map_of s ''oneOf'' = None" "map_of s ''anyOf'' = Some raw"
    "\<And>bs branches. raw = GArr branches \<Longrightarrow> GObj bs \<in> set branches \<Longrightarrow>
       (validate_value bs v path = []) = conforms bs v"
  shows "(validate_value s v path = []) = conforms s v"
proof (cases raw)
  case (GArr branches)
  have "(\<exists>b\<in>set branches. branch_ok (\<lambda>bs. validate_value bs v path = []) b)
      = (\<exists>b\<in>set branches. case b of GObj bs \<Rightarrow> conforms bs v | _ \<Rightarrow> False)"
    using assms(3)[OF GArr] by (intro bex_cong refl accept_cong) auto
  then show ?thesis
    using assms(1,2) GArr
    by (subst validate_value.simps, subst conforms.simps) (simp add: validate_any_of_Nil)
qed (use assms(1,2) in \<open>subst validate_value.simps, subst conforms.simps,
       simp add: validate_any_of_def\<close>)+

text \<open>The validator reports nothing exactly when the value conforms, whatever the path.\<close>

lemma validate_value_conforms: "(validate_value s v path = []) = conforms s v"
proof (induction s v path rule: validate_value.induct)
  case (1 s v path)
  let ?ty = "str_or_empty (get_key s ''type'')"
  consider raw where "map_of s ''oneOf'' = Some raw"
    | raw where "map_of s ''oneOf'' = None" "map_of s ''anyOf'' = Some raw"
    | (typed) "map_of s ''oneOf'' = None" "map_of s ''anyOf'' = None" by fastforce
  then show ?case
  proof cases
    case 1
    then show ?thesis using "1.IH"(4)[OF 1] by (rule one_of_conforms)
  next
    case 2
    then show ?thesis using "1.IH"(3)[OF 2] by (rule any_of_conforms)
  next
    case typed
    note obj_IH = "1.IH"(1)[OF typed refl] and arr_IH = "1.IH"(2)[OF typed refl]
    have str: "(''array'' = ''object'') = False" by simp
    consider (o) m where "?ty = ''object''" "v = GObj m"
      | (a) xs items where "?ty = ''array''" "v = GArr xs" "get_key s ''items'' = GObj items"
      | (no_obj) "?ty = ''object''" "\<nexists>m. v = GObj m"
      | (no_items) "?ty = ''array''" "\<nexists>xs items. v = GArr xs \<and> get_key s ''items'' = GObj items"
      | (flat) "?ty \<noteq> ''object''" "?ty \<noteq> ''array''"
      by blast
    then show ?thesis
    proof cases
      case o
      show ?thesis
        by (subst validate_value.simps, subst conforms.simps,
            simp only: typed o Let_def option.case gval.case simp_thms if_True append_is_Nil_conv
              props_conform[OF obj_IH[OF o _ refl _ refl]] required_errs_Nil extra_errs_Nil names_ok_def)
           blast
    next
      case a
      then have no: "?ty \<noteq> ''object''" by simp
      show ?thesis
        by (subst validate_value.simps, subst conforms.simps,
            simp only: typed a Let_def option.case gval.case simp_thms str if_True if_False
              append_is_Nil_conv items_conform[OF arr_IH[OF no a _ refl]] length_errs_Nil)
           blast
    next
      case no_obj
      then show ?thesis
        by (subst validate_value.simps, subst conforms.simps)
           (cases v, simp_all add: typed)
    next
      case no_items
      then show ?thesis
        by (subst validate_value.simps, subst conforms.simps)
           (cases v; cases "get_key s ''items''"; simp add: typed length_errs_Nil)
    next
      case flat
      then show ?thesis
        by (subst validate_value.simps, subst conforms.simps)
           (simp add: typed Let_def string_errs_Nil check_bounds_Nil split: gval.split option.split)
    qed
  qed
qed

subsection \<open>Where violations are\<close>

fun violation_path :: "violation \<Rightarrow> string" where
  "violation_path (VExpected p _ _) = p"
| "violation_path (VMissing p _) = p"
| "violation_path (VUnexpected p _) = p"
| "violation_path (VMinItems p _ _) = p"
| "violation_path (VMaxItems p _ _) = p"
| "violation_path (VEnum p _ _) = p"
| "violation_path (VMinLength p _) = p"
| "violation_path (VMaxLength p _) = p"
| "violation_path (VBelowMin p _ _) = p"
| "violation_path (VAboveMax p _ _) = p"
| "violation_path (VAnyOfMalformed p) = p"
| "violation_path (VOneOfMalformed p) = p"
| "violation_path (VNoMatch p _) = p"
| "violation_path (VManyMatch p _ _) = p"

fun is_malformed :: "violation \<Rightarrow> bool" where
  "is_malformed (VAnyOfMalformed _) = True"
| "is_malformed (VOneOfMalformed _) = True"
| "is_malformed _ = False"

lemma flat_errs_path:
  "e \<in> set (required_errs s m path) \<Longrightarrow> violation_path e = path \<and> \<not> is_malformed e"
  "e \<in> set (extra_errs s m path) \<Longrightarrow> violation_path e = path \<and> \<not> is_malformed e"
  "e \<in> set (length_errs s n path) \<Longrightarrow> violation_path e = path \<and> \<not> is_malformed e"
  "e \<in> set (string_errs s str path) \<Longrightarrow> violation_path e = path \<and> \<not> is_malformed e"
  "e \<in> set (check_bounds s path f) \<Longrightarrow> violation_path e = path \<and> \<not> is_malformed e"
  by (auto simp: required_errs_def extra_errs_def length_errs_def string_errs_def check_bounds_def
      split: gval.splits if_splits option.splits)

lemma comb_errs_path:
  "e \<in> set (validate_one_of acc raw path) \<Longrightarrow> violation_path e = path"
  "e \<in> set (validate_any_of acc raw path) \<Longrightarrow> violation_path e = path"
  by (auto simp: validate_one_of_def validate_any_of_def Let_def split: gval.splits if_splits)

text \<open>The violations of a property or an item, one level down.\<close>

definition prop_errs :: "schema \<Rightarrow> gval \<Rightarrow> string \<Rightarrow> violation \<Rightarrow> bool" where
  "prop_errs s v path e \<longleftrightarrow>
     (\<exists>m k ps pv. str_or_empty (get_key s ''type'') = ''object'' \<and> v = GObj m
        \<and> (k, GObj ps) \<in> set (props_list s) \<and> map_of m k = Some pv
        \<and> e \<in> set (validate_value ps pv (path @ ''.'' @ k)))"

definition item_errs :: "schema \<Rightarrow> gval \<Rightarrow> string \<Rightarrow> violation \<Rightarrow> bool" where
  "item_errs s v path e \<longleftrightarrow>
     (\<exists>xs it i x. str_or_empty (get_key s ''type'') = ''array'' \<and> v = GArr xs
        \<and> get_key s ''items'' = GObj it \<and> (i, x) \<in> set (enumerate 0 xs)
        \<and> e \<in> set (validate_value it x (index_path path i)))"

lemma typed_errs:
  assumes "map_of s ''oneOf'' = None" "map_of s ''anyOf'' = None" "e \<in> set (validate_value s v path)"
  shows "violation_path e = path \<and> \<not> is_malformed e \<or> prop_errs s v path e \<or> item_errs s v path e"
proof -
  let ?ty = "str_or_empty (get_key s ''type'')"
  note e = assms(3)[unfolded validate_value.simps[of s v path]]
  consider (o) m where "?ty = ''object''" "v = GObj m"
    | (a) xs where "?ty = ''array''" "v = GArr xs"
    | (no_obj) "?ty = ''object''" "\<nexists>m. v = GObj m"
    | (no_arr) "?ty = ''array''" "\<nexists>xs. v = GArr xs"
    | (flat) "?ty \<noteq> ''object''" "?ty \<noteq> ''array''"
    by blast
  then show ?thesis
  proof cases
    case o
    with assms(1,2) e consider "e \<in> set (required_errs s m path)" | "e \<in> set (extra_errs s m path)"
      | "prop_errs s v path e"
      by (auto simp: Let_def prop_errs_def split: option.splits gval.splits) metis
    then show ?thesis
      by cases (auto dest: flat_errs_path)
  next
    case a
    with assms(1,2) e show ?thesis
      by (auto simp: Let_def item_errs_def dest: flat_errs_path split: gval.splits)
  next
    case no_obj
    with assms(1,2) e show ?thesis by (cases v) auto
  next
    case no_arr
    with assms(1,2) e show ?thesis by (cases v) auto
  next
    case flat
    with assms(1,2) e show ?thesis
      by (auto simp: Let_def dest: flat_errs_path split: gval.splits option.splits if_splits)
  qed
qed

lemma comb_errs:
  assumes "map_of s ''oneOf'' \<noteq> None \<or> map_of s ''anyOf'' \<noteq> None" "e \<in> set (validate_value s v path)"
  shows "violation_path e = path"
  using assms(1) assms(2)[unfolded validate_value.simps[of s v path]]
  by (auto dest: comb_errs_path split: option.splits)

text \<open>
  A combinator reports at its own node only, so every violation lies at or below the node
  that was checked.
\<close>

lemma validate_value_path: "e \<in> set (validate_value s v path) \<Longrightarrow> has_prefix (violation_path e) path"
proof (induction s v path rule: validate_value.induct)
  case (1 s v path)
  show ?case
  proof (cases "map_of s ''oneOf'' \<noteq> None \<or> map_of s ''anyOf'' \<noteq> None")
    case True
    then show ?thesis using comb_errs[OF True "1.prems"] by simp
  next
    case False
    then have typed: "map_of s ''oneOf'' = None" "map_of s ''anyOf'' = None" by auto
    have step: "has_prefix p (path @ q) \<Longrightarrow> has_prefix p path" for p q
      using has_prefix_trans has_prefix_append by blast
    from typed_errs[OF typed "1.prems"] show ?thesis
    proof (elim disjE)
      assume "prop_errs s v path e"
      then show ?thesis
        unfolding prop_errs_def using "1.IH"(1)[OF typed refl _ _ _ refl _ refl] step by blast
    next
      assume "item_errs s v path e"
      then obtain xs it i x where h: "str_or_empty (get_key s ''type'') = ''array''" "v = GArr xs"
        "get_key s ''items'' = GObj it" "(i, x) \<in> set (enumerate 0 xs)"
        "e \<in> set (validate_value it x (index_path path i))"
        by (auto simp: item_errs_def)
      then have no: "str_or_empty (get_key s ''type'') \<noteq> ''object''" by simp
      show ?thesis
        using "1.IH"(2)[OF typed refl no h(1-4) refl h(5)] step by (simp add: index_path_def)
    qed simp
  qed
qed

subsection \<open>Properties\<close>

text \<open>
  C1: the gate implements the declarative reading of a contract. The validator returns no
  violation for a value exactly when the value conforms to the schema.
\<close>

theorem validate_iff_conforms: "validate s v = [] \<longleftrightarrow> conforms s v"
  by (simp only: validate_eq validate_value_conforms)

text \<open>
  a oneOf list of schemas accepts a value exactly when exactly one of its branches
  accepts it, and it is then the whole check of its node: the sibling keywords of the
  schema play no part.
\<close>

theorem one_of_exactly_one:
  assumes "map_of s ''oneOf'' = Some (GArr (map GObj branches))"
  shows "validate s v = [] \<longleftrightarrow> exactly_one (\<lambda>b. validate b v = []) branches"
proof -
  have "exactly_one (\<lambda>b. case b of GObj bs \<Rightarrow> conforms bs v | _ \<Rightarrow> False) (map GObj branches)
      = exactly_one (\<lambda>b. conforms b v) branches"
    by (simp add: exactly_one_map)
  then show ?thesis
    using assms by (simp only: validate_eq validate_value_conforms)
      (simp add: conforms.simps[of s v])
qed

theorem one_of_exactly_one_witness:
  "validate [(''oneOf'', GArr (map GObj [[(''type'', GStr ''string'')], [(''type'', GStr ''boolean'')]]))] (GStr ''x'') = []
     \<longleftrightarrow> exactly_one (\<lambda>b. validate b (GStr ''x'') = [])
           [[(''type'', GStr ''string'')], [(''type'', GStr ''boolean'')]]"
  by (rule one_of_exactly_one) simp

text \<open>
  every violation is reported at the node that was checked or below it: its path
  starts with the path of that node, the dollar sign for a whole document.
\<close>

theorem violation_below_node:
  assumes "e \<in> set (validate_value s v path)"
  shows "has_prefix (violation_path e) path"
  using assms by (rule validate_value_path)

theorem violation_below_node_witness:
  "has_prefix (violation_path (VExpected ''$'' ''null'' ''boolean'')) ''$''"
proof -
  have "VExpected ''$'' ''null'' ''boolean'' \<in> set (validate_value [(''type'', GStr ''null'')] (GBool True) ''$'')"
    by (simp add: validate_value.simps get_key_def)
  then show ?thesis by (rule violation_below_node)
qed

end
