(* ===== verification/Tcs_Lint.thy ===== *)
theory Tcs_Lint
  imports Tcs_Validator
begin

text \<open>
  The offline schema linter, \<^verbatim>\<open>internal/tcs/lint.go\<close>. The walk collects problems as values;
  \<open>render_problem\<close> is the message of the source, and \<open>lint\<close> sorts the messages.
\<close>

subsection \<open>Vocabulary\<close>

text \<open>The em dash of two messages, in UTF-8.\<close>

definition em_dash :: string where
  "em_dash = [CHR 0xE2, CHR 0x80, CHR 0x94]"

definition unsupported :: "(string \<times> string) list" where
  "unsupported =
    [(''pattern'', ''regex matching is left to the tool's own runtime (escaping + ReDoS belong downstream)''),
     (''format'', ''format assertions are not enforced by the gate; validate in the tool''),
     (''$ref'', ''references are not resolved by the gate; inline the schema''),
     (''allOf'', ''not supported; express the combined shape directly, or use oneOf/anyOf''),
     (''const'', ''not supported; use enum with a single value'')]"

definition known_keywords :: "string list" where
  "known_keywords =
    [''type'', ''required'', ''properties'', ''additionalProperties'',
     ''items'', ''minItems'', ''maxItems'', ''enum'',
     ''minLength'', ''maxLength'', ''minimum'', ''maximum'',
     ''oneOf'', ''anyOf'', ''summary'', ''description'', ''title'']"

definition known_types :: "string list" where
  "known_types = [''object'', ''array'', ''string'', ''integer'', ''number'', ''boolean'', ''null'']"

datatype lint_problem =
    LUnsupported string string string
  | LUnknownKeyword string string
  | LTypeNotString string
  | LUnknownType string string
  | LPropNotObject string string
  | LNotBranchList string string
  | LBranchNotSchema string string nat

subsection \<open>The walk\<close>

definition keyword_problems :: "schema \<Rightarrow> string \<Rightarrow> lint_problem list" where
  "keyword_problems s path =
     concat (map (\<lambda>(k, _).
       case map_of unsupported k of
         Some reason \<Rightarrow> [LUnsupported path k reason]
       | None \<Rightarrow> if k \<in> set known_keywords then [] else [LUnknownKeyword path k]) s)"

definition type_problems :: "schema \<Rightarrow> string \<Rightarrow> lint_problem list" where
  "type_problems s path =
     (case map_of s ''type'' of
        None \<Rightarrow> []
      | Some raw \<Rightarrow>
          (case raw of
             GStr t \<Rightarrow> if t \<in> set known_types then [] else [LUnknownType path t]
           | _ \<Rightarrow> [LTypeNotString path]))"

definition branch_path :: "string \<Rightarrow> string \<Rightarrow> nat \<Rightarrow> string" where
  "branch_path path key i = index_path (path @ ''/'' @ key) i"

function lint_schema :: "schema \<Rightarrow> string \<Rightarrow> lint_problem list" where
  "lint_schema s path =
     keyword_problems s path
     @ type_problems s path
     @ concat (map (\<lambda>(k, raw).
         case raw of
           GObj ps \<Rightarrow> lint_schema ps (path @ ''.'' @ k)
         | _ \<Rightarrow> [LPropNotObject path k]) (props_list s))
     @ (case get_key s ''items'' of
          GObj items \<Rightarrow> lint_schema items (path @ ''[]'')
        | _ \<Rightarrow> [])
     @ concat (map (\<lambda>key.
         case map_of s key of
           None \<Rightarrow> []
         | Some raw \<Rightarrow>
             (case raw of
                GArr branches \<Rightarrow>
                  if branches = [] then [LNotBranchList path key]
                  else concat (map (\<lambda>(i, b).
                    case b of
                      GObj bs \<Rightarrow> lint_schema bs (branch_path path key i)
                    | _ \<Rightarrow> [LBranchNotSchema path key i]) (enumerate 0 branches))
              | _ \<Rightarrow> [LNotBranchList path key])) [''oneOf'', ''anyOf''])"
  by pat_completeness auto
termination
  by (relation "measure (\<lambda>(s, path). size (GObj s))")
     (auto simp del: gval.size dest!: enumerate_mem intro: props_list_size items_size branch_size)

declare lint_schema.simps [simp del]

subsection \<open>Messages\<close>

text \<open>
  \<^verbatim>\<open>%q\<close> of a string: quotes, backslashes and control characters are escaped. Bytes of a
  multi-byte character are kept, as \<^verbatim>\<open>strconv.Quote\<close> keeps printable characters.
\<close>

definition quote_char :: "char \<Rightarrow> string" where
  "quote_char c =
     (let n = (of_char c :: nat)
      in if c = CHR 0x22 then [CHR 0x5C, CHR 0x22]
         else if c = CHR 0x5C then [CHR 0x5C, CHR 0x5C]
         else if n = 7 then [CHR 0x5C, CHR ''a'']
         else if n = 8 then [CHR 0x5C, CHR ''b'']
         else if n = 9 then [CHR 0x5C, CHR ''t'']
         else if n = 10 then [CHR 0x5C, CHR ''n'']
         else if n = 11 then [CHR 0x5C, CHR ''v'']
         else if n = 12 then [CHR 0x5C, CHR ''f'']
         else if n = 13 then [CHR 0x5C, CHR ''r'']
         else if n < 32 \<or> n = 127 then [CHR 0x5C, CHR ''x'', hex_digit (n div 16), hex_digit (n mod 16)]
         else [c])"

definition go_quote :: "string \<Rightarrow> string" where
  "go_quote s = [CHR 0x22] @ concat (map quote_char s) @ [CHR 0x22]"

fun render_problem :: "lint_problem \<Rightarrow> string" where
  "render_problem (LUnsupported path k reason) =
     path @ '': '' @ go_quote k @ '' is not supported by the TCS schema subset '' @ em_dash @ '' '' @ reason"
| "render_problem (LUnknownKeyword path k) =
     path @ '': unknown keyword '' @ go_quote k @ '' (typo? it will be silently ignored by the validator)''"
| "render_problem (LTypeNotString path) = path @ '': type must be a string''"
| "render_problem (LUnknownType path t) = path @ '': unknown type '' @ go_quote t"
| "render_problem (LPropNotObject path k) = path @ ''.'' @ k @ '': property schema must be an object''"
| "render_problem (LNotBranchList path key) = path @ '': '' @ key @ '' must be a non-empty list of schemas''"
| "render_problem (LBranchNotSchema path key i) =
     branch_path path key i @ '': branch must be a schema object''"

definition lint :: "schema \<Rightarrow> string list" where
  "lint s = sort (map render_problem (lint_schema s ''$''))"

lemma lint_Nil: "lint s = [] \<longleftrightarrow> lint_schema s ''$'' = []"
proof -
  have "lint s = [] \<longleftrightarrow> set (lint s) = {}" by simp
  then show ?thesis by (simp add: lint_def)
qed

text \<open>A schema without sub-schemas: the keyword and type checks are the whole walk.\<close>

lemma lint_schema_flat:
  assumes "map_of s ''properties'' = None" "map_of s ''items'' = None"
    "map_of s ''oneOf'' = None" "map_of s ''anyOf'' = None"
  shows "lint_schema s path = keyword_problems s path @ type_problems s path"
proof -
  have "props_list s = []" "get_key s ''items'' = GNull"
    using assms by (simp_all add: props_list_def get_key_def)
  with assms show ?thesis
    by (subst lint_schema.simps) (simp only: list.map concat.simps option.case gval.case append_Nil append_Nil2)
qed

text \<open>A schema whose only keyword is a oneOf of two flat schemas or of one.\<close>

lemma lint_schema_one_of:
  "lint_schema [(''oneOf'', GArr [GObj bs])] path = lint_schema bs (branch_path path ''oneOf'' 0)"
proof -
  have "keyword_problems [(''oneOf'', v)] path = []" for v
    by (simp add: keyword_problems_def unsupported_def known_keywords_def)
  moreover have "props_list [(''oneOf'', v)] = []" "get_key [(''oneOf'', v)] ''items'' = GNull"
    "type_problems [(''oneOf'', v)] path = []" for v
    by (simp_all add: props_list_def get_key_def type_problems_def)
  moreover have "map_of [(''oneOf'', v)] ''oneOf'' = Some v" "map_of [(''oneOf'', v)] ''anyOf'' = None" for v :: gval
    by simp_all
  ultimately show ?thesis
    by (subst lint_schema.simps)
       (simp only: list.map concat.simps option.case gval.case append_Nil append_Nil2 list.distinct
         if_False enumerate_simps prod.case)
qed

lemmas lint_eval = lint_Nil lint_schema_one_of lint_schema_flat keyword_problems_def
  type_problems_def unsupported_def known_keywords_def known_types_def

subsection \<open>What a clean schema guarantees\<close>

lemma lint_clean_props:
  assumes "lint_schema s path = []" "(k, raw) \<in> set (props_list s)"
  shows "\<exists>ps. raw = GObj ps \<and> lint_schema ps (path @ ''.'' @ k) = []"
proof -
  have "concat (map (\<lambda>(k, raw).
         case raw of
           GObj ps \<Rightarrow> lint_schema ps (path @ ''.'' @ k)
         | _ \<Rightarrow> [LPropNotObject path k]) (props_list s)) = []"
    using assms(1) by (subst (asm) lint_schema.simps) (simp only: append_is_Nil_conv)
  from bspec[OF this[unfolded concat_map_eq_Nil] assms(2)] show ?thesis
    by (cases raw) auto
qed

lemma lint_clean_items:
  "lint_schema s path = [] \<Longrightarrow> get_key s ''items'' = GObj items \<Longrightarrow> lint_schema items (path @ ''[]'') = []"
  by (subst (asm) lint_schema.simps) simp

lemma lint_clean_branches:
  assumes "lint_schema s path = []" "key = ''oneOf'' \<or> key = ''anyOf''" "map_of s key = Some raw"
  shows "\<exists>branches. raw = GArr branches \<and> branches \<noteq> []
     \<and> (\<forall>b\<in>set branches. \<exists>bs p. b = GObj bs \<and> lint_schema bs p = [])"
proof -
  have n: "(case raw of
                GArr branches \<Rightarrow>
                  if branches = [] then [LNotBranchList path key]
                  else concat (map (\<lambda>(i, b).
                    case b of
                      GObj bs \<Rightarrow> lint_schema bs (branch_path path key i)
                    | _ \<Rightarrow> [LBranchNotSchema path key i]) (enumerate 0 branches))
              | _ \<Rightarrow> [LNotBranchList path key]) = []"
    using assms by (subst (asm) lint_schema.simps) auto
  then obtain branches where b: "raw = GArr branches" "branches \<noteq> []"
    by (cases raw) (auto split: if_splits)
  have "\<exists>bs p. x = GObj bs \<and> lint_schema bs p = []" if "x \<in> set branches" for x
  proof -
    from mem_enumerate[OF that] obtain i where "(i, x) \<in> set (enumerate 0 branches)" by blast
    with n b have "(case x of
                      GObj bs \<Rightarrow> lint_schema bs (branch_path path key i)
                    | _ \<Rightarrow> [LBranchNotSchema path key i]) = []"
      by (auto split: if_splits)
    then show ?thesis by (cases x) auto
  qed
  with b show ?thesis by blast
qed

lemma lint_clean_no_malformed:
  assumes "lint_schema s p = []" "e \<in> set (validate_value s v path)"
  shows "\<not> is_malformed e"
  using assms
proof (induction s v path arbitrary: p rule: validate_value.induct)
  case (1 s v path)
  let ?ty = "str_or_empty (get_key s ''type'')"
  consider raw where "map_of s ''oneOf'' = Some raw"
    | raw where "map_of s ''oneOf'' = None" "map_of s ''anyOf'' = Some raw"
    | (typed) "map_of s ''oneOf'' = None" "map_of s ''anyOf'' = None" by fastforce
  then show ?case
  proof cases
    case 1
    with lint_clean_branches[OF "1.prems"(1), of "''oneOf''" raw] obtain branches
      where "raw = GArr branches" "branches \<noteq> []" by blast
    with 1 "1.prems"(2) show ?thesis
      by (subst (asm) validate_value.simps)
         (auto simp: validate_one_of_def Let_def split: if_splits)
  next
    case 2
    with lint_clean_branches[OF "1.prems"(1), of "''anyOf''" raw] obtain branches
      where "raw = GArr branches" "branches \<noteq> []" by blast
    with 2 "1.prems"(2) show ?thesis
      by (subst (asm) validate_value.simps)
         (auto simp: validate_any_of_def split: if_splits)
  next
    case typed
    from typed_errs[OF typed "1.prems"(2)] show ?thesis
    proof (elim disjE)
      assume "prop_errs s v path e"
      then obtain m k ps pv where h: "str_or_empty (get_key s ''type'') = ''object''" "v = GObj m"
        "(k, GObj ps) \<in> set (props_list s)" "map_of m k = Some pv"
        "e \<in> set (validate_value ps pv (path @ ''.'' @ k))"
        by (auto simp: prop_errs_def)
      show ?thesis
        using "1.IH"(1)[OF typed refl h(1-3) refl h(4) refl _ h(5)]
          lint_clean_props[OF "1.prems"(1) h(3)] by blast
    next
      assume "item_errs s v path e"
      then obtain xs it i x where h: "str_or_empty (get_key s ''type'') = ''array''" "v = GArr xs"
        "get_key s ''items'' = GObj it" "(i, x) \<in> set (enumerate 0 xs)"
        "e \<in> set (validate_value it x (index_path path i))"
        by (auto simp: item_errs_def)
      then have no: "str_or_empty (get_key s ''type'') \<noteq> ''object''" by simp
      show ?thesis
        using "1.IH"(2)[OF typed refl no h(1-4) refl _ h(5)]
          lint_clean_items[OF "1.prems"(1) h(3)] by blast
    qed simp
  qed
qed

subsection \<open>Properties\<close>

text \<open>
  C25: a schema the linter passes never makes the gate stumble over its structure. On no
  value does the validator report that a oneOf or anyOf is not a non-empty list of schemas.
\<close>

theorem lint_clean_gate_well_formed:
  assumes "lint s = []" "e \<in> set (validate s v)"
  shows "\<not> is_malformed e"
  using assms lint_clean_no_malformed by (simp add: lint_Nil validate_eq)

theorem lint_clean_gate_well_formed_witness:
  "\<not> is_malformed (VNoMatch ''$'' 1)"
proof -
  let ?s = "[(''oneOf'', GArr [GObj [(''type'', GStr ''null'')]])]"
  have "lint ?s = []"
    by (simp add: lint_eval)
  moreover have "VNoMatch ''$'' 1 \<in> set (validate ?s (GBool True))"
    by (simp add: validate_def validate_value.simps validate_one_of_def branch_ok_def get_key_def)
  ultimately show ?thesis by (rule lint_clean_gate_well_formed)
qed

text \<open>
  in a schema the linter passes, no branch of a oneOf is skipped by the gate: every
  branch is a schema, and the value is accepted exactly when exactly one branch accepts it.
\<close>

theorem lint_clean_one_of_counts_all:
  assumes "lint s = []" "map_of s ''oneOf'' = Some raw"
  shows "\<exists>branches. branches \<noteq> [] \<and> raw = GArr (map GObj branches)
     \<and> (validate s v = [] \<longleftrightarrow> exactly_one (\<lambda>b. conforms b v) branches)"
proof -
  obtain bs where bs: "raw = GArr bs" "bs \<noteq> []" "\<forall>b\<in>set bs. \<exists>s. b = GObj s"
    using lint_clean_branches[of s "''$''" "''oneOf''" raw] assms by (fastforce simp: lint_Nil)
  then have "\<exists>branches. bs = map GObj branches"
    by (intro ex_map_conv[THEN iffD2]) blast
  then obtain branches where b: "bs = map GObj branches" by blast
  have "exactly_one (\<lambda>b. case b of GObj bs \<Rightarrow> conforms bs v | _ \<Rightarrow> False) (map GObj branches)
      = exactly_one (\<lambda>b. conforms b v) branches"
    by (simp add: exactly_one_map)
  with assms(2) bs b show ?thesis
    by (intro exI[of _ branches])
       (simp add: validate_eq validate_value_conforms conforms.simps[of s v])
qed

theorem lint_clean_one_of_counts_all_witness:
  "\<exists>branches. branches \<noteq> [] \<and> GArr [GObj [(''type'', GStr ''null'')]] = GArr (map GObj branches)
     \<and> (validate [(''oneOf'', GArr [GObj [(''type'', GStr ''null'')]])] (GBool True) = []
        \<longleftrightarrow> exactly_one (\<lambda>b. conforms b (GBool True)) branches)"
proof (rule lint_clean_one_of_counts_all)
  show "lint [(''oneOf'', GArr [GObj [(''type'', GStr ''null'')]])] = []"
    by (simp add: lint_eval)
qed simp

text \<open>
  a schema without a type is linted clean and yet constrains nothing. Required names,
  closed properties and an enum list are then silently ignored by the gate, so the linter
  does not report everything the gate cannot honor.
\<close>

theorem lint_clean_untyped_unconstrained:
  "lint [(''required'', GArr [GStr ''id'']), (''additionalProperties'', GBool False),
         (''enum'', GArr [GStr ''a''])] = []
   \<and> validate [(''required'', GArr [GStr ''id'']), (''additionalProperties'', GBool False),
         (''enum'', GArr [GStr ''a''])] v = []"
proof
  show "lint [(''required'', GArr [GStr ''id'']), (''additionalProperties'', GBool False),
         (''enum'', GArr [GStr ''a''])] = []"
    by (simp add: lint_eval)
qed (simp add: validate_def validate_value.simps get_key_def)

end
