(* ===== verification/Tcs_Interp.thy ===== *)
theory Tcs_Interp
  imports Go_Paths
begin

text \<open>
  The file system the program sees, and \<^verbatim>\<open>internal/tcs/interp.go\<close> and \<^verbatim>\<open>hash.go\<close>: which
  interpreter a run script is executed by, and the digest of a file.

  The operating system is not part of the repository. A record of functions stands for what
  a call of \<^verbatim>\<open>os.Stat\<close>, \<^verbatim>\<open>os.Lstat\<close> and \<^verbatim>\<open>os.ReadFile\<close> returns (\<open>None\<close> is an error), and
  for SHA-256 as a function from the contents of a file to the bytes of its digest.
\<close>

unbundle bit_operations_syntax

subsection \<open>The environment\<close>

datatype fkind = KRegular | KDir | KSymlink | KSocket | KOther

record fileinfo =
  fi_kind :: fkind
  fi_perm :: "9 word"
  fi_size :: nat

record os_env =
  os_stat :: "string \<Rightarrow> fileinfo option"
  os_lstat :: "string \<Rightarrow> fileinfo option"
  os_read :: "string \<Rightarrow> string option"
  os_sha256 :: "string \<Rightarrow> 8 word list"

text \<open>The execute bits \<^verbatim>\<open>0o111\<close> and the group and other read and execute bits \<^verbatim>\<open>0o055\<close>.\<close>

definition exec_bits :: "9 word" where
  "exec_bits = 73"

definition bypass_bits :: "9 word" where
  "bypass_bits = 45"

definition hash_file :: "os_env \<Rightarrow> string \<Rightarrow> string option" where
  "hash_file env path = map_option (\<lambda>c. hex_encode (os_sha256 env c)) (os_read env path)"

subsection \<open>Finding a program\<close>

definition sandbox_path :: string where
  "sandbox_path = ''/usr/local/sbin:/usr/local/bin:/usr/sbin:/usr/bin:/sbin:/bin''"

definition executable :: "os_env \<Rightarrow> string \<Rightarrow> bool" where
  "executable env p =
     (case os_stat env p of
        None \<Rightarrow> False
      | Some fi \<Rightarrow> fi_kind fi \<noteq> KDir \<and> fi_perm fi AND exec_bits \<noteq> 0)"

fun first_executable :: "os_env \<Rightarrow> string \<Rightarrow> string list \<Rightarrow> string option" where
  "first_executable env name [] = None"
| "first_executable env name (dir # dirs) =
     (if dir = [] then first_executable env name dirs
      else if executable env (join_path [dir, name]) then Some (join_path [dir, name])
      else first_executable env name dirs)"

definition look_path_in :: "os_env \<Rightarrow> string \<Rightarrow> string \<Rightarrow> string option" where
  "look_path_in env name path =
     (if contains name ''/'' then (if executable env name then Some name else None)
      else first_executable env name (split_on (CHR '':'') path))"

subsection \<open>The shebang\<close>

text \<open>\<^verbatim>\<open>ReadString\<close> up to and including the first newline.\<close>

fun first_line :: "string \<Rightarrow> string" where
  "first_line [] = []"
| "first_line (c # cs) = (if c = CHR 0x0A then [c] else c # first_line cs)"

fun env_program :: "string list \<Rightarrow> string option" where
  "env_program [] = None"
| "env_program (f # fs) =
     (if \<not> has_prefix f ''-'' \<and> \<not> contains f ''='' then Some f else env_program fs)"

definition shebang_of_line :: "string \<Rightarrow> string option" where
  "shebang_of_line raw =
     (let line = trim_right_by (\<lambda>c. c = CHR 0x0D \<or> c = CHR 0x0A) raw in
      if \<not> has_prefix line ''#!'' then None
      else (case str_fields (trim_space (drop 2 line)) of
              [] \<Rightarrow> None
            | interp # rest \<Rightarrow>
                if path_base interp = ''env'' then env_program rest else Some interp))"

definition shebang_interpreter :: "os_env \<Rightarrow> string \<Rightarrow> string option" where
  "shebang_interpreter env run_path =
     (case os_read env run_path of
        None \<Rightarrow> None
      | Some text \<Rightarrow>
          let line = first_line text in if line = [] then None else shebang_of_line line)"

text \<open>
  The result names the interpreter (empty when there is none) and, when it is found, its
  path; \<open>None\<close> as the second part is \<^verbatim>\<open>ok == false\<close>.
\<close>

definition resolve_interpreter :: "os_env \<Rightarrow> string \<Rightarrow> string \<Rightarrow> string \<times> string option" where
  "resolve_interpreter env run_path path =
     (case shebang_interpreter env run_path of
        None \<Rightarrow> ([], None)
      | Some interp \<Rightarrow> (interp, look_path_in env interp path))"

subsection \<open>Lemmas\<close>

lemma first_executable_Some:
  "first_executable env name dirs = Some p \<Longrightarrow>
     executable env p \<and> (\<exists>dir\<in>set dirs. dir \<noteq> [] \<and> p = join_path [dir, name])"
  by (induction dirs) (auto split: if_splits)

lemma first_executable_None:
  "first_executable env name dirs = None \<longleftrightarrow>
     (\<forall>dir\<in>set dirs. dir \<noteq> [] \<longrightarrow> \<not> executable env (join_path [dir, name]))"
  by (induction dirs) auto

lemma look_path_in_executable: "look_path_in env name path = Some p \<Longrightarrow> executable env p"
  by (auto simp: look_path_in_def dest: first_executable_Some split: if_splits)

lemma env_program_Some:
  "env_program fs = Some f \<Longrightarrow> f \<in> set fs \<and> \<not> has_prefix f ''-'' \<and> \<not> contains f ''=''"
  by (induction fs) (auto split: if_splits)

end
