(* ===== verification/Tools.thy ===== *)
theory Tools
  imports Tcs_Validator Tcs_Interp
begin

text \<open>
  Tool contracts, \<^verbatim>\<open>cmd/agent-desk/tools.go\<close>: the records decoded from \<^verbatim>\<open>tcs.yaml\<close>, the
  execution budget in 64-bit durations (nanoseconds), and the loading of the tool folders.
  YAML decoding is third-party code and stands as a function argument.
\<close>

subsection \<open>The contract\<close>

record integrity_spec =
  run_sha256 :: string
  interpreter_sha256 :: string

record side_effects =
  se_files :: "string list option"
  se_network :: bool

record sandbox_spec =
  sb_in :: "string list"
  sb_out :: "string list"

record execution_spec =
  ex_mode :: string
  ex_max_retries :: int
  ex_timeout_ms :: int

record tool =
  tl_name :: string
  tl_summary :: string
  tl_input :: "schema option"
  tl_output :: schema
  tl_effects :: side_effects
  tl_sandbox :: sandbox_spec
  tl_integrity :: integrity_spec
  tl_exec :: execution_spec
  tl_dir :: string
  tl_run_path :: string
  tl_raw :: string

definition is_queued :: "execution_spec \<Rightarrow> bool" where
  "is_queued e \<longleftrightarrow> ex_mode e = [] \<or> ex_mode e = ''queued''"

subsection \<open>Durations\<close>

text \<open>
  A \<^verbatim>\<open>time.Duration\<close> is a signed 64-bit count of nanoseconds; its arithmetic wraps.
\<close>

type_synonym duration = "64 word"

definition nanosecond :: duration where "nanosecond = 1"
definition millisecond :: duration where "millisecond = 1000000"
definition second :: duration where "second = 1000000000"

definition timeout :: "execution_spec \<Rightarrow> duration" where
  "timeout e =
     (if ex_timeout_ms e \<le> 0 then 30 * second
      else word_of_int (ex_timeout_ms e) * millisecond)"

definition max_total_duration :: "execution_spec \<Rightarrow> duration" where
  "max_total_duration e = timeout e * word_of_int (ex_max_retries e + 1) + 5 * second"

lemma sint_small:
  "- (2 ^ 63) \<le> i \<Longrightarrow> i < 2 ^ 63 \<Longrightarrow> sint (word_of_int i :: 64 word) = i"
  by (simp add: sint_sbintrunc' signed_take_bit_int_eq_self)

text \<open>Within the 64-bit range the durations are the numbers they stand for.\<close>

definition timeout_ns :: "execution_spec \<Rightarrow> int" where
  "timeout_ns e = (if ex_timeout_ms e \<le> 0 then 30000000000 else ex_timeout_ms e * 1000000)"

lemma timeout_word: "timeout e = word_of_int (timeout_ns e)"
  by (simp add: timeout_def timeout_ns_def second_def millisecond_def wi_hom_mult)

lemma max_total_word:
  "max_total_duration e = word_of_int (timeout_ns e * (ex_max_retries e + 1) + 5000000000)"
  by (simp add: max_total_duration_def timeout_word second_def wi_hom_mult wi_hom_add)

lemma timeout_sint:
  "timeout_ns e < 2 ^ 63 \<Longrightarrow> sint (timeout e) = timeout_ns e"
  unfolding timeout_word by (rule sint_small) (auto simp: timeout_ns_def)

lemma max_total_sint:
  assumes "0 \<le> ex_max_retries e" "timeout_ns e * (ex_max_retries e + 1) + 5000000000 < 2 ^ 63"
  shows "sint (max_total_duration e) = timeout_ns e * (ex_max_retries e + 1) + 5000000000"
proof -
  have "0 \<le> timeout_ns e" by (simp add: timeout_ns_def)
  with assms(1) have "0 \<le> timeout_ns e * (ex_max_retries e + 1)" by simp
  with assms(2) show ?thesis unfolding max_total_word by (intro sint_small) auto
qed

end
