(* ===== verification/Integrity.thy ===== *)
theory Integrity
  imports Tools Tcs_Lint
begin

text \<open>
  Tool integrity, \<^verbatim>\<open>cmd/agent-desk/integrity.go\<close>: the optional pins of a contract, the check
  of the files on disk against them, and the block that \<^verbatim>\<open>agent-desk -pin\<close> prints.
\<close>

subsection \<open>Pins\<close>

definition run_pinned :: "integrity_spec \<Rightarrow> bool" where
  "run_pinned i \<longleftrightarrow> trim_space (run_sha256 i) \<noteq> []"

definition interp_pinned :: "integrity_spec \<Rightarrow> bool" where
  "interp_pinned i \<longleftrightarrow> trim_space (interpreter_sha256 i) \<noteq> []"

definition wanted :: "string \<Rightarrow> string" where
  "wanted pin = to_lower (trim_space pin)"

datatype integrity_error =
    CannotHash string
  | RunChanged string string string
  | NoInterpreter string string
  | CannotHashInterpreter string
  | InterpreterChanged string string string string string

definition or_default :: "string \<Rightarrow> string \<Rightarrow> string" where
  "or_default s d = (if s = [] then d else s)"

text \<open>\<open>None\<close> is the nil error.\<close>

definition verify_run :: "os_env \<Rightarrow> tool \<Rightarrow> integrity_error option" where
  "verify_run env t =
     (if run_pinned (tl_integrity t) then
        (case hash_file env (tl_run_path t) of
           None \<Rightarrow> Some (CannotHash (tl_run_path t))
         | Some got \<Rightarrow>
             if got \<noteq> wanted (run_sha256 (tl_integrity t))
             then Some (RunChanged (tl_run_path t) (wanted (run_sha256 (tl_integrity t))) got)
             else None)
      else None)"

definition verify_interpreter :: "os_env \<Rightarrow> tool \<Rightarrow> integrity_error option" where
  "verify_interpreter env t =
     (if interp_pinned (tl_integrity t) then
        (let want = wanted (interpreter_sha256 (tl_integrity t)) in
         case resolve_interpreter env (tl_run_path t) sandbox_path of
           (name, None) \<Rightarrow>
             Some (NoInterpreter (tl_run_path t) (or_default name (''none '' @ em_dash @ '' no shebang'')))
         | (name, Some path) \<Rightarrow>
             (case hash_file env path of
                None \<Rightarrow> Some (CannotHashInterpreter path)
              | Some got \<Rightarrow>
                  if got \<noteq> want
                  then Some (InterpreterChanged name path (tl_run_path t) want got)
                  else None))
      else None)"

definition verify_integrity :: "os_env \<Rightarrow> tool \<Rightarrow> integrity_error option" where
  "verify_integrity env t =
     (case verify_run env t of Some e \<Rightarrow> Some e | None \<Rightarrow> verify_interpreter env t)"

subsection \<open>The paste-ready block\<close>

definition sorted_tool_names :: "(string \<times> tool) list \<Rightarrow> string list" where
  "sorted_tool_names tools = sort (keys_of tools)"

definition pin_state :: "integrity_spec \<Rightarrow> string \<Rightarrow> string" where
  "pin_state i digest =
     (if run_pinned i \<and> to_lower (run_sha256 i) = to_lower digest then ''already pinned to this value''
      else if run_pinned i
      then ''PINNED TO A DIFFERENT VALUE '' @ em_dash @ '' read the script before pasting this''
      else ''currently unpinned'')"

abbreviation newline :: string where
  "newline \<equiv> [CHR 0x0A]"

definition format_interpreter_pin :: "os_env \<Rightarrow> tool \<Rightarrow> string" where
  "format_interpreter_pin env t =
     (case resolve_interpreter env (tl_run_path t) sandbox_path of
        (iname, None) \<Rightarrow> []
      | (iname, Some ipath) \<Rightarrow>
          (case hash_file env ipath of
             None \<Rightarrow> []
           | Some isum \<Rightarrow>
               ''  interpreter_sha256: '' @ go_quote isum @ ''  # '' @ iname @ '' -> '' @ ipath @ newline))"

text \<open>\<open>os_err\<close> is the text of the error that opening or reading the file gives.\<close>

definition format_pin :: "os_env \<Rightarrow> (string \<Rightarrow> string) \<Rightarrow> string \<Rightarrow> tool \<Rightarrow> string" where
  "format_pin env os_err name t =
     (case hash_file env (tl_run_path t) of
        None \<Rightarrow> ''# '' @ name @ '': cannot hash '' @ tl_run_path t @ '': '' @ os_err (tl_run_path t)
                @ newline @ newline
      | Some digest \<Rightarrow>
          ''# '' @ name @ '' ('' @ tl_run_path t @ '') '' @ em_dash @ '' ''
          @ pin_state (tl_integrity t) digest @ newline @ ''integrity:'' @ newline
          @ ''  run_sha256: '' @ go_quote digest @ newline
          @ format_interpreter_pin env t @ newline)"

definition format_pins :: "os_env \<Rightarrow> (string \<Rightarrow> string) \<Rightarrow> (string \<times> tool) list \<Rightarrow> string" where
  "format_pins env os_err tools =
     concat (map (\<lambda>name. case map_of tools name of
                           None \<Rightarrow> [] | Some t \<Rightarrow> format_pin env os_err name t)
                 (sorted_tool_names tools))"

subsection \<open>What the check means\<close>

definition run_matches :: "os_env \<Rightarrow> tool \<Rightarrow> bool" where
  "run_matches env t \<longleftrightarrow>
     (\<exists>text. os_read env (tl_run_path t) = Some text
        \<and> hex_encode (os_sha256 env text) = wanted (run_sha256 (tl_integrity t)))"

definition interpreter_matches :: "os_env \<Rightarrow> tool \<Rightarrow> bool" where
  "interpreter_matches env t \<longleftrightarrow>
     (\<exists>name path text. resolve_interpreter env (tl_run_path t) sandbox_path = (name, Some path)
        \<and> os_read env path = Some text
        \<and> hex_encode (os_sha256 env text) = wanted (interpreter_sha256 (tl_integrity t)))"

lemma verify_run_None:
  "verify_run env t = None \<longleftrightarrow> (run_pinned (tl_integrity t) \<longrightarrow> run_matches env t)"
  by (auto simp: verify_run_def run_matches_def hash_file_def split: option.splits)

lemma verify_interpreter_None:
  "verify_interpreter env t = None \<longleftrightarrow>
     (interp_pinned (tl_integrity t) \<longrightarrow> interpreter_matches env t)"
  by (auto simp: verify_interpreter_def interpreter_matches_def hash_file_def Let_def
      split: option.splits prod.splits)

lemma verify_integrity_None:
  "verify_integrity env t = None \<longleftrightarrow>
     (run_pinned (tl_integrity t) \<longrightarrow> run_matches env t)
   \<and> (interp_pinned (tl_integrity t) \<longrightarrow> interpreter_matches env t)"
  using verify_run_None[of env t] verify_interpreter_None[of env t]
  by (cases "verify_run env t") (auto simp: verify_integrity_def)

lemma hash_wanted: "wanted (hex_encode bs) = hex_encode bs"
  by (simp add: wanted_def)

text \<open>
  A tool passes the integrity check exactly when every pin it carries is met on disk: a
  pinned run script can be read and its lower-case hexadecimal SHA-256 is the trimmed,
  lower-cased pin, and for a pinned interpreter the shebang's program resolves on the sandbox
  PATH to a readable file with the pinned digest. A blank pin checks nothing.
\<close>

theorem verify_integrity_iff:
  "verify_integrity env t = None \<longleftrightarrow>
     (trim_space (run_sha256 (tl_integrity t)) = []
      \<or> (\<exists>text. os_read env (tl_run_path t) = Some text
           \<and> hex_encode (os_sha256 env text)
             = to_lower (trim_space (run_sha256 (tl_integrity t)))))
   \<and> (trim_space (interpreter_sha256 (tl_integrity t)) = []
      \<or> (\<exists>name path text. resolve_interpreter env (tl_run_path t) sandbox_path = (name, Some path)
           \<and> os_read env path = Some text
           \<and> hex_encode (os_sha256 env text)
             = to_lower (trim_space (interpreter_sha256 (tl_integrity t)))))"
  unfolding verify_integrity_None run_matches_def interpreter_matches_def run_pinned_def
    interp_pinned_def wanted_def by blast

subsection \<open>Pasting a printed pin\<close>

definition paste_pins :: "os_env \<Rightarrow> tool \<Rightarrow> tool" where
  "paste_pins env t =
     t\<lparr>tl_integrity :=
         \<lparr>run_sha256 = (case hash_file env (tl_run_path t) of None \<Rightarrow> [] | Some digest \<Rightarrow> digest),
          interpreter_sha256 =
            (case resolve_interpreter env (tl_run_path t) sandbox_path of
               (_, None) \<Rightarrow> []
             | (_, Some p) \<Rightarrow> (case hash_file env p of None \<Rightarrow> [] | Some digest \<Rightarrow> digest))\<rparr>\<rparr>"

lemma hex_encode_Nil_iff: "hex_encode bs = [] \<longleftrightarrow> bs = []"
  by (cases bs) (auto simp: hex_encode_def hex_byte_def)

text \<open>
  Pasting the values \<^verbatim>\<open>-pin\<close> prints into the contract gives a tool that passes the check
  as long as the files do not change: the printed digests are already trimmed and in lower
  case, and a script without a resolvable interpreter gets no interpreter pin to fail on.
\<close>

theorem pasted_pins_hold: "verify_integrity env (paste_pins env t) = None"
  unfolding verify_integrity_None
  by (auto simp: paste_pins_def run_pinned_def interp_pinned_def run_matches_def
      interpreter_matches_def hash_file_def hash_wanted split: option.splits prod.splits)

text \<open>
  A pasted pin catches a change: if the run script later has contents of another digest,
  the check fails with the path, the pinned and the found digest, whatever the interpreter.
\<close>

theorem pasted_pin_catches_change:
  assumes "os_read env (tl_run_path t) = Some old" "os_sha256 env old \<noteq> []"
    "os_read env' (tl_run_path t) = Some new" "os_sha256 env' new \<noteq> os_sha256 env old"
  shows "verify_integrity env' (paste_pins env t)
    = Some (RunChanged (tl_run_path t) (hex_encode (os_sha256 env old))
              (hex_encode (os_sha256 env' new)))"
  using assms
  by (simp add: verify_integrity_def verify_run_def paste_pins_def run_pinned_def hash_file_def
      hash_wanted hex_encode_inject hex_encode_Nil_iff)

text \<open>A file system with one file, digested to its length.\<close>

definition one_file_env :: "string \<Rightarrow> string \<Rightarrow> os_env" where
  "one_file_env path text =
     \<lparr>os_stat = (\<lambda>p. if p = path then Some \<lparr>fi_kind = KRegular, fi_perm = 493, fi_size = length text\<rparr> else None),
      os_lstat = (\<lambda>p. if p = path then Some \<lparr>fi_kind = KRegular, fi_perm = 493, fi_size = length text\<rparr> else None),
      os_read = (\<lambda>p. if p = path then Some text else None),
      os_sha256 = (\<lambda>s. [of_nat (length s)])\<rparr>"

definition sample_tool :: "string \<Rightarrow> tool" where
  "sample_tool path =
     \<lparr>tl_name = ''greet'', tl_summary = [], tl_input = None, tl_output = [],
      tl_effects = \<lparr>se_files = None, se_network = False\<rparr>,
      tl_sandbox = \<lparr>sb_in = [], sb_out = []\<rparr>,
      tl_integrity = \<lparr>run_sha256 = [], interpreter_sha256 = []\<rparr>,
      tl_exec = \<lparr>ex_mode = [], ex_max_retries = 0, ex_timeout_ms = 0\<rparr>,
      tl_dir = path_dir path, tl_run_path = path, tl_raw = []\<rparr>"

lemma pasted_pin_catches_change_witness:
  "verify_integrity (one_file_env ''/t/run'' ''two'')
      (paste_pins (one_file_env ''/t/run'' ''first'') (sample_tool ''/t/run''))
    = Some (RunChanged ''/t/run'' (hex_encode [5]) (hex_encode [3]))"
  using pasted_pin_catches_change[of "one_file_env ''/t/run'' ''first''" "sample_tool ''/t/run''"
      "''first''" "one_file_env ''/t/run'' ''two''" "''two''"]
  by (simp add: one_file_env_def sample_tool_def)

text \<open>
  The printed state of a pin compares without trimming, the check compares after
  trimming: a pin with blanks around the right digest passes the check, and \<^verbatim>\<open>-pin\<close> still
  reports it as pinned to a different value.
\<close>

theorem padded_pin_reported_as_different:
  assumes "os_read env (tl_run_path t) = Some text" "os_sha256 env text \<noteq> []"
    "run_sha256 (tl_integrity t) = '' '' @ hex_encode (os_sha256 env text)"
    "interpreter_sha256 (tl_integrity t) = []"
  shows "verify_integrity env t = None
    \<and> pin_state (tl_integrity t) (hex_encode (os_sha256 env text))
      = ''PINNED TO A DIFFERENT VALUE '' @ em_dash @ '' read the script before pasting this''"
proof -
  let ?h = "hex_encode (os_sha256 env text)"
  have ne: "?h \<noteq> []"
    using assms(2) hex_encode_length[of "os_sha256 env text"] by auto
  have tr: "trim_space ('' '' @ ?h) = ?h"
    using trim_by_pad[of ?h is_space "'' ''" "[]"] hex_encode_chars
    by (auto simp: trim_space_def is_space_def)
  have len: "length (to_lower ('' '' @ ?h)) \<noteq> length (to_lower ?h)"
    by (simp add: to_lower_def)
  have d: "to_lower ('' '' @ ?h) \<noteq> to_lower ?h"
    using len by (rule contrapos_nn) (rule arg_cong)
  have pinned: "run_pinned (tl_integrity t)" unfolding run_pinned_def assms(3) tr by (rule ne)
  have "wanted ('' '' @ ?h) = ?h" unfolding wanted_def tr by (rule hex_encode_lower)
  then have "run_matches env t" unfolding run_matches_def assms(3) using assms(1) by simp
  moreover have "\<not> interp_pinned (tl_integrity t)"
    by (simp add: interp_pinned_def assms(4) trim_space_def)
  moreover have "pin_state (tl_integrity t) ?h
      = ''PINNED TO A DIFFERENT VALUE '' @ em_dash @ '' read the script before pasting this''"
    unfolding pin_state_def assms(3) using pinned d by (simp only: if_True if_False simp_thms)
  ultimately show ?thesis unfolding verify_integrity_None by blast
qed

lemma padded_pin_reported_as_different_witness:
  "verify_integrity (one_file_env ''/t/run'' ''first'')
      ((sample_tool ''/t/run'')\<lparr>tl_integrity :=
         \<lparr>run_sha256 = '' '' @ hex_encode [5], interpreter_sha256 = []\<rparr>\<rparr>) = None
    \<and> pin_state \<lparr>run_sha256 = '' '' @ hex_encode [5], interpreter_sha256 = []\<rparr> (hex_encode [5])
      = ''PINNED TO A DIFFERENT VALUE '' @ em_dash @ '' read the script before pasting this''"
  using padded_pin_reported_as_different[of "one_file_env ''/t/run'' ''first''"
      "(sample_tool ''/t/run'')\<lparr>tl_integrity :=
         \<lparr>run_sha256 = '' '' @ hex_encode [5], interpreter_sha256 = []\<rparr>\<rparr>" "''first''"]
  by (simp add: one_file_env_def sample_tool_def)

end
