(* ===== verification/Tool_Loading.thy ===== *)
theory Tool_Loading
  imports Integrity
begin

text \<open>
  Loading the tool folders, \<^verbatim>\<open>LoadTools\<close> and its helpers in \<^verbatim>\<open>cmd/agent-desk/tools.go\<close>.
  YAML decoding is a function from the bytes of \<^verbatim>\<open>tcs.yaml\<close> to the contract (\<open>None\<close> is an
  error); the listing of the tools directory and the working directory are arguments. What
  the code logs is returned as a list of events.
\<close>

subsection \<open>Operations\<close>

datatype load_event =
    NoToolsDir string
  | BypassWarning string "9 word"
  | BadContract string
  | NoRunScript string
  | IntegrityRefused string integrity_error
  | DuplicateName string string

datatype dir_listing = DirMissing | DirUnreadable | DirEntries "(string \<times> bool) list"

datatype load_error = AbsFailed string | ReadDirFailed string

definition warn_if_bypassable :: "string \<Rightarrow> fileinfo \<Rightarrow> load_event list" where
  "warn_if_bypassable path fi =
     (if fi_perm fi AND bypass_bits \<noteq> 0 then [BypassWarning path (fi_perm fi)] else [])"

fun first_run_script :: "os_env \<Rightarrow> string \<Rightarrow> string list \<Rightarrow> (string \<times> load_event list) option" where
  "first_run_script env dir [] = None"
| "first_run_script env dir (cand # cands) =
     (let p = join_path [dir, cand] in
      case os_stat env p of
        Some fi \<Rightarrow>
          if fi_kind fi \<noteq> KDir \<and> fi_perm fi AND exec_bits \<noteq> 0
          then Some (p, warn_if_bypassable p fi)
          else first_run_script env dir cands
      | None \<Rightarrow> first_run_script env dir cands)"

definition run_candidates :: "string list" where
  "run_candidates = [''run.sh'', ''run.py'', ''run'']"

definition resolve_run_script :: "os_env \<Rightarrow> string \<Rightarrow> (string \<times> load_event list) option" where
  "resolve_run_script env dir = first_run_script env dir run_candidates"

definition load_folder ::
    "os_env \<Rightarrow> (string \<Rightarrow> tool option) \<Rightarrow> string \<Rightarrow> string \<Rightarrow> tool option \<times> load_event list" where
  "load_folder env yaml base name =
     (let tdir = join_path [base, name] in
      case os_read env (join_path [tdir, ''tcs.yaml'']) of
        None \<Rightarrow> (None, [])
      | Some raw \<Rightarrow>
          (case yaml raw of
             None \<Rightarrow> (None, [BadContract name])
           | Some t0 \<Rightarrow>
               let t1 = t0\<lparr>tl_dir := tdir, tl_raw := raw\<rparr>;
                   t2 = (if tl_name t1 = [] then t1\<lparr>tl_name := name\<rparr> else t1)
               in case resolve_run_script env tdir of
                    None \<Rightarrow> (None, [NoRunScript name])
                  | Some (run, warns) \<Rightarrow>
                      let t = t2\<lparr>tl_run_path := run\<rparr>
                      in case verify_integrity env t of
                           Some e \<Rightarrow> (None, warns @ [IntegrityRefused name e])
                         | None \<Rightarrow> (Some t, warns)))"

fun load_entries ::
    "os_env \<Rightarrow> (string \<Rightarrow> tool option) \<Rightarrow> string \<Rightarrow> (string \<times> bool) list
     \<Rightarrow> (string \<times> tool) list \<times> load_event list \<Rightarrow> (string \<times> tool) list \<times> load_event list" where
  "load_entries env yaml base [] (tools, evs) = (tools, evs)"
| "load_entries env yaml base ((name, is_dir) # es) (tools, evs) =
     (if \<not> is_dir then load_entries env yaml base es (tools, evs)
      else case load_folder env yaml base name of
             (None, ev) \<Rightarrow> load_entries env yaml base es (tools, evs @ ev)
           | (Some t, ev) \<Rightarrow>
               if tl_name t \<in> set (keys_of tools)
               then load_entries env yaml base es (tools, evs @ ev @ [DuplicateName name (tl_name t)])
               else load_entries env yaml base es (tools @ [(tl_name t, t)], evs @ ev))"

definition abs_path :: "string option \<Rightarrow> string \<Rightarrow> string option" where
  "abs_path cwd p =
     (if is_abs p then Some (clean p) else map_option (\<lambda>wd. join_path [wd, p]) cwd)"

definition load_tools ::
    "os_env \<Rightarrow> (string \<Rightarrow> tool option) \<Rightarrow> string option \<Rightarrow> (string \<Rightarrow> dir_listing) \<Rightarrow> string
     \<Rightarrow> (load_error, (string \<times> tool) list \<times> load_event list) result" where
  "load_tools env yaml cwd read_dir dir =
     (case abs_path cwd dir of
        None \<Rightarrow> Inl (AbsFailed dir)
      | Some base \<Rightarrow>
          (case read_dir base of
             DirMissing \<Rightarrow> Inr ([], [NoToolsDir dir])
           | DirUnreadable \<Rightarrow> Inl (ReadDirFailed dir)
           | DirEntries es \<Rightarrow> Inr (load_entries env yaml base es ([], []))))"

definition as_json :: "(string \<Rightarrow> schema option option) \<Rightarrow> tool \<Rightarrow> schema option option" where
  "as_json yaml_generic t = yaml_generic (tl_raw t)"

subsection \<open>Run scripts\<close>

lemma first_run_script_eq:
  "map_option fst (first_run_script env dir cands)
     = find (executable env) (map (\<lambda>c. join_path [dir, c]) cands)"
  by (induction cands) (auto simp: executable_def Let_def split: option.splits)

lemma first_run_script_Some:
  "first_run_script env dir cands = Some (p, w) \<Longrightarrow>
     executable env p \<and> (\<exists>c\<in>set cands. p = join_path [dir, c])"
  by (induction cands) (auto simp: executable_def Let_def split: option.splits if_splits)

lemma resolve_run_script_executable:
  "resolve_run_script env dir = Some (p, w) \<Longrightarrow> executable env p"
  unfolding resolve_run_script_def by (drule first_run_script_Some) blast

subsection \<open>Loading\<close>

text \<open>What a folder contributes, whatever the other folders hold.\<close>

definition accepted ::
    "os_env \<Rightarrow> (string \<Rightarrow> tool option) \<Rightarrow> string \<Rightarrow> string \<times> bool \<Rightarrow> tool option" where
  "accepted env yaml base e = (if snd e then fst (load_folder env yaml base (fst e)) else None)"

fun first_by_name :: "tool list \<Rightarrow> (string \<times> tool) list \<Rightarrow> (string \<times> tool) list" where
  "first_by_name [] acc = acc"
| "first_by_name (t # ts) acc =
     (if tl_name t \<in> set (keys_of acc) then first_by_name ts acc
      else first_by_name ts (acc @ [(tl_name t, t)]))"

lemma load_entries_reference:
  "fst (load_entries env yaml base es (tools, evs))
     = first_by_name (List.map_filter (accepted env yaml base) es) tools"
proof (induction es arbitrary: tools evs)
  case (Cons e es)
  then show ?case
    by (cases e) (simp add: accepted_def List.map_filter_simps split: prod.split option.split)
qed (simp add: List.map_filter_simps)

lemma first_by_name_map_of:
  "map_of (first_by_name ts acc) n
     = (case map_of acc n of Some t \<Rightarrow> Some t | None \<Rightarrow> find (\<lambda>t. tl_name t = n) ts)"
  by (induction ts arbitrary: acc)
     (auto simp: map_add_def dom_map_of_conv_image_fst[symmetric] domIff split: option.splits)

lemma first_by_name_keys:
  "\<forall>(n, t)\<in>set acc. n = tl_name t \<Longrightarrow> \<forall>(n, t)\<in>set (first_by_name ts acc). n = tl_name t"
proof (induction ts arbitrary: acc)
  case (Cons t ts)
  then have "\<forall>(n, t)\<in>set (acc @ [(tl_name t, t)]). n = tl_name t" by auto
  with Cons show ?case by (simp del: set_append)
qed simp

lemma first_by_name_distinct:
  "distinct (keys_of acc) \<Longrightarrow> distinct (keys_of (first_by_name ts acc))"
  by (induction ts arbitrary: acc) auto

lemma load_folder_Some:
  assumes "fst (load_folder env yaml base name) = Some t"
  shows "executable env (tl_run_path t) \<and> verify_integrity env t = None \<and> tl_dir t = join_path [base, name]
    \<and> os_read env (join_path [tl_dir t, ''tcs.yaml'']) = Some (tl_raw t)"
  using assms resolve_run_script_executable
  by (auto simp: load_folder_def Let_def split: option.splits prod.splits if_splits)

lemma loaded_map_of:
  assumes "load_tools env yaml cwd read_dir dir = Inr (tools, evs)" "abs_path cwd dir = Some base"
    "read_dir base = DirEntries es"
  shows "tools = first_by_name (List.map_filter (accepted env yaml base) es) []"
  using assms load_entries_reference[of env yaml base es "[]" "[]"] by (simp add: load_tools_def)

text \<open>
  Loading equals its reference: the desk's table of tools is exactly the accepted folders
  in listing order, the first folder of each tool name winning; no name is listed twice and
  every entry stands under the tool's own name. A lookup finds the first accepted folder's
  tool of that name, and nothing else.
\<close>

theorem load_tools_first_wins:
  assumes "load_tools env yaml cwd read_dir dir = Inr (tools, evs)" "abs_path cwd dir = Some base"
    "read_dir base = DirEntries es"
  shows "map_of tools n
      = find (\<lambda>t. tl_name t = n)
          (List.map_filter
            (\<lambda>(name, is_dir). if is_dir then fst (load_folder env yaml base name) else None) es)
    \<and> distinct (keys_of tools) \<and> (\<forall>(n, t)\<in>set tools. n = tl_name t)"
proof -
  have a: "accepted env yaml base
      = (\<lambda>(name, is_dir). if is_dir then fst (load_folder env yaml base name) else None)"
    by (auto simp: accepted_def fun_eq_iff)
  show ?thesis
    unfolding loaded_map_of[OF assms] a[symmetric]
    using first_by_name_distinct[of "[]"] first_by_name_keys[of "[]"]
    by (simp add: first_by_name_map_of)
qed

text \<open>
  One broken folder never hides another: dropping from the listing a folder that fails to
  load (bad contract, no executable run script, a failed pin) leaves the table unchanged.
\<close>

theorem load_tools_skips_only_the_broken:
  assumes "fst (load_folder env yaml base bad) = None"
  shows "fst (load_entries env yaml base (es @ (bad, True) # fs) ([], evs))
       = fst (load_entries env yaml base (es @ fs) ([], evs))"
  using assms by (simp add: load_entries_reference List.map_filter_def accepted_def)

text \<open>
  C26: Every tool in the table can be stood behind: its run script is an executable file, its
  pins hold on disk, its folder lies directly in the tools directory, and the contract text
  served for it is the folder's \<^verbatim>\<open>tcs.yaml\<close>.
\<close>

theorem load_tools_vetted:
  assumes "load_tools env yaml cwd read_dir dir = Inr (tools, evs)" "abs_path cwd dir = Some base"
    "read_dir base = DirEntries es" "map_of tools n = Some t"
  shows "executable env (tl_run_path t) \<and> verify_integrity env t = None
    \<and> (\<exists>name. (name, True) \<in> set es \<and> tl_dir t = join_path [base, name])
    \<and> os_read env (join_path [tl_dir t, ''tcs.yaml'']) = Some (tl_raw t)"
proof -
  have "find (\<lambda>t. tl_name t = n) (List.map_filter (accepted env yaml base) es) = Some t"
    using assms(4) unfolding loaded_map_of[OF assms(1-3)] by (simp add: first_by_name_map_of)
  then have "t \<in> set (List.map_filter (accepted env yaml base) es)"
    by (auto simp: find_Some_iff)
  then obtain name where "(name, True) \<in> set es" "fst (load_folder env yaml base name) = Some t"
    by (auto simp: List.map_filter_def accepted_def split: if_splits)
  with load_folder_Some[of env yaml base name t] show ?thesis by blast
qed

subsection \<open>Applications\<close>

text \<open>A file system on which every path is an executable file with the same text.\<close>

definition uniform_env :: "string \<Rightarrow> os_env" where
  "uniform_env text =
     \<lparr>os_stat = (\<lambda>p. Some \<lparr>fi_kind = KRegular, fi_perm = 448, fi_size = length text\<rparr>),
      os_lstat = (\<lambda>p. Some \<lparr>fi_kind = KRegular, fi_perm = 448, fi_size = length text\<rparr>),
      os_read = (\<lambda>p. Some text),
      os_sha256 = (\<lambda>s. [of_nat (length s)])\<rparr>"

definition uniform_tool :: "string \<Rightarrow> string \<Rightarrow> tool" where
  "uniform_tool base name =
     (sample_tool (join_path [join_path [base, name], ''run.sh'']))\<lparr>tl_dir := join_path [base, name],
        tl_raw := ''name: greet''\<rparr>"

lemma uniform_load_folder:
  "load_folder (uniform_env ''name: greet'') (\<lambda>raw. Some (sample_tool [])) base name
     = (Some (uniform_tool base name), [])"
  by (simp add: load_folder_def resolve_run_script_def run_candidates_def uniform_env_def Let_def
      sample_tool_def verify_integrity_def verify_run_def verify_interpreter_def run_pinned_def
      interp_pinned_def warn_if_bypassable_def exec_bits_def bypass_bits_def uniform_tool_def)

lemma uniform_load_tools:
  "load_tools (uniform_env ''name: greet'') (\<lambda>raw. Some (sample_tool [])) None
      (\<lambda>dir. DirEntries [(''notes'', False), (''greet'', True), (''greet-copy'', True)]) ''/tools''
     = Inr ([(''greet'', uniform_tool (clean ''/tools'') ''greet'')],
            [DuplicateName ''greet-copy'' ''greet''])"
  by (simp add: load_tools_def abs_path_def is_abs_def has_prefix_def uniform_load_folder)
     (simp add: uniform_tool_def sample_tool_def)

lemma load_tools_first_wins_witness:
  "map_of [(''greet'', uniform_tool (clean ''/tools'') ''greet'')] ''greet''
     = Some (uniform_tool (clean ''/tools'') ''greet'')
   \<and> distinct (keys_of [(''greet'', uniform_tool (clean ''/tools'') ''greet'')])"
  using load_tools_first_wins[OF uniform_load_tools, of "clean ''/tools''"
      "[(''notes'', False), (''greet'', True), (''greet-copy'', True)]" "''greet''"]
  by (simp add: abs_path_def is_abs_def has_prefix_def)

lemma load_tools_skips_only_the_broken_witness:
  "fst (load_entries (uniform_env ''x'') (\<lambda>raw. None) ''/tools'' ([(''a'', True)] @ (''b'', True) # []) ([], []))
     = fst (load_entries (uniform_env ''x'') (\<lambda>raw. None) ''/tools'' ([(''a'', True)] @ []) ([], []))"
  using load_tools_skips_only_the_broken[of "uniform_env ''x''" "\<lambda>raw. None" "''/tools''" "''b''"]
  by (simp only: load_folder_def uniform_env_def Let_def os_env.simps option.case fst_conv)

lemma load_tools_vetted_witness:
  "executable (uniform_env ''name: greet'')
      (tl_run_path (uniform_tool (clean ''/tools'') ''greet''))
   \<and> verify_integrity (uniform_env ''name: greet'') (uniform_tool (clean ''/tools'') ''greet'') = None"
  using load_tools_vetted[OF uniform_load_tools, of "clean ''/tools''"
      "[(''notes'', False), (''greet'', True), (''greet-copy'', True)]" "''greet''"
      "uniform_tool (clean ''/tools'') ''greet''"]
  by (simp add: abs_path_def is_abs_def has_prefix_def)

end
