(* ===== verification/Timestamps.thy ===== *)
theory Timestamps
  imports Go_Paths "HOL-Library.Sublist"
begin

text \<open>
  Instants and their text form. A \<^verbatim>\<open>time.Time\<close> in UTC is its calendar fields; instants are
  ordered field by field, from the year down to the nanosecond. The SQLite store keeps every
  instant as text in the layout \<^verbatim>\<open>time.RFC3339Nano\<close>, which drops trailing zeros of the
  fraction of a second, and SQLite orders such a column by comparing bytes.
\<close>

subsection \<open>Instants\<close>

datatype gtime = GTime (t_year: nat) (t_mon: nat) (t_day: nat) (t_hour: nat) (t_min: nat)
  (t_sec: nat) (t_nsec: nat)

definition time_key :: "gtime \<Rightarrow> nat list" where
  "time_key t = [t_year t, t_mon t, t_day t, t_hour t, t_min t, t_sec t, t_nsec t]"

lemma time_key_inject: "time_key t = time_key u \<longleftrightarrow> t = u"
  by (cases t; cases u) (simp add: time_key_def)

instantiation gtime :: linorder
begin

definition less_eq_gtime :: "gtime \<Rightarrow> gtime \<Rightarrow> bool" where
  "less_eq_gtime t u \<longleftrightarrow> time_key t \<le> time_key u"

definition less_gtime :: "gtime \<Rightarrow> gtime \<Rightarrow> bool" where
  "less_gtime t u \<longleftrightarrow> time_key t < time_key u"

instance
proof
  fix x y z :: gtime
  show "(x < y) = (x \<le> y \<and> \<not> y \<le> x)"
    by (auto simp: less_eq_gtime_def less_gtime_def)
  show "x \<le> x" by (simp add: less_eq_gtime_def)
  show "x \<le> y \<Longrightarrow> y \<le> z \<Longrightarrow> x \<le> z" by (simp add: less_eq_gtime_def)
  show "x \<le> y \<Longrightarrow> y \<le> x \<Longrightarrow> x = y"
    by (simp add: less_eq_gtime_def time_key_inject[symmetric])
  show "x \<le> y \<or> y \<le> x" by (auto simp: less_eq_gtime_def)
qed

end

definition leap_year :: "nat \<Rightarrow> bool" where
  "leap_year y \<longleftrightarrow> 4 dvd y \<and> (\<not> 100 dvd y \<or> 400 dvd y)"

definition days_in :: "nat \<Rightarrow> nat \<Rightarrow> nat" where
  "days_in y m =
     (if m = 2 then (if leap_year y then 29 else 28)
      else if m \<in> {4, 6, 9, 11} then 30 else 31)"

definition valid_time :: "gtime \<Rightarrow> bool" where
  "valid_time t \<longleftrightarrow>
     t_year t < 10000 \<and> 1 \<le> t_mon t \<and> t_mon t \<le> 12
   \<and> 1 \<le> t_day t \<and> t_day t \<le> days_in (t_year t) (t_mon t)
   \<and> t_hour t < 24 \<and> t_min t < 60 \<and> t_sec t < 60 \<and> t_nsec t < 10 ^ 9"

subsection \<open>Fixed-width decimals\<close>

fun dec :: "nat \<Rightarrow> nat \<Rightarrow> string" where
  "dec 0 n = []"
| "dec (Suc w) n = dec w (n div 10) @ [digit_char (n mod 10)]"

lemma dec_length [simp]: "length (dec w n) = w"
  by (induction w arbitrary: n) auto

lemma dec_digits [simp]: "list_all is_digit (dec w n)"
  by (induction w arbitrary: n) auto

lemma dec_value: "n < 10 ^ w \<Longrightarrow> digits_nat (dec w n) = n"
proof (induction w arbitrary: n)
  case 0
  then show ?case by (simp add: digits_nat_def)
next
  case (Suc w)
  then have "n div 10 < 10 ^ w" by auto
  with Suc.IH show ?case by (simp add: digits_nat_snoc)
qed

lemma dec_inject: "m < 10 ^ w \<Longrightarrow> n < 10 ^ w \<Longrightarrow> dec w m = dec w n \<longleftrightarrow> m = n"
  by (metis dec_value)

subsection \<open>The layout\<close>

definition strip_zeros :: "string \<Rightarrow> string" where
  "strip_zeros s = trim_right_by (\<lambda>c. c = CHR ''0'') s"

definition fmt_frac :: "nat \<Rightarrow> string" where
  "fmt_frac ns = (let ds = strip_zeros (dec 9 ns) in if ds = [] then [] else ''.'' @ ds)"

definition fmt_seconds :: "gtime \<Rightarrow> string" where
  "fmt_seconds t =
     dec 4 (t_year t) @ ''-'' @ dec 2 (t_mon t) @ ''-'' @ dec 2 (t_day t) @ ''T''
     @ dec 2 (t_hour t) @ '':'' @ dec 2 (t_min t) @ '':'' @ dec 2 (t_sec t)"

definition fmt_time :: "gtime \<Rightarrow> string" where
  "fmt_time t = fmt_seconds t @ fmt_frac (t_nsec t) @ ''Z''"

text \<open>
  \<^verbatim>\<open>time.Parse\<close> on a text of this layout in UTC: fields of fixed width with their ranges, an
  optional fraction of one to nine digits, and the letter Z.
\<close>

definition take_num :: "nat \<Rightarrow> string \<Rightarrow> (nat \<times> string) option" where
  "take_num w s =
     (if length (take w s) = w \<and> list_all is_digit (take w s)
      then Some (digits_nat (take w s), drop w s) else None)"

fun expect :: "char \<Rightarrow> string \<Rightarrow> string option" where
  "expect c [] = None"
| "expect c (d # ds) = (if c = d then Some ds else None)"

definition parse_frac :: "string \<Rightarrow> (nat \<times> string) option" where
  "parse_frac s =
     (case s of
        c # cs \<Rightarrow>
          if c = CHR ''.'' then
            (let ds = takeWhile is_digit cs in
             if ds = [] \<or> 9 < length ds then None
             else Some (digits_nat ds * 10 ^ (9 - length ds), drop (length ds) cs))
          else Some (0, s)
      | [] \<Rightarrow> Some (0, s))"

definition parse_time :: "string \<Rightarrow> gtime option" where
  "parse_time s =
     Option.bind (take_num 4 s) (\<lambda>(y, s). Option.bind (expect (CHR ''-'') s) (\<lambda>s.
     Option.bind (take_num 2 s) (\<lambda>(mo, s). Option.bind (expect (CHR ''-'') s) (\<lambda>s.
     Option.bind (take_num 2 s) (\<lambda>(d, s). Option.bind (expect (CHR ''T'') s) (\<lambda>s.
     Option.bind (take_num 2 s) (\<lambda>(h, s). Option.bind (expect (CHR '':'') s) (\<lambda>s.
     Option.bind (take_num 2 s) (\<lambda>(mi, s). Option.bind (expect (CHR '':'') s) (\<lambda>s.
     Option.bind (take_num 2 s) (\<lambda>(sec, s). Option.bind (parse_frac s) (\<lambda>(ns, s).
     let t = GTime y mo d h mi sec ns in
     if s = ''Z'' \<and> valid_time t then Some t else None))))))))))))"

subsection \<open>Round trip\<close>

lemma take_num_dec [simp]: "n < 10 ^ w \<Longrightarrow> take_num w (dec w n @ s) = Some (n, s)"
  by (simp add: take_num_def dec_value)

lemma strip_zeros_decomp: "\<exists>k. s = strip_zeros s @ replicate k (CHR ''0'')"
proof -
  have "\<exists>k. r = replicate k (CHR ''0'') @ dropWhile (\<lambda>c. c = CHR ''0'') r" for r
    by (metis (full_types) replicate_length_same set_takeWhileD takeWhile_dropWhile_id)
  then obtain k where "rev s = replicate k (CHR ''0'') @ dropWhile (\<lambda>c. c = CHR ''0'') (rev s)"
    by blast
  then have "rev (rev s) = rev (dropWhile (\<lambda>c. c = CHR ''0'') (rev s)) @ rev (replicate k (CHR ''0''))"
    by (metis rev_append)
  then show ?thesis by (auto simp: strip_zeros_def trim_right_by_def)
qed

lemma digits_nat_zeros: "digits_nat (ds @ replicate k (CHR ''0'')) = digits_nat ds * 10 ^ k"
proof (induction k)
  case (Suc k)
  have "ds @ replicate (Suc k) (CHR ''0'') = (ds @ replicate k (CHR ''0'')) @ [CHR ''0'']"
    by (simp add: replicate_append_same)
  with Suc show ?case by (simp only: digits_nat_snoc) (simp add: digit_val_def)
qed simp

lemma takeWhile_digits: "list_all is_digit ds \<Longrightarrow> takeWhile is_digit (ds @ ''Z'') = ds"
  by (simp add: takeWhile_append2 list_all_iff is_digit_def)

lemma parse_frac_fmt:
  assumes "ns < 10 ^ 9"
  shows "parse_frac (fmt_frac ns @ ''Z'') = Some (ns, ''Z'')"
proof -
  let ?ds = "strip_zeros (dec 9 ns)"
  obtain k where k: "dec 9 ns = ?ds @ replicate k (CHR ''0'')" using strip_zeros_decomp by blast
  then have len: "9 = length ?ds + k" by (metis dec_length length_append length_replicate)
  have val: "digits_nat ?ds * 10 ^ k = ns"
    using k dec_value[OF assms] by (metis digits_nat_zeros)
  have "list_all is_digit (?ds @ replicate k (CHR ''0''))" using k dec_digits by metis
  then have dig: "list_all is_digit ?ds" by simp
  show ?thesis
  proof (cases "?ds = []")
    case True
    with val have "ns = 0" by (simp add: digits_nat_def)
    with True show ?thesis by (simp add: fmt_frac_def parse_frac_def)
  next
    case False
    have "9 - length ?ds = k" using len by simp
    with False len val dig takeWhile_digits[OF dig] show ?thesis
      by (simp add: fmt_frac_def parse_frac_def Let_def)
  qed
qed

lemma parse_fmt_time:
  assumes "valid_time t"
  shows "parse_time (fmt_time t) = Some t"
proof -
  have v: "t_year t < 10 ^ 4" "t_mon t < 10 ^ 2" "t_day t < 10 ^ 2" "t_hour t < 10 ^ 2"
    "t_min t < 10 ^ 2" "t_sec t < 10 ^ 2" "t_nsec t < 10 ^ 9"
    using assms by (auto simp: valid_time_def days_in_def split: if_splits)
  show ?thesis
    using assms
    by (simp only: parse_time_def fmt_time_def fmt_seconds_def append_assoc take_num_dec[OF v(1)]
          take_num_dec[OF v(2)] take_num_dec[OF v(3)] take_num_dec[OF v(4)] take_num_dec[OF v(5)]
          take_num_dec[OF v(6)] parse_frac_fmt[OF v(7)] append_Cons append_Nil expect.simps
          Option.bind.bind_lunit prod.case if_True simp_thms Let_def gtime.collapse)
qed

subsection \<open>Chronological order and text order\<close>

lemma lex_append_same: "(xs @ a < xs @ b) = (a < b)" for a b :: "'a::linorder list"
  by (induction xs) auto

lemma lex_append_len:
  "length xs = length ys \<Longrightarrow> (xs @ a < ys @ b) = (xs < ys \<or> xs = ys \<and> a < b)"
  for a b :: "'a::linorder list"
  by (induction xs ys rule: list_induct2) auto

lemma digit_char_code: "d < 10 \<Longrightarrow> of_char (digit_char d) = (48 + d :: nat)"
  by (simp add: digit_char_def)

lemma digit_char_mono: "m < 10 \<Longrightarrow> n < 10 \<Longrightarrow> digit_char m < digit_char n \<longleftrightarrow> m < n"
  unfolding less_char_def by (simp only: digit_char_code) simp

lemma digit_less: "m div 10 < n div 10 \<or> m div 10 = n div 10 \<and> m mod 10 < n mod 10 \<longleftrightarrow> m < n"
  for m n :: nat
  by (metis div_le_mono div_mult_mod_eq linorder_not_less nat_add_left_cancel_less nat_less_le)

lemma dec_mono: "m < 10 ^ w \<Longrightarrow> n < 10 ^ w \<Longrightarrow> dec w m < dec w n \<longleftrightarrow> m < n"
proof (induction w arbitrary: m n)
  case (Suc w)
  then have b: "m div 10 < 10 ^ w" "n div 10 < 10 ^ w" by auto
  have d: "[digit_char (m mod 10)] < [digit_char (n mod 10)] \<longleftrightarrow> m mod 10 < n mod 10"
    by (simp add: digit_char_mono)
  have "dec (Suc w) m < dec (Suc w) n \<longleftrightarrow>
      m div 10 < n div 10 \<or> m div 10 = n div 10 \<and> m mod 10 < n mod 10"
    by (simp only: dec.simps lex_append_len dec_length Suc.IH[OF b] dec_inject[OF b] d)
  also have "\<dots> \<longleftrightarrow> m < n" by (rule digit_less)
  finally show ?case .
qed simp

lemma less_Cons_ne: "c \<noteq> d \<Longrightarrow> (c # xs < d # ys) = (c < d)" for c d :: "'a::linorder"
  by auto

lemma dec_less_or_eq:
  "m < 10 ^ w \<Longrightarrow> n < 10 ^ w \<Longrightarrow>
    (dec w m @ a < dec w n @ b) = (m < n \<or> m = n \<and> a < b)"
  by (simp only: lex_append_len dec_length dec_mono dec_inject)

lemma fmt_seconds_less:
  assumes "valid_time t" "valid_time u"
  shows "(fmt_seconds t @ a < fmt_seconds u @ b) =
    ([t_year t, t_mon t, t_day t, t_hour t, t_min t, t_sec t]
      < [t_year u, t_mon u, t_day u, t_hour u, t_min u, t_sec u]
     \<or> [t_year t, t_mon t, t_day t, t_hour t, t_min t, t_sec t]
      = [t_year u, t_mon u, t_day u, t_hour u, t_min u, t_sec u] \<and> a < b)"
proof -
  have v: "t_year t < 10 ^ 4" "t_mon t < 10 ^ 2" "t_day t < 10 ^ 2" "t_hour t < 10 ^ 2"
    "t_min t < 10 ^ 2" "t_sec t < 10 ^ 2"
    using assms(1) by (auto simp: valid_time_def days_in_def split: if_splits)
  have w: "t_year u < 10 ^ 4" "t_mon u < 10 ^ 2" "t_day u < 10 ^ 2" "t_hour u < 10 ^ 2"
    "t_min u < 10 ^ 2" "t_sec u < 10 ^ 2"
    using assms(2) by (auto simp: valid_time_def days_in_def split: if_splits)
  have sep: "(''-'' @ p < ''-'' @ q) = (p < q)" "(''T'' @ p < ''T'' @ q) = (p < q)"
    "('':'' @ p < '':'' @ q) = (p < q)" for p q :: string
    by (simp_all add: lex_append_same)
  show ?thesis
    unfolding fmt_seconds_def append_assoc
    by (simp only: dec_less_or_eq[OF v(1) w(1)] dec_less_or_eq[OF v(2) w(2)]
        dec_less_or_eq[OF v(3) w(3)] dec_less_or_eq[OF v(4) w(4)] dec_less_or_eq[OF v(5) w(5)]
        dec_less_or_eq[OF v(6) w(6)] sep Cons_less_Cons list.inject simp_thms not_less_Nil) blast
qed

text \<open>The stripped fractions.\<close>

definition frac_digits :: "gtime \<Rightarrow> string" where
  "frac_digits t = strip_zeros (dec 9 (t_nsec t))"

lemma strip_last: "strip_zeros s = ds @ [c] \<Longrightarrow> c \<noteq> CHR ''0''"
proof -
  let ?P = "\<lambda>c :: char. c = CHR ''0''"
  assume "strip_zeros s = ds @ [c]"
  then have "rev (strip_zeros s) = c # rev ds" by simp
  then have e: "dropWhile ?P (rev s) = c # rev ds"
    by (simp only: strip_zeros_def trim_right_by_def rev_rev_ident)
  then have "dropWhile ?P (rev s) \<noteq> []" by simp
  from hd_dropWhile[OF this] have "\<not> ?P (hd (dropWhile ?P (rev s)))" .
  then show ?thesis unfolding e by simp
qed

lemma diverge_less:
  fixes p q :: "'a::linorder list"
  assumes "\<not> prefix p q" "\<not> prefix q p"
  shows "(p @ a < q @ b) = (p < q)"
  using assms by (induction p q rule: list_induct2') (auto simp: prefix_def)


lemma frac_digits_decomp: "\<exists>k. dec 9 (t_nsec t) = frac_digits t @ replicate k (CHR ''0'')"
  unfolding frac_digits_def by (rule strip_zeros_decomp)

lemma frac_digits_digits: "list_all is_digit (frac_digits t)"
proof -
  obtain k where "dec 9 (t_nsec t) = frac_digits t @ replicate k (CHR ''0'')"
    using frac_digits_decomp by blast
  from dec_digits[of 9 "t_nsec t", unfolded this]
  show ?thesis by simp
qed

lemma fmt_frac_digits:
  "fmt_frac (t_nsec t) = (if frac_digits t = [] then [] else ''.'' @ frac_digits t)"
  by (simp add: fmt_frac_def frac_digits_def Let_def)

lemma zero_least: "is_digit c \<Longrightarrow> \<not> c < CHR ''0''"
  unfolding less_char_def is_digit_def by simp

lemma frac_prefix_le:
  assumes "prefix (frac_digits u) (frac_digits t)" "t_nsec t < 10 ^ 9" "t_nsec u < 10 ^ 9"
  shows "\<not> t_nsec t < t_nsec u"
proof -
  obtain k where k: "dec 9 (t_nsec t) = frac_digits t @ replicate k (CHR ''0'')"
    using frac_digits_decomp by blast
  obtain l where l: "dec 9 (t_nsec u) = frac_digits u @ replicate l (CHR ''0'')"
    using frac_digits_decomp by blast
  obtain r where r: "frac_digits t = frac_digits u @ r" using assms(1) by (auto simp: prefix_def)
  have len: "length (r @ replicate k (CHR ''0'')) = l"
    using arg_cong[OF k, of length] arg_cong[OF l, of length] arg_cong[OF r, of length] by simp
  have low: "\<not> s < replicate (length s) (CHR ''0'')" if "list_all is_digit s" for s
    using that
  proof (induction s)
    case (Cons c s)
    then have "\<not> c < CHR ''0''" by (simp add: zero_least)
    with Cons show ?case by simp
  qed simp
  have "list_all is_digit (r @ replicate k (CHR ''0''))"
    using dec_digits[of 9 "t_nsec t"] unfolding k r by simp
  from low[OF this] have "\<not> dec 9 (t_nsec t) < dec 9 (t_nsec u)"
    unfolding k l r by (simp only: append_assoc lex_append_same len not_False_eq_True)
  with dec_mono[OF assms(2,3)] show ?thesis by simp
qed

lemma digit_before_Z: "is_digit c \<Longrightarrow> c < CHR ''Z''"
  unfolding less_char_def is_digit_def by simp

lemma dot_before_Z: "CHR ''.'' < CHR ''Z''"
  by (simp add: less_char_def)

lemma frac_less_iff:
  assumes lt: "t_nsec t < t_nsec u" and b: "t_nsec t < 10 ^ 9" "t_nsec u < 10 ^ 9"
  shows "(fmt_frac (t_nsec t) @ ''Z'' < fmt_frac (t_nsec u) @ ''Z'') =
    (\<not> prefix (frac_digits t) (frac_digits u))"
proof -
  have np: "\<not> prefix (frac_digits u) (frac_digits t)" using frac_prefix_le b lt by blast
  then have une: "frac_digits u \<noteq> []" by auto
  show ?thesis
  proof (cases "prefix (frac_digits t) (frac_digits u)")
    case True
    then obtain r where r: "frac_digits u = frac_digits t @ r" by (auto simp: prefix_def)
    with np obtain c cs where c: "r = c # cs" by (cases r) auto
    have "is_digit c" using frac_digits_digits[of u] r c by simp
    then have cz: "\<not> CHR ''Z'' < c" "CHR ''Z'' \<noteq> c" using digit_before_Z[of c] by auto
    have "\<not> fmt_frac (t_nsec t) @ ''Z'' < fmt_frac (t_nsec u) @ ''Z''"
    proof (cases "frac_digits t = []")
      case True
      with une dot_before_Z show ?thesis by (auto simp: fmt_frac_digits)
    next
      case False
      with une have "(fmt_frac (t_nsec t) @ ''Z'' < fmt_frac (t_nsec u) @ ''Z'')
          = (frac_digits t @ ''Z'' < frac_digits u @ ''Z'')"
        by (simp add: fmt_frac_digits)
      also have "\<dots> = (''Z'' < (c # cs) @ ''Z'')" unfolding r c append_assoc by (rule lex_append_same)
      finally show ?thesis using cz by simp
    qed
    with True show ?thesis by simp
  next
    case False
    obtain k where k: "dec 9 (t_nsec t) = frac_digits t @ replicate k (CHR ''0'')"
      using frac_digits_decomp by blast
    obtain l where l: "dec 9 (t_nsec u) = frac_digits u @ replicate l (CHR ''0'')"
      using frac_digits_decomp by blast
    have "frac_digits t \<noteq> []" using False by auto
    with une have "(fmt_frac (t_nsec t) @ ''Z'' < fmt_frac (t_nsec u) @ ''Z'')
        = (frac_digits t @ ''Z'' < frac_digits u @ ''Z'')"
      by (simp add: fmt_frac_digits)
    also have "\<dots> = (frac_digits t < frac_digits u)" by (rule diverge_less[OF False np])
    also have "\<dots> = (dec 9 (t_nsec t) < dec 9 (t_nsec u))"
      unfolding k l by (rule diverge_less[OF False np, symmetric])
    also have "\<dots>" using lt dec_mono[OF b] by simp
    finally show ?thesis using False by simp
  qed
qed

definition same_second :: "gtime \<Rightarrow> gtime \<Rightarrow> bool" where
  "same_second t u \<longleftrightarrow>
     [t_year t, t_mon t, t_day t, t_hour t, t_min t, t_sec t]
     = [t_year u, t_mon u, t_day u, t_hour u, t_min u, t_sec u]"

lemma time_less_iff:
  "t < u \<longleftrightarrow> [t_year t, t_mon t, t_day t, t_hour t, t_min t, t_sec t]
      < [t_year u, t_mon u, t_day u, t_hour u, t_min u, t_sec u]
    \<or> same_second t u \<and> t_nsec t < t_nsec u"
proof -
  have k: "time_key v = [t_year v, t_mon v, t_day v, t_hour v, t_min v, t_sec v] @ [t_nsec v]" for v
    by (simp add: time_key_def)
  show ?thesis
    unfolding less_gtime_def k same_second_def by (subst lex_append_len) auto
qed

lemma fmt_time_order:
  assumes "valid_time t" "valid_time u" "t < u"
  shows "fmt_time t < fmt_time u \<longleftrightarrow>
    \<not> (same_second t u \<and> prefix (frac_digits t) (frac_digits u))"
proof -
  have b: "t_nsec t < 10 ^ 9" "t_nsec u < 10 ^ 9" using assms(1,2) by (auto simp: valid_time_def)
  show ?thesis
  proof (cases "same_second t u")
    case True
    then have "t_nsec t < t_nsec u" using assms(3) by (auto simp: time_less_iff same_second_def)
    with frac_less_iff[OF this b] True show ?thesis
      unfolding fmt_time_def append_assoc fmt_seconds_less[OF assms(1,2)]
      by (simp only: same_second_def[symmetric]) (auto simp: same_second_def)
  next
    case False
    with assms(3) show ?thesis
      unfolding fmt_time_def append_assoc fmt_seconds_less[OF assms(1,2)]
      by (simp add: time_less_iff)
  qed
qed

lemma fmt_time_inject:
  assumes "valid_time t" "valid_time u" "fmt_time t = fmt_time u"
  shows "t = u"
proof -
  have "Some t = parse_time (fmt_time u)"
    unfolding assms(3)[symmetric] by (rule parse_fmt_time[OF assms(1), symmetric])
  also have "\<dots> = Some u" by (rule parse_fmt_time[OF assms(2)])
  finally show ?thesis by (rule option.inject[THEN iffD1])
qed

lemma fmt_time_order_le:
  assumes "valid_time t" "valid_time u" "t < u"
  shows "fmt_time t \<le> fmt_time u \<longleftrightarrow>
    \<not> (same_second t u \<and> prefix (frac_digits t) (frac_digits u))"
proof -
  have "fmt_time t \<noteq> fmt_time u" using fmt_time_inject[OF assms(1,2)] assms(3) by blast
  with fmt_time_order[OF assms] show ?thesis by (simp only: order_le_less) blast
qed

lemma frac_digits_zero: "t_nsec t = 0 \<Longrightarrow> frac_digits t = []"
proof -
  have z: "digit_char 0 = CHR ''0''" by code_simp
  have "dec w 0 = replicate w (CHR ''0'')" for w
    by (induction w) (simp_all add: z replicate_append_same)
  then show "t_nsec t = 0 \<Longrightarrow> ?thesis" by (simp add: frac_digits_def strip_zeros_def trim_right_by_def)
qed

end
