(* ===== verification/Job.thy ===== *)
theory Job
  imports Go_Values Timestamps
begin

text \<open>
  Jobs (the type \<^verbatim>\<open>Job\<close> of \<^verbatim>\<open>cmd/agent-desk/queue.go\<close>) and the durable store behind them
  (the interface \<^verbatim>\<open>JobStore\<close> of \<^verbatim>\<open>store.go\<close>). The interface is a record of functions over a
  store state; its contract is the locale \<open>job_store\<close>, which the SQLite and PostgreSQL
  theories interpret on their models, and whose client lemmas are proved here once.
\<close>

subsection \<open>Jobs\<close>

datatype job_status = Queued | Running | Done | Failed | Canceled

definition is_terminal :: "job_status \<Rightarrow> bool" where
  "is_terminal s \<longleftrightarrow> s = Done \<or> s = Failed \<or> s = Canceled"

lemma is_terminal_simps [simp]:
  "\<not> is_terminal Queued" "\<not> is_terminal Running"
  "is_terminal Done" "is_terminal Failed" "is_terminal Canceled"
  by (simp_all add: is_terminal_def)

lemma not_terminal_iff: "\<not> is_terminal s \<longleftrightarrow> s = Queued \<or> s = Running"
  by (cases s) auto

text \<open>A \<^verbatim>\<open>map[string]any\<close> may be nil.\<close>

type_synonym gmap = "schema option"

record job =
  jb_id :: string
  jb_tool :: string
  jb_key :: string
  jb_batch :: string
  jb_input :: gmap
  jb_meta :: gmap
  jb_status :: job_status
  jb_attempt :: int
  jb_max_retries :: int
  jb_result :: gval
  jb_error :: string
  jb_created :: gtime
  jb_started :: "gtime option"
  jb_finished :: "gtime option"
  jb_acked :: bool
  jb_acked_at :: "gtime option"

subsection \<open>JSON\<close>

text \<open>
  The value that \<^verbatim>\<open>json.Marshal\<close> and then \<^verbatim>\<open>json.Unmarshal\<close> into \<^verbatim>\<open>any\<close> give: numbers become
  \<^verbatim>\<open>float64\<close>; infinities, NaN and values of other types do not marshal. The order of an
  object's keys is immaterial and is kept.
\<close>

fun json_value :: "gval \<Rightarrow> gval option"
  and json_values :: "gval list \<Rightarrow> gval list option"
  and json_fields :: "(string \<times> gval) list \<Rightarrow> (string \<times> gval) list option" where
  "json_value GNull = Some GNull"
| "json_value (GBool b) = Some (GBool b)"
| "json_value (GStr s) = Some (GStr s)"
| "json_value (GFloat (Fin r)) = Some (GFloat (Fin r))"
| "json_value (GFloat _) = None"
| "json_value (GInt n) = Some (GFloat (f64_of_int n))"
| "json_value (GNumber s f) = (case f of Some (Fin r) \<Rightarrow> Some (GFloat (Fin r)) | _ \<Rightarrow> None)"
| "json_value (GArr vs) = map_option GArr (json_values vs)"
| "json_value (GObj kvs) = map_option GObj (json_fields kvs)"
| "json_value (GOther n) = None"
| "json_values [] = Some []"
| "json_values (v # vs) =
     (case json_value v of None \<Rightarrow> None | Some w \<Rightarrow> map_option (\<lambda>ws. w # ws) (json_values vs))"
| "json_fields [] = Some []"
| "json_fields ((k, v) # kvs) =
     (case json_value v of None \<Rightarrow> None | Some w \<Rightarrow> map_option (\<lambda>ws. (k, w) # ws) (json_fields kvs))"

text \<open>A decoded JSON value is its own normal form.\<close>

lemma json_normal:
  "json_value v = Some w \<Longrightarrow> json_value w = Some w"
  "json_values vs = Some ws \<Longrightarrow> json_values ws = Some ws"
  "json_fields kvs = Some kws \<Longrightarrow> json_fields kws = Some kws"
  by (induction v and vs and kvs arbitrary: w and ws and kws
      rule: json_value_json_values_json_fields.induct)
     (auto simp: f64_of_int_def split: option.splits gfloat.splits)

definition map_value :: "gmap \<Rightarrow> gval" where
  "map_value m = (case m of None \<Rightarrow> GNull | Some kvs \<Rightarrow> GObj kvs)"

text \<open>\<^verbatim>\<open>json.Unmarshal\<close> into a \<^verbatim>\<open>map[string]any\<close>: null leaves the map nil.\<close>

fun value_map :: "gval \<Rightarrow> gmap option" where
  "value_map GNull = Some None"
| "value_map (GObj kvs) = Some (Some kvs)"
| "value_map _ = None"

lemma value_map_value [simp]: "value_map (map_value m) = Some m"
  by (cases m) (simp_all add: map_value_def)

definition is_json :: "gval \<Rightarrow> bool" where
  "is_json v \<longleftrightarrow> json_value v = Some v"

text \<open>The column values of \<^verbatim>\<open>nullableString\<close> and \<^verbatim>\<open>marshalNullable\<close>; \<open>None\<close> inside is SQL NULL.\<close>

definition nullable_string :: "string \<Rightarrow> string option" where
  "nullable_string s = (if s = [] then None else Some s)"

definition marshal_nullable :: "gval \<Rightarrow> gval option option" where
  "marshal_nullable v = (if v = GNull then Some None else map_option Some (json_value v))"

definition null_string :: "string option \<Rightarrow> string" where
  "null_string s = (case s of None \<Rightarrow> [] | Some t \<Rightarrow> t)"

lemma null_nullable [simp]: "null_string (nullable_string s) = s"
  by (simp add: null_string_def nullable_string_def)

subsection \<open>The store interface\<close>

datatype store_error =
    DbError
  | MarshalError string
  | ScanError string

text \<open>
  A database call is outside the repository. Its outcome is drawn from the state: it
  succeeds, fails without effect, or takes effect while the caller sees an error (a
  connection or a context lost before the reply).
\<close>

datatype db_outcome = DbOk | DbFail | DbLost

type_synonym db_net = "db_outcome list"

definition draw :: "db_net \<Rightarrow> db_outcome \<times> db_net" where
  "draw net = (case net of [] \<Rightarrow> (DbOk, []) | d # ds \<Rightarrow> (d, ds))"

record 's store_ops =
  so_insert :: "'s \<Rightarrow> job \<Rightarrow> string \<Rightarrow> (store_error, job \<times> bool) result \<times> 's"
  so_update :: "'s \<Rightarrow> job \<Rightarrow> (store_error, unit) result \<times> 's"
  so_ack :: "'s \<Rightarrow> string \<Rightarrow> gtime \<Rightarrow> (store_error, unit) result \<times> 's"
  so_get :: "'s \<Rightarrow> string \<Rightarrow> (store_error, job option) result \<times> 's"
  so_load_incomplete :: "'s \<Rightarrow> (store_error, job list) result \<times> 's"
  so_list_unacked :: "'s \<Rightarrow> int \<Rightarrow> (store_error, job list) result \<times> 's"
  so_list_by_batch :: "'s \<Rightarrow> string \<Rightarrow> (store_error, job list) result \<times> 's"

text \<open>
  What the stored jobs look like to a reader: \<open>None\<close> for an unknown id. A lifecycle write
  replaces status, attempt, result, error, start and finish of an existing job; an
  acknowledgment replaces the acknowledgment only.
\<close>

type_synonym job_view = "string \<Rightarrow> job option"

definition set_lifecycle :: "job \<Rightarrow> job \<Rightarrow> job" where
  "set_lifecycle j r =
     r\<lparr>jb_status := jb_status j, jb_attempt := jb_attempt j, jb_result := jb_result j,
       jb_error := jb_error j, jb_started := jb_started j, jb_finished := jb_finished j\<rparr>"

definition set_ack :: "gtime \<Rightarrow> job \<Rightarrow> job" where
  "set_ack tm r = r\<lparr>jb_acked := True, jb_acked_at := Some tm\<rparr>"

definition view_update :: "job_view \<Rightarrow> job \<Rightarrow> job_view" where
  "view_update v j = v(jb_id j := map_option (set_lifecycle j) (v (jb_id j)))"

definition view_ack :: "job_view \<Rightarrow> string \<Rightarrow> gtime \<Rightarrow> job_view" where
  "view_ack v i tm = v(i := map_option (set_ack tm) (v i))"

text \<open>The constraints of the table: the id is the key, and (tool, non-empty key) is unique.\<close>

definition view_ok :: "job_view \<Rightarrow> bool" where
  "view_ok v \<longleftrightarrow>
     (\<forall>i j. v i = Some j \<longrightarrow> jb_id j = i)
   \<and> (\<forall>i j i' j'. v i = Some j \<longrightarrow> v i' = Some j' \<longrightarrow> jb_key j \<noteq> [] \<longrightarrow>
        jb_tool j = jb_tool j' \<longrightarrow> jb_key j = jb_key j' \<longrightarrow> i = i')"

definition incomplete :: "job \<Rightarrow> bool" where
  "incomplete j \<longleftrightarrow> jb_status j = Queued \<or> jb_status j = Running"

definition in_inbox :: "job \<Rightarrow> bool" where
  "in_inbox j \<longleftrightarrow> is_terminal (jb_status j) \<and> \<not> jb_acked j"

definition new_job :: "job \<Rightarrow> bool" where
  "new_job j \<longleftrightarrow> jb_result j = GNull \<and> jb_error j = [] \<and> jb_started j = None
     \<and> jb_finished j = None \<and> \<not> jb_acked j \<and> jb_acked_at j = None"

lemma incomplete_iff: "incomplete j \<longleftrightarrow> \<not> is_terminal (jb_status j)"
  by (simp add: incomplete_def not_terminal_iff)

text \<open>
  The form in which a store keeps a job: times at the store's precision, inputs, metadata and
  results as JSON.
\<close>

definition norm_map :: "gmap \<Rightarrow> gmap" where
  "norm_map m = (case m of None \<Rightarrow> None | Some kvs \<Rightarrow> json_fields kvs)"

definition norm_value :: "gval \<Rightarrow> gval" where
  "norm_value v = (case json_value v of None \<Rightarrow> GNull | Some w \<Rightarrow> w)"

definition stored_as :: "(gtime \<Rightarrow> gtime) \<Rightarrow> job \<Rightarrow> job" where
  "stored_as st j =
     j\<lparr>jb_created := st (jb_created j), jb_started := map_option st (jb_started j),
       jb_finished := map_option st (jb_finished j), jb_input := norm_map (jb_input j),
       jb_meta := norm_map (jb_meta j), jb_result := norm_value (jb_result j)\<rparr>"

definition times_ok :: "(gtime \<Rightarrow> bool) \<Rightarrow> job \<Rightarrow> bool" where
  "times_ok P j \<longleftrightarrow> P (jb_created j) \<and> pred_option P (jb_started j) \<and> pred_option P (jb_finished j)"

lemma stored_as_simps [simp]:
  "jb_id (stored_as st j) = jb_id j" "jb_tool (stored_as st j) = jb_tool j"
  "jb_key (stored_as st j) = jb_key j" "jb_batch (stored_as st j) = jb_batch j"
  "jb_status (stored_as st j) = jb_status j" "jb_attempt (stored_as st j) = jb_attempt j"
  "jb_max_retries (stored_as st j) = jb_max_retries j" "jb_error (stored_as st j) = jb_error j"
  "jb_acked (stored_as st j) = jb_acked j" "jb_acked_at (stored_as st j) = jb_acked_at j"
  by (simp_all add: stored_as_def)

lemma set_lifecycle_simps [simp]:
  "jb_id (set_lifecycle j r) = jb_id r" "jb_tool (set_lifecycle j r) = jb_tool r"
  "jb_key (set_lifecycle j r) = jb_key r" "jb_batch (set_lifecycle j r) = jb_batch r"
  "jb_status (set_lifecycle j r) = jb_status j" "jb_attempt (set_lifecycle j r) = jb_attempt j"
  "jb_acked (set_lifecycle j r) = jb_acked r" "jb_acked_at (set_lifecycle j r) = jb_acked_at r"
  by (simp_all add: set_lifecycle_def)

lemma set_ack_simps [simp]:
  "jb_id (set_ack tm r) = jb_id r" "jb_tool (set_ack tm r) = jb_tool r"
  "jb_key (set_ack tm r) = jb_key r" "jb_batch (set_ack tm r) = jb_batch r"
  "jb_status (set_ack tm r) = jb_status r" "jb_attempt (set_ack tm r) = jb_attempt r"
  "jb_acked (set_ack tm r)" "jb_acked_at (set_ack tm r) = Some tm"
  by (simp_all add: set_ack_def)

lemma json_value_map:
  "json_value (map_value m) = Some v \<Longrightarrow> value_map v = Some (norm_map m)"
  by (cases m) (auto simp: map_value_def norm_map_def)

lemma marshal_nullable_norm:
  "marshal_nullable v = Some w \<Longrightarrow> (case w of None \<Rightarrow> GNull | Some u \<Rightarrow> u) = norm_value v"
  by (auto simp: marshal_nullable_def norm_value_def split: if_splits)

lemma null_string_key: "null_string v = k \<Longrightarrow> k \<noteq> [] \<Longrightarrow> v = Some k"
  by (cases v) (auto simp: null_string_def)

text \<open>Acknowledgment and lifecycle write different fields.\<close>

lemma set_ack_lifecycle: "set_ack tm (set_lifecycle j r) = set_lifecycle j (set_ack tm r)"
  by (simp add: set_ack_def set_lifecycle_def)

lemma view_ack_update: "view_ack (view_update v j) i tm = view_update (view_ack v i tm) j"
  by (cases "v i") (auto simp: view_ack_def view_update_def set_ack_lifecycle fun_eq_iff option.map_comp comp_def)

lemma view_ok_update: "view_ok v \<Longrightarrow> view_ok (view_update v j)"
  unfolding view_ok_def view_update_def
  by (intro conjI allI impI) (auto split: if_splits)

lemma view_ok_ack: "view_ok v \<Longrightarrow> view_ok (view_ack v i tm)"
  unfolding view_ok_def view_ack_def
  by (intro conjI allI impI) (auto split: if_splits)

subsection \<open>A sample job\<close>

text \<open>A job as a submission makes it, at a given fraction of a second.\<close>

definition sample_job :: "string \<Rightarrow> string \<Rightarrow> string \<Rightarrow> nat \<Rightarrow> job" where
  "sample_job i key b ns =
     \<lparr>jb_id = i, jb_tool = ''greet'', jb_key = key, jb_batch = b, jb_input = Some [], jb_meta = None,
      jb_status = Queued, jb_attempt = 0, jb_max_retries = 0, jb_result = GNull, jb_error = [],
      jb_created = GTime 2025 1 2 3 4 5 ns, jb_started = None, jb_finished = None,
      jb_acked = False, jb_acked_at = None\<rparr>"

lemma sample_job_ok:
  "new_job (sample_job i key b ns)" "ns < 10 ^ 9 \<Longrightarrow> times_ok valid_time (sample_job i key b ns)"
  by (simp_all add: sample_job_def new_job_def times_ok_def valid_time_def days_in_def)

lemma sample_job_simps [simp]:
  "jb_id (sample_job i key b ns) = i" "jb_tool (sample_job i key b ns) = ''greet''"
  "jb_key (sample_job i key b ns) = key" "jb_batch (sample_job i key b ns) = b"
  "jb_status (sample_job i key b ns) = Queued" "jb_result (sample_job i key b ns) = GNull"
  "jb_input (sample_job i key b ns) = Some []" "jb_meta (sample_job i key b ns) = None"
  "jb_created (sample_job i key b ns) = GTime 2025 1 2 3 4 5 ns"
  by (simp_all add: sample_job_def)

lemma stored_as_sample [simp]: "stored_as (\<lambda>t. t) (sample_job i key b ns) = sample_job i key b ns"
  "stored_as id (sample_job i key b ns) = sample_job i key b ns"
  by (simp_all add: stored_as_def sample_job_def norm_map_def norm_value_def)

subsection \<open>Sequences of calls\<close>

datatype store_call = CInsert job | CUpdate job | CAck string gtime

fun run_calls :: "'s store_ops \<Rightarrow> 's \<Rightarrow> store_call list \<Rightarrow> 's" where
  "run_calls ops s [] = s"
| "run_calls ops s (CInsert j # cs) = run_calls ops (snd (so_insert ops s j (jb_key j))) cs"
| "run_calls ops s (CUpdate j # cs) = run_calls ops (snd (so_update ops s j)) cs"
| "run_calls ops s (CAck i tm # cs) = run_calls ops (snd (so_ack ops s i tm)) cs"

fun call_ok :: "(gtime \<Rightarrow> bool) \<Rightarrow> store_call \<Rightarrow> bool" where
  "call_ok P (CInsert j) \<longleftrightarrow> new_job j \<and> times_ok P j"
| "call_ok P (CUpdate j) \<longleftrightarrow> times_ok P j"
| "call_ok P (CAck i tm) \<longleftrightarrow> P tm"

text \<open>No write of the sequence ends the job \<open>i\<close>.\<close>

fun leaves_open :: "string \<Rightarrow> store_call \<Rightarrow> bool" where
  "leaves_open i (CUpdate j) \<longleftrightarrow> jb_id j \<noteq> i \<or> \<not> is_terminal (jb_status j)"
| "leaves_open i _ \<longleftrightarrow> True"

subsection \<open>The contract\<close>

locale job_store =
  fixes ops :: "'s store_ops"
    and view :: "'s \<Rightarrow> job_view"
    and ok :: "'s \<Rightarrow> bool"
    and st :: "gtime \<Rightarrow> gtime"
    and time_ok :: "gtime \<Rightarrow> bool"
  assumes view_ok: "ok s \<Longrightarrow> view_ok (view s)"
    and insert_created:
      "ok s \<Longrightarrow> new_job j \<Longrightarrow> times_ok time_ok j \<Longrightarrow>
       so_insert ops s j (jb_key j) = (Inr (j', True), s') \<Longrightarrow>
       ok s' \<and> view s (jb_id j) = None \<and> view s' = (view s)(jb_id j \<mapsto> stored_as st j)
       \<and> (j' = j \<or> j' = stored_as st j)"
    and insert_existing:
      "ok s \<Longrightarrow> new_job j \<Longrightarrow> times_ok time_ok j \<Longrightarrow>
       so_insert ops s j (jb_key j) = (Inr (j', False), s') \<Longrightarrow>
       ok s' \<and> view s' = view s \<and> jb_key j \<noteq> [] \<and> view s (jb_id j') = Some j'
       \<and> jb_tool j' = jb_tool j \<and> jb_key j' = jb_key j"
    and insert_error:
      "ok s \<Longrightarrow> new_job j \<Longrightarrow> times_ok time_ok j \<Longrightarrow>
       so_insert ops s j (jb_key j) = (Inl e, s') \<Longrightarrow>
       ok s' \<and> (view s' = view s
                \<or> view s (jb_id j) = None \<and> view s' = (view s)(jb_id j \<mapsto> stored_as st j))"
    and update:
      "ok s \<Longrightarrow> times_ok time_ok j \<Longrightarrow> so_update ops s j = (r, s') \<Longrightarrow>
       ok s' \<and> (view s' = view_update (view s) (stored_as st j) \<or> view s' = view s \<and> \<not> is_ok r)"
    and ack:
      "ok s \<Longrightarrow> time_ok tm \<Longrightarrow> so_ack ops s i tm = (r, s') \<Longrightarrow>
       ok s' \<and> (view s' = view_ack (view s) i (st tm) \<or> view s' = view s \<and> \<not> is_ok r)"
    and get:
      "ok s \<Longrightarrow> so_get ops s i = (rg, s') \<Longrightarrow>
       ok s' \<and> view s' = view s \<and> (rg = Inr (view s i) \<or> \<not> is_ok rg)"
    and load_incomplete:
      "ok s \<Longrightarrow> so_load_incomplete ops s = (rl, s') \<Longrightarrow>
       ok s' \<and> view s' = view s
       \<and> (\<forall>js. rl = Inr js \<longrightarrow> distinct (map jb_id js)
            \<and> (\<forall>j. j \<in> set js \<longleftrightarrow> view s (jb_id j) = Some j \<and> incomplete j))"
    and list_unacked:
      "ok s \<Longrightarrow> so_list_unacked ops s n = (rl, s') \<Longrightarrow>
       ok s' \<and> view s' = view s
       \<and> (\<forall>js. rl = Inr js \<longrightarrow> distinct (map jb_id js)
            \<and> length js \<le> (if n \<le> 0 then 50 else nat n)
            \<and> (\<forall>j \<in> set js. view s (jb_id j) = Some j \<and> in_inbox j)
            \<and> (length js < (if n \<le> 0 then 50 else nat n) \<longrightarrow>
                 (\<forall>i j. view s i = Some j \<longrightarrow> in_inbox j \<longrightarrow> j \<in> set js)))"
    and list_by_batch:
      "ok s \<Longrightarrow> b \<noteq> [] \<Longrightarrow> so_list_by_batch ops s b = (rl, s') \<Longrightarrow>
       ok s' \<and> view s' = view s
       \<and> (\<forall>js. rl = Inr js \<longrightarrow> distinct (map jb_id js)
            \<and> (\<forall>j. j \<in> set js \<longleftrightarrow> view s (jb_id j) = Some j \<and> jb_batch j = b))"
begin

text \<open>A second submission under the same tool and key creates nothing and finds the first job.\<close>

lemma resubmit:
  assumes "ok s" "new_job j" "times_ok time_ok j"
    and "view s i = Some j0" "jb_tool j0 = jb_tool j" "jb_key j0 = jb_key j" "jb_key j \<noteq> []"
    and "so_insert ops s j (jb_key j) = (Inr (j', created), s')"
  shows "\<not> created \<and> j' = j0 \<and> view s' = view s"
proof (cases created)
  case True
  then have "so_insert ops s j (jb_key j) = (Inr (j', True), s')" using assms(8) by simp
  from insert_created[OF assms(1-3) this]
  have ok': "ok s'" and fresh: "view s (jb_id j) = None"
    and v: "view s' = (view s)(jb_id j \<mapsto> stored_as st j)" by auto
  have "i \<noteq> jb_id j" using fresh assms(4) by auto
  with assms(4) v have "view s' i = Some j0" "view s' (jb_id j) = Some (stored_as st j)" by auto
  with view_ok[OF ok'] assms(5-7) have "i = jb_id j"
    unfolding view_ok_def by (metis stored_as_simps(2,3))
  with \<open>i \<noteq> jb_id j\<close> show ?thesis by blast
next
  case False
  then have "so_insert ops s j (jb_key j) = (Inr (j', False), s')" using assms(8) by simp
  from insert_existing[OF assms(1-3) this]
  have e: "view s' = view s" "view s (jb_id j') = Some j'" "jb_tool j' = jb_tool j"
    "jb_key j' = jb_key j" by auto
  with view_ok[OF assms(1)] assms(4-7) have "i = jb_id j'" unfolding view_ok_def by metis
  with e assms(4) False show ?thesis by simp
qed

text \<open>A lifecycle write and an acknowledgment reach the same rows in either order.\<close>

lemma update_ack_commute:
  assumes "ok s" "times_ok time_ok j" "time_ok tm"
    and "so_update ops s j = (Inr (), s1)" "so_ack ops s1 i tm = (Inr (), s2)"
    and "so_ack ops s i tm = (Inr (), t1)" "so_update ops t1 j = (Inr (), t2)"
  shows "view s2 = view t2"
proof -
  from update[OF assms(1,2,4)] have s1: "ok s1" "view s1 = view_update (view s) (stored_as st j)"
    by auto
  from ack[OF s1(1) assms(3,5)] have s2: "view s2 = view_ack (view s1) i (st tm)" by simp
  from ack[OF assms(1,3,6)] have t1: "ok t1" "view t1 = view_ack (view s) i (st tm)" by auto
  from update[OF t1(1) assms(2,7)] have t2: "view t2 = view_update (view t1) (stored_as st j)"
    by simp
  show ?thesis unfolding s2 t2 s1(2) t1(2) by (rule view_ack_update)
qed

text \<open>A lifecycle write never touches an acknowledgment, whether it succeeds or not.\<close>

lemma update_keeps_ack:
  assumes "ok s" "times_ok time_ok j" "so_update ops s j = (r, s')" "view s i = Some k"
  shows "\<exists>k'. view s' i = Some k' \<and> jb_acked k' = jb_acked k \<and> jb_acked_at k' = jb_acked_at k"
  using update[OF assms(1-3)] assms(4) by (auto simp: view_update_def)

text \<open>An acknowledged job leaves the inbox, and no lifecycle write brings it back.\<close>

lemma acked_leaves_inbox:
  assumes "ok s" "time_ok tm" "times_ok time_ok j"
    and "so_ack ops s i tm = (Inr (), s1)" "so_update ops s1 j = (r, s2)"
    and "so_list_unacked ops s2 n = (Inr js, s3)"
  shows "i \<notin> jb_id ` set js"
proof
  assume "i \<in> jb_id ` set js"
  from ack[OF assms(1,2,4)] have s1: "ok s1" "view s1 = view_ack (view s) i (st tm)" by auto
  from update[OF s1(1) assms(3,5)] have s2: "ok s2"
    "view s2 = view_update (view s1) (stored_as st j) \<or> view s2 = view s1" by auto
  from \<open>i \<in> jb_id ` set js\<close> obtain k where k: "k \<in> set js" "i = jb_id k" by auto
  from list_unacked[OF s2(1) assms(6)] k have "view s2 i = Some k" "\<not> jb_acked k"
    by (auto simp: in_inbox_def)
  with s2(2) s1(2) show False
    by (auto simp: view_update_def view_ack_def split: if_splits)
qed

text \<open>
  One call of any kind and any outcome: the database stays well formed, and a job it shows
  stays, with its tool, key and batch; it is acknowledged if it was.
\<close>

lemma call_keeps:
  assumes "ok s" "call_ok time_ok c" "view s i = Some k"
  shows "ok (run_calls ops s [c]) \<and> (\<exists>k'. view (run_calls ops s [c]) i = Some k'
    \<and> jb_tool k' = jb_tool k \<and> jb_key k' = jb_key k \<and> jb_batch k' = jb_batch k
    \<and> (jb_acked k \<longrightarrow> jb_acked k') \<and> (leaves_open i c \<longrightarrow> incomplete k \<longrightarrow> incomplete k'))"
proof (cases c)
  case (CInsert j)
  obtain r s' where c: "so_insert ops s j (jb_key j) = (r, s')" by fastforce
  have j: "new_job j" "times_ok time_ok j" using assms(2) CInsert by auto
  have "ok s' \<and> (view s' = view s \<or> view s (jb_id j) = None
          \<and> view s' = (view s)(jb_id j \<mapsto> stored_as st j))"
  proof (cases r)
    case (Inl e)
    with insert_error[OF assms(1) j] c show ?thesis by blast
  next
    case (Inr p)
    then obtain j' b where "r = Inr (j', b)" by (cases p) auto
    with insert_created[OF assms(1) j, of j' s'] insert_existing[OF assms(1) j, of j' s'] c
    show ?thesis by (cases b) auto
  qed
  with assms(3) CInsert c show ?thesis by auto
next
  case (CUpdate j)
  obtain r s' where "so_update ops s j = (r, s')" by fastforce
  with update[OF assms(1), of j r s'] assms(2,3) CUpdate show ?thesis
    by (auto simp: view_update_def incomplete_iff)
next
  case (CAck a tm)
  obtain r s' where "so_ack ops s a tm = (r, s')" by fastforce
  with ack[OF assms(1), of tm a r s'] assms(2,3) CAck show ?thesis
    by (auto simp: view_ack_def incomplete_iff)
qed

lemma run_calls_Cons: "run_calls ops s (c # cs) = run_calls ops (run_calls ops s [c]) cs"
  by (cases c) simp_all

lemma calls_keep:
  assumes "ok s" "\<forall>c\<in>set cs. call_ok time_ok c" "view s i = Some k"
  shows "ok (run_calls ops s cs) \<and> (\<exists>k'. view (run_calls ops s cs) i = Some k'
    \<and> jb_tool k' = jb_tool k \<and> jb_key k' = jb_key k \<and> jb_batch k' = jb_batch k
    \<and> (jb_acked k \<longrightarrow> jb_acked k')
    \<and> ((\<forall>c\<in>set cs. leaves_open i c) \<longrightarrow> incomplete k \<longrightarrow> incomplete k'))"
  using assms
proof (induction cs arbitrary: s k)
  case (Cons c cs)
  obtain k1 where k1: "view (run_calls ops s [c]) i = Some k1" "ok (run_calls ops s [c])"
    "jb_tool k1 = jb_tool k" "jb_key k1 = jb_key k" "jb_batch k1 = jb_batch k"
    "jb_acked k \<longrightarrow> jb_acked k1" "leaves_open i c \<longrightarrow> incomplete k \<longrightarrow> incomplete k1"
    using call_keeps[OF Cons.prems(1) _ Cons.prems(3), of c] Cons.prems(2) by auto
  from Cons.IH[OF k1(2) _ k1(1)] Cons.prems(2) k1 show ?case
    unfolding run_calls_Cons[of s c cs] by auto
qed auto

text \<open>
  An accepted job survives: whatever is written in between and however the calls end, the
  recovery of the next start lists it, once, unless a terminal lifecycle write of it was made.
\<close>

lemma accepted_survives:
  assumes "ok s" "new_job j" "times_ok time_ok j" "jb_status j = Queued"
    and "so_insert ops s j (jb_key j) = (Inr (j', True), s1)"
    and "\<forall>c\<in>set cs. call_ok time_ok c \<and> leaves_open (jb_id j) c"
    and "so_load_incomplete ops (run_calls ops s1 cs) = (Inr js, s2)"
  shows "\<exists>!k. k \<in> set js \<and> jb_id k = jb_id j"
proof -
  from insert_created[OF assms(1-3,5)] have "ok s1" "view s1 (jb_id j) = Some (stored_as st j)"
    by auto
  from calls_keep[OF this(1) _ this(2), of cs] assms(4,6) obtain k
    where k: "ok (run_calls ops s1 cs)" "view (run_calls ops s1 cs) (jb_id j) = Some k" "incomplete k"
    by (auto simp: incomplete_def)
  from view_ok[OF k(1)] k(2) have id: "jb_id k = jb_id j" by (simp add: view_ok_def)
  from load_incomplete[OF k(1) assms(7)] k id show ?thesis
    by (intro ex1I[of _ k]) (auto simp: distinct_map inj_on_def)
qed

end

end
