(* ===== verification/Row_Table.thy ===== *)
theory Row_Table
  imports Job
begin

text \<open>
  Tables of rows with a key column, as both database stores keep them: the jobs a table
  shows, and how appending a row, rewriting the row of a key and selecting rows act on what
  it shows. \<open>rd\<close> reads a row as a job.
\<close>

definition table_view :: "('r \<Rightarrow> string) \<Rightarrow> ('r \<Rightarrow> job option) \<Rightarrow> 'r list \<Rightarrow> job_view" where
  "table_view key rd rows i = (case find (\<lambda>r. key r = i) rows of None \<Rightarrow> None | Some r \<Rightarrow> rd r)"

definition table_ok :: "('r \<Rightarrow> string) \<Rightarrow> ('r \<Rightarrow> job option) \<Rightarrow> 'r list \<Rightarrow> bool" where
  "table_ok key rd rows \<longleftrightarrow>
     distinct (map key rows) \<and> (\<forall>r\<in>set rows. \<exists>j. rd r = Some j \<and> jb_id j = key r)
   \<and> view_ok (table_view key rd rows)"

definition rewrite_row :: "('r \<Rightarrow> string) \<Rightarrow> string \<Rightarrow> ('r \<Rightarrow> 'r) \<Rightarrow> 'r list \<Rightarrow> 'r list" where
  "rewrite_row key i f rows = map (\<lambda>r. if key r = i then f r else r) rows"

lemma find_in: "find P xs = Some x \<Longrightarrow> x \<in> set xs \<and> P x"
  by (induction xs) (auto split: if_splits)

lemma find_key_None: "find (\<lambda>r. key r = i) rows = None \<longleftrightarrow> i \<notin> key ` set rows"
  by (induction rows) auto

lemma table_view_iff:
  assumes "distinct (map key rows)"
  shows "table_view key rd rows i = Some j \<longleftrightarrow> (\<exists>r\<in>set rows. key r = i \<and> rd r = Some j)"
proof (cases "find (\<lambda>r. key r = i) rows")
  case None
  then have "i \<notin> key ` set rows" by (simp add: find_key_None)
  with None show ?thesis unfolding table_view_def by (auto simp: image_iff)
next
  case (Some q)
  with find_in[OF this] have q: "q \<in> set rows" "key q = i" by auto
  have "r = q" if "r \<in> set rows" "key r = i" for r
    using assms that q by (auto simp: distinct_map dest: inj_onD)
  with q have "(\<exists>r\<in>set rows. key r = i \<and> rd r = Some j) \<longleftrightarrow> rd q = Some j" by metis
  with Some show ?thesis by (simp add: table_view_def)
qed

lemma table_view_None:
  assumes "table_ok key rd rows"
  shows "table_view key rd rows i = None \<longleftrightarrow> i \<notin> key ` set rows"
proof -
  have d: "distinct (map key rows)" and r: "\<forall>r\<in>set rows. \<exists>j. rd r = Some j \<and> jb_id j = key r"
    using assms by (auto simp: table_ok_def)
  have "(\<exists>j. table_view key rd rows i = Some j) \<longleftrightarrow> i \<in> key ` set rows"
    unfolding table_view_iff[OF d] using r by blast
  then show ?thesis by auto
qed

lemma find_snoc:
  "find P (rows @ [r]) = (case find P rows of None \<Rightarrow> (if P r then Some r else None) | Some q \<Rightarrow> Some q)"
  by (induction rows) auto

lemma table_view_append:
  assumes "key r \<notin> key ` set rows"
  shows "table_view key rd (rows @ [r]) = (table_view key rd rows)(key r := rd r)"
proof
  fix i
  show "table_view key rd (rows @ [r]) i = ((table_view key rd rows)(key r := rd r)) i"
  proof (cases "key r = i")
    case True
    with assms have "find (\<lambda>q. key q = i) rows = None" by (simp add: find_key_None)
    with True show ?thesis by (simp add: table_view_def find_snoc)
  next
    case False
    then show ?thesis by (simp add: table_view_def find_snoc split: option.split)
  qed
qed

lemma find_rewrite:
  assumes "\<And>r. key (f r) = key r"
  shows "find (\<lambda>q. key q = k) (rewrite_row key i f rows)
    = map_option (\<lambda>r. if k = i then f r else r) (find (\<lambda>q. key q = k) rows)"
  by (induction rows) (auto simp: rewrite_row_def assms)

lemma table_view_rewrite:
  assumes "\<And>r. key (f r) = key r" "\<And>r. r \<in> set rows \<Longrightarrow> key r = i \<Longrightarrow> rd (f r) = map_option g (rd r)"
  shows "table_view key rd (rewrite_row key i f rows)
    = (table_view key rd rows)(i := map_option g (table_view key rd rows i))"
proof
  fix k
  show "table_view key rd (rewrite_row key i f rows) k
    = ((table_view key rd rows)(i := map_option g (table_view key rd rows i))) k"
  proof (cases "find (\<lambda>r. key r = k) rows")
    case None
    then show ?thesis by (auto simp: table_view_def find_rewrite[of key f, OF assms(1)])
  next
    case (Some r)
    with find_in[OF this] have "r \<in> set rows" "key r = k" by auto
    with Some assms(2) show ?thesis
      by (auto simp: table_view_def find_rewrite[of key f, OF assms(1)])
  qed
qed

lemma table_ok_view: "table_ok key rd rows \<Longrightarrow> view_ok (table_view key rd rows)"
  by (simp add: table_ok_def)

lemma table_ok_append:
  assumes "table_ok key rd rows" "key r \<notin> key ` set rows" "rd r = Some j" "jb_id j = key r"
    and "jb_key j \<noteq> [] \<Longrightarrow>
      \<forall>q k. q \<in> set rows \<longrightarrow> rd q = Some k \<longrightarrow> \<not> (jb_tool k = jb_tool j \<and> jb_key k = jb_key j)"
  shows "table_ok key rd (rows @ [r])"
proof -
  have d: "distinct (map key rows)" using assms(1) by (simp add: table_ok_def)
  let ?v = "table_view key rd rows"
  have v: "table_view key rd (rows @ [r]) = ?v(key r \<mapsto> j)"
    using table_view_append[of key r rows rd] assms(2,3) by simp
  have none: "\<not> (jb_tool k = jb_tool j \<and> jb_key k = jb_key j)"
    if "?v i = Some k" "jb_key j \<noteq> []" for i k
    using that assms(5) by (auto simp: table_view_iff[OF d])
  have ok: "view_ok ?v" using assms(1) by (simp add: table_ok_def)
  have "view_ok (?v(key r \<mapsto> j))"
    unfolding view_ok_def
  proof (intro conjI allI impI)
    fix i k assume "(?v(key r \<mapsto> j)) i = Some k"
    then show "jb_id k = i" using ok assms(4) by (auto simp: view_ok_def split: if_splits)
  next
    fix i k i' k'
    assume a: "(?v(key r \<mapsto> j)) i = Some k" "(?v(key r \<mapsto> j)) i' = Some k'" "jb_key k \<noteq> []"
      "jb_tool k = jb_tool k'" "jb_key k = jb_key k'"
    show "i = i'"
    proof (cases "i = key r"; cases "i' = key r")
      assume "i \<noteq> key r" "i' \<noteq> key r"
      then have "?v i = Some k" "?v i' = Some k'" using a by auto
      with ok a(3-5) show ?thesis unfolding view_ok_def by blast
    next
      assume c: "i = key r" "i' \<noteq> key r"
      then have "k = j" "?v i' = Some k'" using a by auto
      with none[of i' k'] a(3-5) show ?thesis by simp
    next
      assume c: "i \<noteq> key r" "i' = key r"
      then have "k' = j" "?v i = Some k" using a by auto
      with none[of i k] a(3-5) show ?thesis by simp
    qed simp
  qed
  with assms(1-4) v show ?thesis by (auto simp: table_ok_def)
qed

lemma table_ok_rewrite:
  assumes "table_ok key rd rows" "\<And>r. key (f r) = key r"
    and "\<And>r. r \<in> set rows \<Longrightarrow> key r = i \<Longrightarrow> rd (f r) = map_option g (rd r)"
    and "\<And>j. jb_id (g j) = jb_id j"
    and "view_ok ((table_view key rd rows)(i := map_option g (table_view key rd rows i)))"
  shows "table_ok key rd (rewrite_row key i f rows)"
proof -
  let ?h = "\<lambda>r. if key r = i then f r else r"
  have k: "key (?h r) = key r" for r by (simp add: assms(2))
  have "map key (rewrite_row key i f rows) = map key rows"
    unfolding rewrite_row_def map_map by (rule map_cong) (simp_all add: k)
  moreover have "\<exists>j. rd (?h r) = Some j \<and> jb_id j = key (?h r)" if "r \<in> set rows" for r
    unfolding k using assms(1) that assms(3,4) by (auto simp: table_ok_def)
  moreover have "view_ok (table_view key rd (rewrite_row key i f rows))"
    using assms(5) table_view_rewrite[of key f rows i rd g, OF assms(2,3)] by simp
  moreover have "set (rewrite_row key i f rows) = ?h ` set rows"
    unfolding rewrite_row_def by (rule set_map)
  moreover have "distinct (map key rows)" using assms(1) by (simp add: table_ok_def)
  ultimately show ?thesis
    unfolding table_ok_def by (simp only: ball_simps) blast
qed

subsection \<open>Selecting rows\<close>

lemma table_select:
  assumes t: "table_ok key rd rows" and p: "mset sel = mset (filter P rows)"
    and q: "\<And>r j. r \<in> set rows \<Longrightarrow> rd r = Some j \<Longrightarrow> P r \<longleftrightarrow> Q j"
  shows "distinct (map jb_id (map (the \<circ> rd) sel))
    \<and> (\<forall>j. j \<in> set (map (the \<circ> rd) sel) \<longleftrightarrow> table_view key rd rows (jb_id j) = Some j \<and> Q j)"
proof -
  have s: "set sel = set (filter P rows)" using p by (rule mset_eq_setD)
  have d: "distinct (map key rows)" using t by (simp add: table_ok_def)
  have rd: "\<exists>j. rd r = Some j \<and> jb_id j = key r" if "r \<in> set rows" for r
    using t that by (auto simp: table_ok_def)
  have ids: "map jb_id (map (the \<circ> rd) sel) = map key sel"
    using s rd by (force intro!: map_cong)
  have "mset (map key sel) = mset (map key (filter P rows))" using p by simp
  then have "distinct (map key sel)"
    using d by (metis distinct_map_filter mset_eq_imp_distinct_iff)
  moreover have "j \<in> set (map (the \<circ> rd) sel) \<longleftrightarrow> table_view key rd rows (jb_id j) = Some j \<and> Q j"
    for j
  proof -
    have "j \<in> set (map (the \<circ> rd) sel) \<longleftrightarrow> (\<exists>r\<in>set rows. P r \<and> the (rd r) = j)"
      using s by auto
    also have "\<dots> \<longleftrightarrow> (\<exists>r\<in>set rows. key r = jb_id j \<and> rd r = Some j \<and> Q j)"
      using rd q by (metis option.sel)
    finally show ?thesis by (auto simp: table_view_iff[OF d])
  qed
  ultimately show ?thesis unfolding ids by blast
qed

subsection \<open>Databases\<close>

text \<open>
  A database is its rows and the outcomes of the calls to come. A statement runs under the
  drawn outcome; a query is a statement that leaves the rows alone.
\<close>

record 'r db =
  db_rows :: "'r list"
  db_net :: db_net

definition exec_stmt ::
    "('r list \<Rightarrow> (store_error, 'a) result \<times> 'r list) \<Rightarrow> 'r db \<Rightarrow> (store_error, 'a) result \<times> 'r db" where
  "exec_stmt f db =
     (case draw (db_net db) of (d, net) \<Rightarrow>
        let db' = db\<lparr>db_net := net\<rparr> in
        case d of
          DbOk \<Rightarrow> (fst (f (db_rows db)), db'\<lparr>db_rows := snd (f (db_rows db))\<rparr>)
        | DbFail \<Rightarrow> (Inl DbError, db')
        | DbLost \<Rightarrow> (Inl DbError, db'\<lparr>db_rows := snd (f (db_rows db))\<rparr>))"

definition query :: "('r list \<Rightarrow> (store_error, 'a) result) \<Rightarrow> 'r db \<Rightarrow> (store_error, 'a) result \<times> 'r db" where
  "query f db = exec_stmt (\<lambda>rows. (f rows, rows)) db"

lemma exec_stmt_cases:
  assumes "exec_stmt f db = (r, db')"
  shows "(db_rows db' = snd (f (db_rows db)) \<and> (r = fst (f (db_rows db)) \<or> \<not> is_ok r))
       \<or> (db_rows db' = db_rows db \<and> \<not> is_ok r)"
  using assms by (auto simp: exec_stmt_def Let_def split: prod.splits db_outcome.splits)

lemma query_cases:
  assumes "query f db = (r, db')"
  shows "db_rows db' = db_rows db \<and> (r = f (db_rows db) \<or> \<not> is_ok r)"
  using exec_stmt_cases[OF assms[unfolded query_def]] by auto

definition result_option :: "('e, 'a) result \<Rightarrow> 'a option" where
  "result_option r = (case r of Inl e \<Rightarrow> None | Inr x \<Rightarrow> Some x)"

lemma result_option_Some: "result_option r = Some x \<longleftrightarrow> r = Inr x"
  by (simp add: result_option_def split: sum.split)

lemma result_option_simps [simp]: "result_option (Inl e) = None" "result_option (Inr x) = Some x"
  by (simp_all add: result_option_def)

lemma scan_all:
  assumes "table_ok key (\<lambda>r. result_option (scan r)) rows" "set sel \<subseteq> set rows"
  shows "map_result scan sel = Inr (map (the \<circ> (\<lambda>r. result_option (scan r))) sel)"
proof (rule map_result_ok, rule ballI)
  fix r assume "r \<in> set sel"
  then obtain j where "result_option (scan r) = Some j" using assms by (auto simp: table_ok_def)
  then show "scan r = Inr ((the \<circ> (\<lambda>r. result_option (scan r))) r)"
    by (simp add: result_option_Some)
qed

text \<open>A listing: the selected rows, sorted, all scanned.\<close>

lemma list_select:
  assumes t: "table_ok key (\<lambda>r. result_option (scan r)) (db_rows db)"
    and q: "query (\<lambda>rows. map_result scan (sort_key srt (filter P rows))) db = (Inr js, db')"
    and Q: "\<And>r j. r \<in> set (db_rows db) \<Longrightarrow> scan r = Inr j \<Longrightarrow> P r \<longleftrightarrow> Q j"
  shows "distinct (map jb_id js)
    \<and> (\<forall>j. j \<in> set js \<longleftrightarrow> table_view key (\<lambda>r. result_option (scan r)) (db_rows db) (jb_id j) = Some j \<and> Q j)"
proof -
  let ?sel = "sort_key srt (filter P (db_rows db))"
  have "js = map (the \<circ> (\<lambda>r. result_option (scan r))) ?sel"
    using query_cases[OF q] scan_all[OF t, of ?sel] by auto
  then show ?thesis
    using table_select[OF t, of ?sel P Q] Q by (simp add: result_option_Some)
qed

lemma list_select_limit:
  assumes t: "table_ok key (\<lambda>r. result_option (scan r)) (db_rows db)"
    and q: "query (\<lambda>rows. map_result scan (take n (sort_desc srt (filter P rows)))) db = (Inr js, db')"
    and Q: "\<And>r j. r \<in> set (db_rows db) \<Longrightarrow> scan r = Inr j \<Longrightarrow> P r \<longleftrightarrow> Q j"
  shows "distinct (map jb_id js) \<and> length js \<le> n
    \<and> (\<forall>j\<in>set js. table_view key (\<lambda>r. result_option (scan r)) (db_rows db) (jb_id j) = Some j \<and> Q j)
    \<and> (length js < n \<longrightarrow>
         (\<forall>i j. table_view key (\<lambda>r. result_option (scan r)) (db_rows db) i = Some j \<longrightarrow> Q j \<longrightarrow> j \<in> set js))"
proof -
  let ?rd = "\<lambda>r. result_option (scan r)"
  let ?v = "table_view key ?rd (db_rows db)"
  let ?full = "sort_desc srt (filter P (db_rows db))"
  let ?all = "map (the \<circ> ?rd) ?full"
  have "set (take n ?full) \<subseteq> set (db_rows db)" using set_take_subset[of n ?full] by auto
  then have js: "js = take n ?all"
    using query_cases[OF q] scan_all[OF t, of "take n ?full"] by (simp add: take_map)
  have all: "distinct (map jb_id ?all) \<and> (\<forall>j. j \<in> set ?all \<longleftrightarrow> ?v (jb_id j) = Some j \<and> Q j)"
    using table_select[OF t, of ?full P Q] Q by (simp add: result_option_Some)
  have ids: "?v i = Some j \<Longrightarrow> jb_id j = i" for i j
    using table_ok_view[OF t] by (simp add: view_ok_def)
  have "length js < n \<Longrightarrow> js = ?all" unfolding js by simp
  then have "length js < n \<Longrightarrow> ?v i = Some j \<Longrightarrow> Q j \<Longrightarrow> j \<in> set js" for i j
    using all ids by metis
  moreover have "distinct (take n (map jb_id ?all))" using all by (blast intro: distinct_take)
  then have "distinct (map jb_id js)" unfolding js by (simp only: take_map)
  moreover have "length js \<le> n" unfolding js by simp
  moreover have "\<forall>j\<in>set js. ?v (jb_id j) = Some j \<and> Q j"
    using all set_take_subset[of n ?all] unfolding js by blast
  ultimately show ?thesis by blast
qed

end
