(* ===== verification/Sqlite_Store.thy ===== *)
theory Sqlite_Store
  imports Row_Table
begin

text \<open>
  The SQLite store, \<^verbatim>\<open>cmd/agent-desk/store_sqlite.go\<close>. A row has the columns of the schema:
  times are RFC3339Nano text, JSON columns hold the encoded value, NULL is \<open>None\<close>. The
  database engine is outside the repository; each call draws its outcome from the state, and
  the statements act on the list of rows as SQL defines them (the pool has one connection,
  so calls are serial).
\<close>

subsection \<open>Rows\<close>

record sqlite_row =
  sr_id :: string
  sr_tool :: string
  sr_key :: "string option"
  sr_input :: gval
  sr_meta :: "gval option"
  sr_status :: job_status
  sr_attempt :: int
  sr_max_retries :: int
  sr_result :: "gval option"
  sr_error :: "string option"
  sr_created :: string
  sr_started :: "string option"
  sr_finished :: "string option"
  sr_batch :: "string option"
  sr_acked :: bool
  sr_acked_at :: "string option"

type_synonym sqlite_db = "sqlite_row db"

definition nullable_time :: "gtime option \<Rightarrow> string option" where
  "nullable_time t = map_option fmt_time t"

text \<open>\<^verbatim>\<open>scanSQLiteJob\<close>\<close>

definition scan_time :: "string \<Rightarrow> string option \<Rightarrow> (store_error, gtime option) result" where
  "scan_time col t =
     (case t of
        None \<Rightarrow> Inr None
      | Some s \<Rightarrow> (case parse_time s of None \<Rightarrow> Inl (ScanError col) | Some u \<Rightarrow> Inr (Some u)))"

definition scan_map :: "string \<Rightarrow> gval option \<Rightarrow> (store_error, gmap) result" where
  "scan_map col v =
     (case v of
        None \<Rightarrow> Inr None
      | Some w \<Rightarrow> (case value_map w of None \<Rightarrow> Inl (ScanError col) | Some m \<Rightarrow> Inr m))"

definition scan_sqlite_job :: "sqlite_row \<Rightarrow> (store_error, job) result" where
  "scan_sqlite_job r =
     (case parse_time (sr_created r) of None \<Rightarrow> Inl (ScanError ''created_at'') | Some created \<Rightarrow>
     (case scan_time ''started_at'' (sr_started r) of Inl e \<Rightarrow> Inl e | Inr started \<Rightarrow>
     (case scan_time ''finished_at'' (sr_finished r) of Inl e \<Rightarrow> Inl e | Inr finished \<Rightarrow>
     (case scan_time ''acked_at'' (sr_acked_at r) of Inl e \<Rightarrow> Inl e | Inr acked_at \<Rightarrow>
     (case scan_map ''input'' (Some (sr_input r)) of Inl e \<Rightarrow> Inl e | Inr input \<Rightarrow>
     (case scan_map ''meta'' (sr_meta r) of Inl e \<Rightarrow> Inl e | Inr meta \<Rightarrow>
      Inr \<lparr>jb_id = sr_id r, jb_tool = sr_tool r, jb_key = null_string (sr_key r),
           jb_batch = null_string (sr_batch r), jb_input = input, jb_meta = meta,
           jb_status = sr_status r, jb_attempt = sr_attempt r, jb_max_retries = sr_max_retries r,
           jb_result = (case sr_result r of None \<Rightarrow> GNull | Some v \<Rightarrow> v),
           jb_error = null_string (sr_error r), jb_created = created, jb_started = started,
           jb_finished = finished, jb_acked = sr_acked r, jb_acked_at = acked_at\<rparr>))))))"

subsection \<open>Statements\<close>

text \<open>
  The INSERT: a taken id is a constraint error; a taken (tool, key) pair makes it do nothing.
  The result is the number of affected rows.
\<close>

definition key_taken :: "sqlite_row list \<Rightarrow> string \<Rightarrow> string option \<Rightarrow> bool" where
  "key_taken rows tool key \<longleftrightarrow>
     key \<noteq> None \<and> (\<exists>r\<in>set rows. sr_tool r = tool \<and> sr_key r = key)"

definition exec_insert :: "sqlite_row \<Rightarrow> sqlite_row list \<Rightarrow> (store_error, nat) result \<times> sqlite_row list" where
  "exec_insert r rows =
     (if sr_id r \<in> sr_id ` set rows then (Inl DbError, rows)
      else if key_taken rows (sr_tool r) (sr_key r) then (Inr 0, rows)
      else (Inr 1, rows @ [r]))"

definition insert_row :: "job \<Rightarrow> string \<Rightarrow> gval \<Rightarrow> gval \<Rightarrow> sqlite_row" where
  "insert_row j key input_json meta_json =
     \<lparr>sr_id = jb_id j, sr_tool = jb_tool j, sr_key = (if key \<noteq> [] then Some key else None),
      sr_input = input_json, sr_meta = Some meta_json, sr_status = jb_status j,
      sr_attempt = jb_attempt j, sr_max_retries = jb_max_retries j, sr_result = None,
      sr_error = None, sr_created = fmt_time (jb_created j), sr_started = None,
      sr_finished = None, sr_batch = nullable_string (jb_batch j), sr_acked = False,
      sr_acked_at = None\<rparr>"

definition update_row :: "job \<Rightarrow> gval option \<Rightarrow> sqlite_row \<Rightarrow> sqlite_row" where
  "update_row j result_json r =
     r\<lparr>sr_status := jb_status j, sr_attempt := jb_attempt j, sr_result := result_json,
       sr_error := nullable_string (jb_error j), sr_started := nullable_time (jb_started j),
       sr_finished := nullable_time (jb_finished j)\<rparr>"

definition ack_row :: "gtime \<Rightarrow> sqlite_row \<Rightarrow> sqlite_row" where
  "ack_row tm r = r\<lparr>sr_acked := True, sr_acked_at := Some (fmt_time tm)\<rparr>"

subsection \<open>Operations\<close>

definition select_by_key :: "string \<Rightarrow> string \<Rightarrow> sqlite_row list \<Rightarrow> (store_error, job) result" where
  "select_by_key tool key rows =
     (case find (\<lambda>r. sr_tool r = tool \<and> sr_key r = Some key) rows of
        None \<Rightarrow> Inl DbError
      | Some r \<Rightarrow> scan_sqlite_job r)"

definition sqlite_insert ::
    "sqlite_db \<Rightarrow> job \<Rightarrow> string \<Rightarrow> (store_error, job \<times> bool) result \<times> sqlite_db" where
  "sqlite_insert db j key =
     (case json_value (map_value (jb_input j)) of
        None \<Rightarrow> (Inl (MarshalError ''input''), db)
      | Some input_json \<Rightarrow>
     (case json_value (map_value (jb_meta j)) of
        None \<Rightarrow> (Inl (MarshalError ''meta''), db)
      | Some meta_json \<Rightarrow>
     (case exec_stmt (exec_insert (insert_row j key input_json meta_json)) db of
        (Inl e, db1) \<Rightarrow> (Inl e, db1)
      | (Inr n, db1) \<Rightarrow>
          if n = 1 then (Inr (j, True), db1)
          else (case query (select_by_key (jb_tool j) key) db1 of
                  (Inl e, db2) \<Rightarrow> (Inl e, db2)
                | (Inr got, db2) \<Rightarrow> (Inr (got, False), db2)))))"

definition sqlite_update :: "sqlite_db \<Rightarrow> job \<Rightarrow> (store_error, unit) result \<times> sqlite_db" where
  "sqlite_update db j =
     (case marshal_nullable (jb_result j) of
        None \<Rightarrow> (Inl (MarshalError ''result''), db)
      | Some result_json \<Rightarrow>
          exec_stmt (\<lambda>rows. (Inr (), rewrite_row sr_id (jb_id j) (update_row j result_json) rows)) db)"

definition sqlite_ack :: "sqlite_db \<Rightarrow> string \<Rightarrow> gtime \<Rightarrow> (store_error, unit) result \<times> sqlite_db" where
  "sqlite_ack db i tm = exec_stmt (\<lambda>rows. (Inr (), rewrite_row sr_id i (ack_row tm) rows)) db"

definition sqlite_get :: "sqlite_db \<Rightarrow> string \<Rightarrow> (store_error, job option) result \<times> sqlite_db" where
  "sqlite_get db i =
     query (\<lambda>rows. case find (\<lambda>r. sr_id r = i) rows of
                     None \<Rightarrow> Inr None
                   | Some r \<Rightarrow> (case scan_sqlite_job r of Inl e \<Rightarrow> Inl e | Inr j \<Rightarrow> Inr (Some j))) db"

definition sqlite_load_incomplete :: "sqlite_db \<Rightarrow> (store_error, job list) result \<times> sqlite_db" where
  "sqlite_load_incomplete db =
     query (\<lambda>rows. map_result scan_sqlite_job
              (sort_key sr_created (filter (\<lambda>r. sr_status r = Queued \<or> sr_status r = Running) rows))) db"

definition sort_column :: "sqlite_row \<Rightarrow> string" where
  "sort_column r = (case sr_finished r of Some t \<Rightarrow> t | None \<Rightarrow> sr_created r)"

definition sqlite_list_unacked :: "sqlite_db \<Rightarrow> int \<Rightarrow> (store_error, job list) result \<times> sqlite_db" where
  "sqlite_list_unacked db limit =
     (let n = (if limit \<le> 0 then 50 else nat limit) in
      query (\<lambda>rows. map_result scan_sqlite_job
               (take n (sort_desc sort_column
                 (filter (\<lambda>r. \<not> sr_acked r \<and> (sr_status r = Done \<or> sr_status r = Failed
                                \<or> sr_status r = Canceled)) rows)))) db)"

definition sqlite_list_by_batch :: "sqlite_db \<Rightarrow> string \<Rightarrow> (store_error, job list) result \<times> sqlite_db" where
  "sqlite_list_by_batch db b =
     query (\<lambda>rows. map_result scan_sqlite_job
              (sort_key sr_created (filter (\<lambda>r. sr_batch r = Some b) rows))) db"

definition sqlite_ops :: "sqlite_db store_ops" where
  "sqlite_ops =
     \<lparr>so_insert = sqlite_insert, so_update = sqlite_update, so_ack = sqlite_ack, so_get = sqlite_get,
      so_load_incomplete = sqlite_load_incomplete, so_list_unacked = sqlite_list_unacked,
      so_list_by_batch = sqlite_list_by_batch\<rparr>"

subsection \<open>What a database shows\<close>

definition sqlite_read :: "sqlite_row \<Rightarrow> job option" where
  "sqlite_read r = result_option (scan_sqlite_job r)"

definition sqlite_view :: "sqlite_db \<Rightarrow> job_view" where
  "sqlite_view db = table_view sr_id sqlite_read (db_rows db)"

definition columns_ok :: "sqlite_row \<Rightarrow> bool" where
  "columns_ok r \<longleftrightarrow> sr_key r \<noteq> Some [] \<and> sr_batch r \<noteq> Some []"

definition sqlite_ok :: "sqlite_db \<Rightarrow> bool" where
  "sqlite_ok db \<longleftrightarrow>
     table_ok sr_id sqlite_read (db_rows db) \<and> (\<forall>r\<in>set (db_rows db). columns_ok r)"

subsection \<open>Rows and jobs\<close>

lemma scan_time_fmt:
  "pred_option valid_time t \<Longrightarrow> scan_time col (nullable_time t) = Inr t"
  by (cases t) (simp_all add: scan_time_def nullable_time_def parse_fmt_time)

lemma scan_insert_row:
  assumes "json_value (map_value (jb_input j)) = Some vi" "json_value (map_value (jb_meta j)) = Some vm"
    and "new_job j" "times_ok valid_time j"
  shows "sqlite_read (insert_row j (jb_key j) vi vm) = Some (stored_as id j)"
  using assms json_value_map[OF assms(1)] json_value_map[OF assms(2)]
  by (simp add: sqlite_read_def scan_sqlite_job_def insert_row_def times_ok_def parse_fmt_time
      scan_time_def scan_map_def null_string_def nullable_string_def stored_as_def new_job_def
      norm_value_def)

lemma sqlite_read_iff:
  "sqlite_read r = Some k \<longleftrightarrow>
     parse_time (sr_created r) = Some (jb_created k)
   \<and> scan_time ''started_at'' (sr_started r) = Inr (jb_started k)
   \<and> scan_time ''finished_at'' (sr_finished r) = Inr (jb_finished k)
   \<and> scan_time ''acked_at'' (sr_acked_at r) = Inr (jb_acked_at k)
   \<and> scan_map ''input'' (Some (sr_input r)) = Inr (jb_input k)
   \<and> scan_map ''meta'' (sr_meta r) = Inr (jb_meta k)
   \<and> jb_id k = sr_id r \<and> jb_tool k = sr_tool r \<and> jb_key k = null_string (sr_key r)
   \<and> jb_batch k = null_string (sr_batch r) \<and> jb_status k = sr_status r
   \<and> jb_attempt k = sr_attempt r \<and> jb_max_retries k = sr_max_retries r
   \<and> jb_result k = (case sr_result r of None \<Rightarrow> GNull | Some v \<Rightarrow> v)
   \<and> jb_error k = null_string (sr_error r) \<and> jb_acked k = sr_acked r"
  unfolding sqlite_read_def scan_sqlite_job_def
  by (cases k) (simp split: option.split sum.split, blast)

lemma scan_update_row:
  assumes "marshal_nullable (jb_result j) = Some w" "times_ok valid_time j" "sqlite_read r = Some k"
  shows "sqlite_read (update_row j w r) = Some (set_lifecycle (stored_as id j) k)"
proof -
  have "pred_option valid_time (jb_started j)" "pred_option valid_time (jb_finished j)"
    using assms(2) by (auto simp: times_ok_def)
  with assms(3) marshal_nullable_norm[OF assms(1)] show ?thesis
    unfolding sqlite_read_iff
    by (simp add: update_row_def set_lifecycle_def stored_as_def scan_time_fmt option.map_id)
qed

lemma scan_ack_row:
  assumes "valid_time tm" "sqlite_read r = Some k"
  shows "sqlite_read (ack_row tm r) = Some (set_ack tm k)"
  using assms unfolding sqlite_read_iff
  by (simp add: ack_row_def set_ack_def scan_time_def parse_fmt_time)

subsection \<open>The contract holds\<close>

lemma sqlite_ok_rows: "db_rows db' = db_rows db \<Longrightarrow> sqlite_ok db \<Longrightarrow> sqlite_ok db' \<and> sqlite_view db' = sqlite_view db"
  by (simp add: sqlite_ok_def sqlite_view_def)

lemma sqlite_ok_readable: "sqlite_ok db \<Longrightarrow> r \<in> set (db_rows db) \<Longrightarrow> \<exists>k. sqlite_read r = Some k \<and> jb_id k = sr_id r"
  by (auto simp: sqlite_ok_def table_ok_def)

lemma sqlite_distinct: "sqlite_ok db \<Longrightarrow> distinct (map sr_id (db_rows db))"
  by (simp add: sqlite_ok_def table_ok_def)

lemma sqlite_read_Inr: "scan_sqlite_job r = Inr k \<longleftrightarrow> sqlite_read r = Some k"
  by (simp add: sqlite_read_def result_option_Some)

lemma sqlite_read_scan: "sqlite_read = (\<lambda>r. result_option (scan_sqlite_job r))"
  by (simp add: sqlite_read_def fun_eq_iff)

lemma append_insert_row:
  assumes ok: "sqlite_ok db" and j: "new_job j" "times_ok valid_time j"
    and v: "json_value (map_value (jb_input j)) = Some vi" "json_value (map_value (jb_meta j)) = Some vm"
    and row: "row = insert_row j (jb_key j) vi vm"
    and fresh: "sr_id row \<notin> sr_id ` set (db_rows db)"
    and free: "\<not> key_taken (db_rows db) (sr_tool row) (sr_key row)"
    and db': "db_rows db' = db_rows db @ [row]"
  shows "sqlite_ok db' \<and> sqlite_view db (jb_id j) = None
    \<and> sqlite_view db' = (sqlite_view db)(jb_id j \<mapsto> stored_as id j)"
proof -
  have rd: "sqlite_read row = Some (stored_as id j)"
    unfolding row by (rule scan_insert_row[OF v j])
  have id: "sr_id row = jb_id j" by (simp add: row insert_row_def)
  have t: "table_ok sr_id sqlite_read (db_rows db)" using ok by (simp add: sqlite_ok_def)
  have other: "\<not> (jb_tool k = jb_tool (stored_as id j) \<and> jb_key k = jb_key (stored_as id j))"
    if "q \<in> set (db_rows db)" "sqlite_read q = Some k" "jb_key (stored_as id j) \<noteq> []" for q k
    using free that null_string_key[of "sr_key q" "jb_key j"]
    by (auto simp: key_taken_def row insert_row_def sqlite_read_iff)
  have "table_ok sr_id sqlite_read (db_rows db @ [row])"
    by (rule table_ok_append[OF t fresh rd]) (use id other in auto)
  moreover have "columns_ok row"
    by (simp add: columns_ok_def row insert_row_def nullable_string_def)
  moreover have "sqlite_view db' = (sqlite_view db)(jb_id j \<mapsto> stored_as id j)"
    using table_view_append[OF fresh, of sqlite_read] by (simp add: sqlite_view_def db' id rd)
  moreover have "sqlite_view db (jb_id j) = None"
    using fresh by (simp add: sqlite_view_def table_view_None[OF t] id)
  ultimately show ?thesis using ok db' by (simp add: sqlite_ok_def)
qed

lemma select_taken:
  assumes ok: "sqlite_ok db" and taken: "key_taken (db_rows db) tool (Some key)"
    and sel: "select_by_key tool key (db_rows db) = Inr j'"
  shows "sqlite_view db (jb_id j') = Some j' \<and> jb_tool j' = tool \<and> jb_key j' = key"
proof -
  obtain r where r: "find (\<lambda>r. sr_tool r = tool \<and> sr_key r = Some key) (db_rows db) = Some r"
    "scan_sqlite_job r = Inr j'"
    using sel by (auto simp: select_by_key_def split: option.splits)
  from find_in[OF r(1)] r(2) show ?thesis
    using table_view_iff[OF sqlite_distinct[OF ok], of sqlite_read "jb_id j'" j']
    by (auto simp: sqlite_view_def sqlite_read_Inr sqlite_read_iff null_string_def)
qed

text \<open>The insert met a conflict: the row that holds the key is read back.\<close>

lemma sqlite_insert_conflict:
  assumes v: "json_value (map_value (jb_input j)) = Some vi" "json_value (map_value (jb_meta j)) = Some vm"
    and e: "exec_stmt (exec_insert (insert_row j (jb_key j) vi vm)) db = (Inr 0, db1)"
    and ok: "sqlite_ok db1" and taken: "key_taken (db_rows db1) (jb_tool j) (Some (jb_key j))"
    and ins: "sqlite_insert db j (jb_key j) = (r, db')"
  shows "(\<not> is_ok r \<or> (\<exists>j'. r = Inr (j', False) \<and> sqlite_view db1 (jb_id j') = Some j'
      \<and> jb_tool j' = jb_tool j \<and> jb_key j' = jb_key j)) \<and> sqlite_ok db' \<and> sqlite_view db' = sqlite_view db1"
proof -
  obtain r2 db2 where q: "query (select_by_key (jb_tool j) (jb_key j)) db1 = (r2, db2)" by fastforce
  have db2: "sqlite_ok db2" "sqlite_view db2 = sqlite_view db1"
    using query_cases[OF q] sqlite_ok_rows[of db2 db1] ok by auto
  show ?thesis
  proof (cases r2)
    case (Inl x)
    with ins v e q db2 show ?thesis by (auto simp: sqlite_insert_def)
  next
    case (Inr got)
    with query_cases[OF q] have "select_by_key (jb_tool j) (jb_key j) (db_rows db1) = Inr got" by auto
    from select_taken[OF ok taken this] ins v e q db2 Inr show ?thesis by (auto simp: sqlite_insert_def)
  qed
qed

lemma sqlite_insert_cases:
  assumes ok: "sqlite_ok db" and j: "new_job j" "times_ok valid_time j"
    and ins: "sqlite_insert db j (jb_key j) = (r, db')"
  shows "(r = Inr (j, True) \<or> \<not> is_ok r) \<and> sqlite_ok db' \<and> sqlite_view db (jb_id j) = None
           \<and> sqlite_view db' = (sqlite_view db)(jb_id j \<mapsto> stored_as id j)
       \<or> (\<exists>j'. r = Inr (j', False) \<and> jb_key j \<noteq> [] \<and> sqlite_view db (jb_id j') = Some j'
            \<and> jb_tool j' = jb_tool j \<and> jb_key j' = jb_key j)
           \<and> sqlite_ok db' \<and> sqlite_view db' = sqlite_view db
       \<or> \<not> is_ok r \<and> sqlite_ok db' \<and> sqlite_view db' = sqlite_view db"
proof (cases "json_value (map_value (jb_input j)) = None \<or> json_value (map_value (jb_meta j)) = None")
  case True
  with ins ok show ?thesis by (auto simp: sqlite_insert_def split: option.splits)
next
  case False
  then obtain vi vm where v: "json_value (map_value (jb_input j)) = Some vi"
    "json_value (map_value (jb_meta j)) = Some vm" by auto
  let ?row = "insert_row j (jb_key j) vi vm"
  obtain r1 db1 where e: "exec_stmt (exec_insert ?row) db = (r1, db1)" by fastforce
  let ?fresh = "sr_id ?row \<notin> sr_id ` set (db_rows db)"
  let ?free = "\<not> key_taken (db_rows db) (sr_tool ?row) (sr_key ?row)"
  show ?thesis
  proof (cases "db_rows db1 = db_rows db")
    case same: True
    have ok1: "sqlite_ok db1" "sqlite_view db1 = sqlite_view db"
      using sqlite_ok_rows[OF same ok] by auto
    show ?thesis
    proof (cases "is_ok r1")
      case False
      then have "\<not> is_ok r" "db' = db1"
        using ins v e by (auto simp: sqlite_insert_def split: sum.splits)
      with False ok1 show ?thesis by blast
    next
      case True
      then have r1: "r1 = fst (exec_insert ?row (db_rows db))" using exec_stmt_cases[OF e] by auto
      with True same exec_stmt_cases[OF e] have t: "r1 = Inr 0" "\<not> ?free"
        by (auto simp: exec_insert_def split: if_splits)
      then have key: "jb_key j \<noteq> []" "key_taken (db_rows db1) (jb_tool j) (Some (jb_key j))"
        using same by (auto simp: key_taken_def insert_row_def split: if_splits)
      from sqlite_insert_conflict[OF v e[unfolded t(1)] ok1(1) key(2) ins] ok1(2) key(1) show ?thesis by auto
    qed
  next
    case False
    with exec_stmt_cases[OF e] have s: "db_rows db1 = snd (exec_insert ?row (db_rows db))"
      "r1 = fst (exec_insert ?row (db_rows db)) \<or> \<not> is_ok r1" by auto
    with False have f: ?fresh ?free "db_rows db1 = db_rows db @ [?row]" "r1 = Inr 1 \<or> \<not> is_ok r1"
      by (auto simp: exec_insert_def split: if_splits)
    have "(r = Inr (j, True) \<or> \<not> is_ok r) \<and> db' = db1"
      using f(4) ins v e by (auto simp: sqlite_insert_def is_ok_iff split: sum.splits)
    with append_insert_row[OF ok j v refl f(1-3)] show ?thesis by blast
  qed
qed

lemma sqlite_update_view:
  assumes ok: "sqlite_ok db" and j: "times_ok valid_time j" and u: "sqlite_update db j = (r, db')"
  shows "sqlite_ok db' \<and> (sqlite_view db' = view_update (sqlite_view db) (stored_as id j)
      \<or> sqlite_view db' = sqlite_view db \<and> \<not> is_ok r)"
proof (cases "marshal_nullable (jb_result j)")
  case None
  with u ok show ?thesis by (auto simp: sqlite_update_def)
next
  case (Some w)
  let ?rows = "db_rows db" and ?g = "set_lifecycle (stored_as id j)"
  let ?rows' = "rewrite_row sr_id (jb_id j) (update_row j w) ?rows"
  have t: "table_ok sr_id sqlite_read ?rows" using ok by (simp add: sqlite_ok_def)
  have key: "\<And>r. sr_id (update_row j w r) = sr_id r" by (simp add: update_row_def)
  have rd: "sqlite_read (update_row j w r) = map_option ?g (sqlite_read r)" if "r \<in> set ?rows" for r
    using sqlite_ok_readable[OF ok that] scan_update_row[OF Some j] by auto
  have v: "table_view sr_id sqlite_read ?rows' = view_update (sqlite_view db) (stored_as id j)"
    using table_view_rewrite[of sr_id "update_row j w" ?rows "jb_id j" sqlite_read ?g, OF key rd]
    by (simp add: sqlite_view_def view_update_def)
  have "table_ok sr_id sqlite_read ?rows'"
    by (rule table_ok_rewrite[of sr_id sqlite_read ?rows "update_row j w" "jb_id j" ?g, OF t key rd])
       (use v view_ok_update[OF table_ok_view[OF t], of "stored_as id j"] in \<open>simp_all add: view_update_def sqlite_view_def\<close>)
  moreover have "\<forall>r\<in>set ?rows'. columns_ok r"
    using ok by (auto simp: rewrite_row_def sqlite_ok_def columns_ok_def update_row_def)
  moreover have "db_rows db' = ?rows' \<or> db_rows db' = ?rows \<and> \<not> is_ok r"
    using u exec_stmt_cases[of "\<lambda>rows. (Inr (), rewrite_row sr_id (jb_id j) (update_row j w) rows)" db r db']
    by (auto simp: sqlite_update_def Some)
  ultimately show ?thesis
    using v sqlite_ok_rows[of db' db] ok by (auto simp: sqlite_ok_def sqlite_view_def)
qed

lemma sqlite_ack_view:
  assumes ok: "sqlite_ok db" and tm: "valid_time tm" and u: "sqlite_ack db i tm = (r, db')"
  shows "sqlite_ok db' \<and> (sqlite_view db' = view_ack (sqlite_view db) i tm
      \<or> sqlite_view db' = sqlite_view db \<and> \<not> is_ok r)"
proof -
  let ?rows = "db_rows db"
  let ?rows' = "rewrite_row sr_id i (ack_row tm) ?rows"
  have t: "table_ok sr_id sqlite_read ?rows" using ok by (simp add: sqlite_ok_def)
  have key: "\<And>r. sr_id (ack_row tm r) = sr_id r" by (simp add: ack_row_def)
  have rd: "sqlite_read (ack_row tm r) = map_option (set_ack tm) (sqlite_read r)" if "r \<in> set ?rows" for r
    using sqlite_ok_readable[OF ok that] scan_ack_row[OF tm] by auto
  have v: "table_view sr_id sqlite_read ?rows' = view_ack (sqlite_view db) i tm"
    using table_view_rewrite[of sr_id "ack_row tm" ?rows i sqlite_read "set_ack tm", OF key rd]
    by (simp add: sqlite_view_def view_ack_def)
  have "table_ok sr_id sqlite_read ?rows'"
    by (rule table_ok_rewrite[of sr_id sqlite_read ?rows "ack_row tm" i "set_ack tm", OF t key rd])
       (use v view_ok_ack[OF table_ok_view[OF t]] in \<open>simp_all add: view_ack_def sqlite_view_def\<close>)
  moreover have "\<forall>r\<in>set ?rows'. columns_ok r"
    using ok by (auto simp: rewrite_row_def sqlite_ok_def columns_ok_def ack_row_def)
  moreover have "db_rows db' = ?rows' \<or> db_rows db' = ?rows \<and> \<not> is_ok r"
    using exec_stmt_cases[OF u[unfolded sqlite_ack_def]] by auto
  ultimately show ?thesis
    using v sqlite_ok_rows[of db' db] ok by (auto simp: sqlite_ok_def sqlite_view_def)
qed

lemma sqlite_get_view:
  assumes ok: "sqlite_ok db" and q: "sqlite_get db i = (r, db')"
  shows "sqlite_ok db' \<and> sqlite_view db' = sqlite_view db \<and> (r = Inr (sqlite_view db i) \<or> \<not> is_ok r)"
proof -
  from query_cases[OF q[unfolded sqlite_get_def]]
  have s: "db_rows db' = db_rows db" and r: "r = (case find (\<lambda>r. sr_id r = i) (db_rows db) of
      None \<Rightarrow> Inr None
    | Some r \<Rightarrow> (case scan_sqlite_job r of Inl e \<Rightarrow> Inl e | Inr j \<Rightarrow> Inr (Some j))) \<or> \<not> is_ok r" by auto
  have "r = Inr (sqlite_view db i) \<or> \<not> is_ok r"
    using r by (auto simp: sqlite_view_def table_view_def sqlite_read_def split: option.splits sum.splits)
  with sqlite_ok_rows[OF s ok] show ?thesis by blast
qed

lemma sqlite_load_incomplete_view:
  assumes ok: "sqlite_ok db" and q: "sqlite_load_incomplete db = (Inr js, db')"
  shows "distinct (map jb_id js) \<and> (\<forall>j. j \<in> set js \<longleftrightarrow> sqlite_view db (jb_id j) = Some j \<and> incomplete j)"
  unfolding sqlite_view_def sqlite_read_scan
  by (rule list_select[OF _ q[unfolded sqlite_load_incomplete_def]])
     (use ok in \<open>auto simp: sqlite_ok_def sqlite_read_scan[symmetric] sqlite_read_Inr sqlite_read_iff incomplete_def\<close>)

lemma sqlite_list_by_batch_view:
  assumes ok: "sqlite_ok db" and b: "b \<noteq> []" and q: "sqlite_list_by_batch db b = (Inr js, db')"
  shows "distinct (map jb_id js) \<and> (\<forall>j. j \<in> set js \<longleftrightarrow> sqlite_view db (jb_id j) = Some j \<and> jb_batch j = b)"
  unfolding sqlite_view_def sqlite_read_scan
  by (rule list_select[OF _ q[unfolded sqlite_list_by_batch_def]])
     (use ok b null_string_key in
       \<open>auto simp: sqlite_ok_def sqlite_read_scan[symmetric] sqlite_read_Inr sqlite_read_iff null_string_def\<close>)

lemma sqlite_list_unacked_view:
  assumes ok: "sqlite_ok db" and q: "sqlite_list_unacked db n = (Inr js, db')"
  shows "distinct (map jb_id js) \<and> length js \<le> (if n \<le> 0 then 50 else nat n)
    \<and> (\<forall>j\<in>set js. sqlite_view db (jb_id j) = Some j \<and> in_inbox j)
    \<and> (length js < (if n \<le> 0 then 50 else nat n) \<longrightarrow>
         (\<forall>i j. sqlite_view db i = Some j \<longrightarrow> in_inbox j \<longrightarrow> j \<in> set js))"
  unfolding sqlite_view_def sqlite_read_scan
  by (rule list_select_limit[OF _ q[unfolded sqlite_list_unacked_def Let_def]])
     (use ok in \<open>auto simp: sqlite_ok_def sqlite_read_scan[symmetric] sqlite_read_Inr sqlite_read_iff
        in_inbox_def is_terminal_def\<close>)

lemma sqlite_query_same:
  "sqlite_ok db \<Longrightarrow> query f db = (r, db') \<Longrightarrow> sqlite_ok db' \<and> sqlite_view db' = sqlite_view db"
  using query_cases sqlite_ok_rows by metis

lemma sqlite_ops_simps [simp]:
  "so_insert sqlite_ops = sqlite_insert" "so_update sqlite_ops = sqlite_update"
  "so_ack sqlite_ops = sqlite_ack" "so_get sqlite_ops = sqlite_get"
  "so_load_incomplete sqlite_ops = sqlite_load_incomplete"
  "so_list_unacked sqlite_ops = sqlite_list_unacked"
  "so_list_by_batch sqlite_ops = sqlite_list_by_batch"
  by (simp_all add: sqlite_ops_def)

interpretation sq: job_store sqlite_ops sqlite_view sqlite_ok id valid_time
proof (unfold_locales, unfold sqlite_ops_simps, goal_cases)
  case (1 s)
  then show ?case by (simp add: sqlite_ok_def sqlite_view_def table_ok_view)
next
  case (2 s j j' s')
  from sqlite_insert_cases[OF this] show ?case by auto
next
  case (3 s j j' s')
  from sqlite_insert_cases[OF this] show ?case by auto
next
  case (4 s j e s')
  from sqlite_insert_cases[OF this] show ?case by auto
next
  case (5 s j r s')
  then show ?case by (rule sqlite_update_view)
next
  case (6 s tm i r s')
  from sqlite_ack_view[OF this] show ?case by simp
next
  case (7 s i rg s')
  then show ?case by (rule sqlite_get_view)
next
  case (8 s rl s')
  then show ?case
    using sqlite_query_same[OF 8(1)] sqlite_load_incomplete_view[OF 8(1)] by (auto simp: sqlite_load_incomplete_def)
next
  case (9 s n rl s')
  have "sqlite_ok s' \<and> sqlite_view s' = sqlite_view s"
    by (rule sqlite_query_same[OF 9(1) 9(2)[unfolded sqlite_list_unacked_def Let_def]])
  with sqlite_list_unacked_view[OF 9(1)] 9(2) show ?case by blast
next
  case (10 s b rl s')
  then show ?case
    using sqlite_query_same[OF 10(1)] sqlite_list_by_batch_view[OF 10(1)] by (auto simp: sqlite_list_by_batch_def)
qed

subsection \<open>Properties\<close>

definition empty_db :: sqlite_db where
  "empty_db = \<lparr>db_rows = [], db_net = []\<rparr>"

lemma empty_db_ok: "sqlite_ok empty_db"
  by (simp add: empty_db_def sqlite_ok_def table_ok_def view_ok_def table_view_def)

lemma insert_row_simps:
  "sr_id (insert_row j key vi vm) = jb_id j" "sr_tool (insert_row j key vi vm) = jb_tool j"
  "sr_key (insert_row j key vi vm) = (if key \<noteq> [] then Some key else None)"
  "sr_created (insert_row j key vi vm) = fmt_time (jb_created j)"
  "sr_batch (insert_row j key vi vm) = nullable_string (jb_batch j)"
  "sr_status (insert_row j key vi vm) = jb_status j"
  by (simp_all add: insert_row_def)

lemma sample_scan:
  "ns < 10 ^ 9 \<Longrightarrow>
     scan_sqlite_job (insert_row (sample_job i key b ns) key (GObj []) GNull) = Inr (sample_job i key b ns)"
  using scan_insert_row[of "sample_job i key b ns" "GObj []" GNull] sample_job_ok
  by (simp add: map_value_def sqlite_read_Inr)

lemma sample_insert:
  "sqlite_insert empty_db (sample_job i key b ns) key
     = (Inr (sample_job i key b ns, True),
        \<lparr>db_rows = [insert_row (sample_job i key b ns) key (GObj []) GNull], db_net = []\<rparr>)"
  by (simp add: sqlite_insert_def empty_db_def exec_stmt_def draw_def exec_insert_def key_taken_def
      insert_row_simps map_value_def)

definition one_job_db :: "string \<Rightarrow> string \<Rightarrow> sqlite_db" where
  "one_job_db i key = \<lparr>db_rows = [insert_row (sample_job i key [] 0) key (GObj []) GNull], db_net = []\<rparr>"

lemma one_job_db: "sqlite_insert empty_db (sample_job i key [] 0) (jb_key (sample_job i key [] 0))
    = (Inr (sample_job i key [] 0, True), one_job_db i key)"
  using sample_insert[of i key "[]" 0] by (simp add: one_job_db_def)

lemma one_job_db_ok:
  "sqlite_ok (one_job_db i key)" "sqlite_view (one_job_db i key) i = Some (sample_job i key [] 0)"
  using sq.insert_created[OF empty_db_ok sample_job_ok(1) sample_job_ok(2), of 0 i key "[]"]
    one_job_db[of i key] by auto

lemma one_job_db_again: "sqlite_insert (one_job_db ''a'' ''k'') (sample_job ''b'' ''k'' [] 7) ''k''
    = (Inr (sample_job ''a'' ''k'' [] 0, False), one_job_db ''a'' ''k'')"
  by (simp add: sqlite_insert_def one_job_db_def exec_stmt_def query_def draw_def exec_insert_def
      key_taken_def select_by_key_def insert_row_simps map_value_def sample_scan)

lemma one_job_db_reload:
  "sqlite_load_incomplete
      (run_calls sqlite_ops (one_job_db ''a'' []) [CAck ''b'' (GTime 2025 1 2 3 4 6 0)])
    = (Inr [sample_job ''a'' [] [] 0], one_job_db ''a'' [])"
proof -
  have r: "run_calls sqlite_ops (one_job_db ''a'' []) [CAck ''b'' (GTime 2025 1 2 3 4 6 0)]
      = one_job_db ''a'' []"
    by (simp add: one_job_db_def sqlite_ack_def exec_stmt_def draw_def rewrite_row_def
        insert_row_simps)
  show ?thesis
    unfolding r
    by (simp add: one_job_db_def sqlite_load_incomplete_def query_def exec_stmt_def draw_def
        insert_row_simps sample_scan)
qed

text \<open>
  Idempotent submission. Once the database shows a job for a tool and a non-empty
  idempotency key, inserting another job under the same tool and key, whatever its input,
  never creates a row: it returns the stored job, and what the database shows is unchanged.
\<close>

theorem sqlite_resubmit_finds_first:
  assumes "sqlite_ok db" "new_job j" "times_ok valid_time j"
    and "sqlite_view db i = Some j0" "jb_tool j0 = jb_tool j" "jb_key j0 = jb_key j" "jb_key j \<noteq> []"
    and "sqlite_insert db j (jb_key j) = (Inr (j', created), db')"
  shows "\<not> created \<and> j' = j0 \<and> sqlite_view db' = sqlite_view db"
  by (rule sq.resubmit[OF assms(1-7)]) (use assms(8) in simp)

lemma sqlite_resubmit_finds_first_witness:
  "fst (sqlite_insert (one_job_db ''a'' ''k'') (sample_job ''b'' ''k'' [] 7) ''k'')
     = Inr (sample_job ''a'' ''k'' [] 0, False)"
proof -
  have "\<not> False \<and> sample_job ''a'' ''k'' [] 0 = sample_job ''a'' ''k'' [] 0
      \<and> sqlite_view (one_job_db ''a'' ''k'') = sqlite_view (one_job_db ''a'' ''k'')"
    by (rule sqlite_resubmit_finds_first[of "one_job_db ''a'' ''k''" "sample_job ''b'' ''k'' [] 7"
          "''a''"]) (simp_all add: one_job_db_ok sample_job_ok one_job_db_again)
  with one_job_db_again show ?thesis by simp
qed

text \<open>
  C4: A worker's lifecycle write and the operator's acknowledgment cannot clobber each other:
  whichever reaches the database first, the rows end up the same; and a lifecycle write,
  even one that reports an error, leaves every acknowledgment as it was.
\<close>

theorem sqlite_update_ack_commute:
  assumes "sqlite_ok db" "times_ok valid_time j" "valid_time tm"
    and "sqlite_update db j = (Inr (), db1)" "sqlite_ack db1 i tm = (Inr (), db2)"
    and "sqlite_ack db i tm = (Inr (), db3)" "sqlite_update db3 j = (Inr (), db4)"
  shows "sqlite_view db2 = sqlite_view db4
    \<and> (\<forall>r db' i k. sqlite_update db j = (r, db') \<longrightarrow> sqlite_view db i = Some k \<longrightarrow>
         (\<exists>k'. sqlite_view db' i = Some k' \<and> jb_acked k' = jb_acked k \<and> jb_acked_at k' = jb_acked_at k))"
proof (intro conjI allI impI)
  show "sqlite_view db2 = sqlite_view db4"
    by (rule sq.update_ack_commute[OF assms(1-3)]) (use assms(4-7) in simp_all)
next
  fix r db' i k
  assume "sqlite_update db j = (r, db')" "sqlite_view db i = Some k"
  then show "\<exists>k'. sqlite_view db' i = Some k' \<and> jb_acked k' = jb_acked k \<and> jb_acked_at k' = jb_acked_at k"
    using sq.update_keeps_ack[OF assms(1,2)] by simp
qed

lemma sqlite_update_ack_commute_witness:
  "sqlite_view (snd (sqlite_ack (snd (sqlite_update (one_job_db ''a'' []) (sample_job ''a'' [] [] 0)))
       ''a'' (GTime 2025 1 2 3 4 6 0)))
   = sqlite_view (snd (sqlite_update (snd (sqlite_ack (one_job_db ''a'' []) ''a'' (GTime 2025 1 2 3 4 6 0)))
       (sample_job ''a'' [] [] 0)))"
proof -
  have f: "fst (sqlite_update \<lparr>db_rows = rows, db_net = []\<rparr> (sample_job ''a'' [] [] 0)) = Inr ()"
    "fst (sqlite_ack \<lparr>db_rows = rows, db_net = []\<rparr> i tm) = Inr ()"
    "db_net (snd (sqlite_update \<lparr>db_rows = rows, db_net = []\<rparr> (sample_job ''a'' [] [] 0))) = []"
    "db_net (snd (sqlite_ack \<lparr>db_rows = rows, db_net = []\<rparr> i tm)) = []" for rows i tm
    by (simp_all add: sqlite_update_def sqlite_ack_def exec_stmt_def draw_def marshal_nullable_def)
  let ?db = "one_job_db ''a'' []" and ?j = "sample_job ''a'' [] [] 0" and ?t = "GTime 2025 1 2 3 4 6 0"
  have n: "sqlite_update db ?j = (Inr (), snd (sqlite_update db ?j))"
    "sqlite_ack db i tm = (Inr (), snd (sqlite_ack db i tm))" if "db_net db = []" for db i tm
    using f[of "db_rows db"] that by (cases db; simp add: prod_eq_iff)+
  have m: "db_net ?db = []" "db_net (snd (sqlite_update ?db ?j)) = []"
    "db_net (snd (sqlite_ack ?db ''a'' ?t)) = []"
    using f by (simp_all add: one_job_db_def)
  have t: "valid_time ?t" by (simp add: valid_time_def days_in_def)
  show ?thesis
    using sqlite_update_ack_commute[OF one_job_db_ok(1) sample_job_ok(2) t n(1)[OF m(1)]
        n(2)[OF m(2)] n(2)[OF m(1)] n(1)[OF m(3)]] by simp
qed

text \<open>
  C3: No accepted job is lost and none is doubled. After a successful insert, any further
  inserts, lifecycle writes and acknowledgments may follow, with any faults of the database:
  as long as no terminal status is written for the job, the next start's \<^verbatim>\<open>LoadIncomplete\<close>,
  when it succeeds, lists the job exactly once.
\<close>

theorem sqlite_accepted_survives:
  assumes "sqlite_ok db" "new_job j" "times_ok valid_time j" "jb_status j = Queued"
    and "sqlite_insert db j (jb_key j) = (Inr (j', True), db1)"
    and "\<forall>c\<in>set cs. call_ok valid_time c \<and> leaves_open (jb_id j) c"
    and "sqlite_load_incomplete (run_calls sqlite_ops db1 cs) = (Inr js, db2)"
  shows "\<exists>!k. k \<in> set js \<and> jb_id k = jb_id j"
  by (rule sq.accepted_survives[OF assms(1-4) _ assms(6)]) (use assms(5,7) in simp_all)

lemma sqlite_accepted_survives_witness:
  "\<exists>!k. k \<in> {sample_job ''a'' [] [] 0} \<and> jb_id k = ''a''"
proof -
  let ?cs = "[CAck ''b'' (GTime 2025 1 2 3 4 6 0)]"
  have i: "sqlite_insert empty_db (sample_job ''a'' [] [] 0) (jb_key (sample_job ''a'' [] [] 0))
      = (Inr (sample_job ''a'' [] [] 0, True), one_job_db ''a'' [])"
    by (rule one_job_db)
  note l = one_job_db_reload
  have c: "\<forall>c\<in>set ?cs. call_ok valid_time c \<and> leaves_open (jb_id (sample_job ''a'' [] [] 0)) c"
    by (simp add: valid_time_def days_in_def)
  show ?thesis
    using sqlite_accepted_survives[OF empty_db_ok sample_job_ok(1) sample_job_ok(2) _ i c l]
    by simp
qed

text \<open>
  Acknowledging empties the inbox: once an acknowledgment of a job succeeded, no later
  lifecycle write of any job, successful or not, makes the inbox list it again.
\<close>

theorem sqlite_acked_leaves_inbox:
  assumes "sqlite_ok db" "valid_time tm" "times_ok valid_time j"
    and "sqlite_ack db i tm = (Inr (), db1)" "sqlite_update db1 j = (r, db2)"
    and "sqlite_list_unacked db2 n = (Inr js, db3)"
  shows "i \<notin> jb_id ` set js"
  by (rule sq.acked_leaves_inbox[OF assms(1-3)]) (use assms(4-6) in simp_all)

lemma sqlite_acked_leaves_inbox_witness:
  "\<exists>db1 db2 db3. sqlite_ack (one_job_db ''a'' []) ''a'' (GTime 2025 1 2 3 4 6 0) = (Inr (), db1)
     \<and> sqlite_update db1 (sample_job ''a'' [] [] 0\<lparr>jb_status := Done\<rparr>) = (Inr (), db2)
     \<and> sqlite_list_unacked db2 0 = (Inr [], db3) \<and> ''a'' \<notin> jb_id ` set ([] :: job list)"
proof -
  let ?t = "GTime 2025 1 2 3 4 6 0" and ?j = "sample_job ''a'' [] [] 0\<lparr>jb_status := Done\<rparr>"
  let ?row = "ack_row ?t (insert_row (sample_job ''a'' [] [] 0) [] (GObj []) GNull)"
  let ?db1 = "\<lparr>db_rows = [?row], db_net = []\<rparr>"
  let ?db2 = "\<lparr>db_rows = [update_row ?j None ?row], db_net = []\<rparr>"
  have t: "valid_time ?t" by (simp add: valid_time_def days_in_def)
  have j: "times_ok valid_time ?j"
    using sample_job_ok(2)[of 0] by (simp add: times_ok_def sample_job_def)
  have e1: "sqlite_ack (one_job_db ''a'' []) ''a'' ?t = (Inr (), ?db1)"
    by (simp add: one_job_db_def sqlite_ack_def exec_stmt_def draw_def rewrite_row_def insert_row_simps)
  have e2: "sqlite_update ?db1 ?j = (Inr (), ?db2)"
    by (simp add: sqlite_update_def exec_stmt_def draw_def rewrite_row_def marshal_nullable_def
        ack_row_def insert_row_simps)
  have e3: "sqlite_list_unacked ?db2 0 = (Inr [], ?db2)"
    by (simp add: sqlite_list_unacked_def query_def exec_stmt_def draw_def sort_desc_def
        update_row_def ack_row_def)
  from sqlite_acked_leaves_inbox[OF one_job_db_ok(1) t j e1 e2 e3] e1 e2 e3 show ?thesis by blast
qed

subsection \<open>The order of a listing\<close>

lemma exec_insert_fresh:
  "sr_id r \<notin> sr_id ` set rows \<Longrightarrow> sr_key r = None \<Longrightarrow> exec_insert r rows = (Inr 1, rows @ [r])"
  by (simp add: exec_insert_def key_taken_def)

text \<open>
  The order of a batch listing. Two jobs of one batch inserted one after the other come
  back from \<^verbatim>\<open>ListByBatch\<close> in submission order except in one case: both were created in the
  same second and the digits of the earlier fraction, trailing zeros dropped, are a prefix of
  the later one's. Then the text order of the \<^verbatim>\<open>created_at\<close> column puts the later job first.
\<close>

theorem sqlite_batch_order:
  assumes a: "new_job a" "times_ok valid_time a" "is_json (map_value (jb_input a))"
      "is_json (map_value (jb_meta a))" "jb_key a = []" "jb_batch a = B"
    and b: "new_job b" "times_ok valid_time b" "is_json (map_value (jb_input b))"
      "is_json (map_value (jb_meta b))" "jb_key b = []" "jb_batch b = B"
    and ids: "jb_id a \<noteq> jb_id b" "B \<noteq> []" "jb_created a < jb_created b"
  shows "fst (sqlite_list_by_batch
           (snd (sqlite_insert (snd (sqlite_insert empty_db a [])) b [])) B)
    = Inr (if same_second (jb_created a) (jb_created b)
              \<and> prefix (frac_digits (jb_created a)) (frac_digits (jb_created b))
           then [stored_as id b, stored_as id a] else [stored_as id a, stored_as id b])"
proof -
  let ?ra = "insert_row a [] (map_value (jb_input a)) (map_value (jb_meta a))"
  let ?rb = "insert_row b [] (map_value (jb_input b)) (map_value (jb_meta b))"
  have v: "valid_time (jb_created a)" "valid_time (jb_created b)"
    using a(2) b(2) by (auto simp: times_ok_def)
  have ord: "fmt_time (jb_created a) \<le> fmt_time (jb_created b) \<longleftrightarrow>
      \<not> (same_second (jb_created a) (jb_created b)
         \<and> prefix (frac_digits (jb_created a)) (frac_digits (jb_created b)))"
    by (rule fmt_time_order_le[OF v ids(3)])
  have scan: "scan_sqlite_job ?ra = Inr (stored_as id a)" "scan_sqlite_job ?rb = Inr (stored_as id b)"
    using scan_insert_row[of a _ _] scan_insert_row[of b _ _] a b
    by (auto simp: sqlite_read_Inr is_json_def)
  have "sqlite_insert empty_db a [] = (Inr (a, True), \<lparr>db_rows = [?ra], db_net = []\<rparr>)"
    using a(3,4) by (simp add: sqlite_insert_def is_json_def empty_db_def exec_stmt_def draw_def
        exec_insert_fresh insert_row_simps)
  moreover have "sqlite_insert \<lparr>db_rows = [?ra], db_net = []\<rparr> b []
      = (Inr (b, True), \<lparr>db_rows = [?ra, ?rb], db_net = []\<rparr>)"
    using b(3,4) ids(1) by (simp add: sqlite_insert_def is_json_def exec_stmt_def draw_def
        exec_insert_fresh insert_row_simps)
  ultimately show ?thesis
    using a(6) b(6) ids(2) ord scan
    by (simp add: sqlite_list_by_batch_def query_def exec_stmt_def draw_def insert_row_simps
        nullable_string_def)
qed

text \<open>
  Half a second after a whole second is listed before the whole second.
\<close>

lemma sqlite_batch_order_witness:
  "fst (sqlite_list_by_batch
      (snd (sqlite_insert (snd (sqlite_insert empty_db (sample_job ''first'' [] ''batch'' 0) []))
              (sample_job ''second'' [] ''batch'' 500000000) [])) ''batch'')
    = Inr [sample_job ''second'' [] ''batch'' 500000000, sample_job ''first'' [] ''batch'' 0]"
proof -
  have z: "frac_digits (GTime 2025 1 2 3 4 5 0) = []" by (rule frac_digits_zero) simp
  have lt: "GTime 2025 1 2 3 4 5 0 < GTime 2025 1 2 3 4 5 500000000"
    by (simp add: time_less_iff same_second_def)
  show ?thesis
    using sqlite_batch_order[of "sample_job ''first'' [] ''batch'' 0" "''batch''"
        "sample_job ''second'' [] ''batch'' 500000000"] sample_job_ok lt z
    by (simp add: same_second_def is_json_def map_value_def)
qed

end
