(* ===== verification/Postgres_Store.thy ===== *)
theory Postgres_Store
  imports Row_Table
begin

text \<open>
  The PostgreSQL store, \<^verbatim>\<open>cmd/agent-desk/store_postgres.go\<close>. The columns have native times;
  the server keeps them at its own precision, a function \<open>st\<close> that every operation takes as
  an argument. The insert is one statement that either adds the row or returns the row that
  already owns the (tool, key) pair, and says which.
\<close>

subsection \<open>Rows\<close>

record pg_row =
  pr_id :: string
  pr_tool :: string
  pr_key :: "string option"
  pr_input :: gval
  pr_meta :: "gval option"
  pr_status :: job_status
  pr_attempt :: int
  pr_max_retries :: int
  pr_result :: "gval option"
  pr_error :: "string option"
  pr_created :: gtime
  pr_started :: "gtime option"
  pr_finished :: "gtime option"
  pr_batch :: "string option"
  pr_acked :: bool
  pr_acked_at :: "gtime option"

type_synonym pg_db = "pg_row db"

definition scan_json_map :: "string \<Rightarrow> gval option \<Rightarrow> (store_error, gmap) result" where
  "scan_json_map col v =
     (case v of
        None \<Rightarrow> Inr None
      | Some w \<Rightarrow> (case value_map w of None \<Rightarrow> Inl (ScanError col) | Some m \<Rightarrow> Inr m))"

definition scan_postgres_job :: "pg_row \<Rightarrow> (store_error, job) result" where
  "scan_postgres_job r =
     (case scan_json_map ''input'' (Some (pr_input r)) of Inl e \<Rightarrow> Inl e | Inr input \<Rightarrow>
     (case scan_json_map ''meta'' (pr_meta r) of Inl e \<Rightarrow> Inl e | Inr meta \<Rightarrow>
      Inr \<lparr>jb_id = pr_id r, jb_tool = pr_tool r, jb_key = null_string (pr_key r),
           jb_batch = null_string (pr_batch r), jb_input = input, jb_meta = meta,
           jb_status = pr_status r, jb_attempt = pr_attempt r, jb_max_retries = pr_max_retries r,
           jb_result = (case pr_result r of None \<Rightarrow> GNull | Some v \<Rightarrow> v),
           jb_error = null_string (pr_error r), jb_created = pr_created r,
           jb_started = pr_started r, jb_finished = pr_finished r, jb_acked = pr_acked r,
           jb_acked_at = pr_acked_at r\<rparr>))"

subsection \<open>Operations\<close>

definition pg_insert_row :: "(gtime \<Rightarrow> gtime) \<Rightarrow> job \<Rightarrow> string \<Rightarrow> gval \<Rightarrow> gval \<Rightarrow> pg_row" where
  "pg_insert_row st j key input_json meta_json =
     \<lparr>pr_id = jb_id j, pr_tool = jb_tool j, pr_key = (if key \<noteq> [] then Some key else None),
      pr_input = input_json, pr_meta = Some meta_json, pr_status = jb_status j,
      pr_attempt = jb_attempt j, pr_max_retries = jb_max_retries j, pr_result = None,
      pr_error = None, pr_created = st (jb_created j), pr_started = None, pr_finished = None,
      pr_batch = nullable_string (jb_batch j), pr_acked = False, pr_acked_at = None\<rparr>"

text \<open>The returned row and \<^verbatim>\<open>inserted\<close>, or the error of a taken primary key.\<close>

definition exec_upsert :: "pg_row \<Rightarrow> pg_row list \<Rightarrow> (store_error, pg_row \<times> bool) result \<times> pg_row list" where
  "exec_upsert r rows =
     (case (if pr_key r = None then None
            else find (\<lambda>q. pr_tool q = pr_tool r \<and> pr_key q = pr_key r) rows) of
        Some q \<Rightarrow> (Inr (q, False), rows)
      | None \<Rightarrow>
          if pr_id r \<in> pr_id ` set rows then (Inl DbError, rows)
          else (Inr (r, True), rows @ [r]))"

definition postgres_insert ::
    "(gtime \<Rightarrow> gtime) \<Rightarrow> pg_db \<Rightarrow> job \<Rightarrow> string \<Rightarrow> (store_error, job \<times> bool) result \<times> pg_db" where
  "postgres_insert st db j key =
     (case json_value (map_value (jb_input j)) of
        None \<Rightarrow> (Inl (MarshalError ''input''), db)
      | Some input_json \<Rightarrow>
     (case json_value (map_value (jb_meta j)) of
        None \<Rightarrow> (Inl (MarshalError ''meta''), db)
      | Some meta_json \<Rightarrow>
     (case exec_stmt (exec_upsert (pg_insert_row st j key input_json meta_json)) db of
        (Inl e, db1) \<Rightarrow> (Inl e, db1)
      | (Inr (row, inserted), db1) \<Rightarrow>
          (case scan_postgres_job row of
             Inl e \<Rightarrow> (Inl e, db1)
           | Inr got \<Rightarrow> (Inr (got, inserted), db1)))))"

definition pg_update_row :: "(gtime \<Rightarrow> gtime) \<Rightarrow> job \<Rightarrow> gval option \<Rightarrow> pg_row \<Rightarrow> pg_row" where
  "pg_update_row st j result_json r =
     r\<lparr>pr_status := jb_status j, pr_attempt := jb_attempt j, pr_result := result_json,
       pr_error := nullable_string (jb_error j), pr_started := map_option st (jb_started j),
       pr_finished := map_option st (jb_finished j)\<rparr>"

definition postgres_update ::
    "(gtime \<Rightarrow> gtime) \<Rightarrow> pg_db \<Rightarrow> job \<Rightarrow> (store_error, unit) result \<times> pg_db" where
  "postgres_update st db j =
     (case marshal_nullable (jb_result j) of
        None \<Rightarrow> (Inl (MarshalError ''result''), db)
      | Some result_json \<Rightarrow>
          exec_stmt
            (\<lambda>rows. (Inr (), rewrite_row pr_id (jb_id j) (pg_update_row st j result_json) rows)) db)"

definition pg_ack_row :: "(gtime \<Rightarrow> gtime) \<Rightarrow> gtime \<Rightarrow> pg_row \<Rightarrow> pg_row" where
  "pg_ack_row st tm r = r\<lparr>pr_acked := True, pr_acked_at := Some (st tm)\<rparr>"

definition postgres_ack ::
    "(gtime \<Rightarrow> gtime) \<Rightarrow> pg_db \<Rightarrow> string \<Rightarrow> gtime \<Rightarrow> (store_error, unit) result \<times> pg_db" where
  "postgres_ack st db i tm =
     exec_stmt (\<lambda>rows. (Inr (), rewrite_row pr_id i (pg_ack_row st tm) rows)) db"

definition postgres_get :: "pg_db \<Rightarrow> string \<Rightarrow> (store_error, job option) result \<times> pg_db" where
  "postgres_get db i =
     query (\<lambda>rows. case find (\<lambda>r. pr_id r = i) rows of
                     None \<Rightarrow> Inr None
                   | Some r \<Rightarrow> (case scan_postgres_job r of Inl e \<Rightarrow> Inl e | Inr j \<Rightarrow> Inr (Some j))) db"

definition postgres_load_incomplete :: "pg_db \<Rightarrow> (store_error, job list) result \<times> pg_db" where
  "postgres_load_incomplete db =
     query (\<lambda>rows. map_result scan_postgres_job
              (sort_key pr_created (filter (\<lambda>r. pr_status r = Queued \<or> pr_status r = Running) rows))) db"

definition pg_sort_column :: "pg_row \<Rightarrow> gtime" where
  "pg_sort_column r = (case pr_finished r of Some t \<Rightarrow> t | None \<Rightarrow> pr_created r)"

definition postgres_list_unacked :: "pg_db \<Rightarrow> int \<Rightarrow> (store_error, job list) result \<times> pg_db" where
  "postgres_list_unacked db limit =
     (let n = (if limit \<le> 0 then 50 else nat limit) in
      query (\<lambda>rows. map_result scan_postgres_job
               (take n (sort_desc pg_sort_column
                 (filter (\<lambda>r. \<not> pr_acked r \<and> (pr_status r = Done \<or> pr_status r = Failed
                                \<or> pr_status r = Canceled)) rows)))) db)"

definition postgres_list_by_batch :: "pg_db \<Rightarrow> string \<Rightarrow> (store_error, job list) result \<times> pg_db" where
  "postgres_list_by_batch db b =
     query (\<lambda>rows. map_result scan_postgres_job
              (sort_key pr_created (filter (\<lambda>r. pr_batch r = Some b) rows))) db"

definition postgres_ops :: "(gtime \<Rightarrow> gtime) \<Rightarrow> pg_db store_ops" where
  "postgres_ops st =
     \<lparr>so_insert = postgres_insert st, so_update = postgres_update st, so_ack = postgres_ack st,
      so_get = postgres_get, so_load_incomplete = postgres_load_incomplete,
      so_list_unacked = postgres_list_unacked, so_list_by_batch = postgres_list_by_batch\<rparr>"

lemma postgres_ops_simps [simp]:
  "so_insert (postgres_ops st) = postgres_insert st" "so_update (postgres_ops st) = postgres_update st"
  "so_ack (postgres_ops st) = postgres_ack st" "so_get (postgres_ops st) = postgres_get"
  "so_load_incomplete (postgres_ops st) = postgres_load_incomplete"
  "so_list_unacked (postgres_ops st) = postgres_list_unacked"
  "so_list_by_batch (postgres_ops st) = postgres_list_by_batch"
  by (simp_all add: postgres_ops_def)

subsection \<open>Rows and jobs\<close>

definition pg_read :: "pg_row \<Rightarrow> job option" where
  "pg_read r = result_option (scan_postgres_job r)"

lemma pg_read_scan: "pg_read = (\<lambda>r. result_option (scan_postgres_job r))"
  by (simp add: pg_read_def fun_eq_iff)

definition pg_view :: "pg_db \<Rightarrow> job_view" where
  "pg_view db = table_view pr_id pg_read (db_rows db)"

definition pg_ok :: "pg_db \<Rightarrow> bool" where
  "pg_ok db \<longleftrightarrow> table_ok pr_id pg_read (db_rows db)
     \<and> (\<forall>r\<in>set (db_rows db). pr_key r \<noteq> Some [] \<and> pr_batch r \<noteq> Some [])"

lemma pg_read_iff:
  "pg_read r = Some k \<longleftrightarrow>
     scan_json_map ''input'' (Some (pr_input r)) = Inr (jb_input k)
   \<and> scan_json_map ''meta'' (pr_meta r) = Inr (jb_meta k)
   \<and> jb_id k = pr_id r \<and> jb_tool k = pr_tool r \<and> jb_key k = null_string (pr_key r)
   \<and> jb_batch k = null_string (pr_batch r) \<and> jb_status k = pr_status r
   \<and> jb_attempt k = pr_attempt r \<and> jb_max_retries k = pr_max_retries r
   \<and> jb_result k = (case pr_result r of None \<Rightarrow> GNull | Some v \<Rightarrow> v)
   \<and> jb_error k = null_string (pr_error r) \<and> jb_created k = pr_created r
   \<and> jb_started k = pr_started r \<and> jb_finished k = pr_finished r
   \<and> jb_acked k = pr_acked r \<and> jb_acked_at k = pr_acked_at r"
  unfolding pg_read_def scan_postgres_job_def result_option_def
  by (cases k) (simp split: sum.split, blast)

lemma pg_read_Inr: "scan_postgres_job r = Inr k \<longleftrightarrow> pg_read r = Some k"
  by (simp add: pg_read_def result_option_Some)

lemma scan_pg_insert_row:
  assumes "json_value (map_value (jb_input j)) = Some vi" "json_value (map_value (jb_meta j)) = Some vm"
    and "new_job j"
  shows "pg_read (pg_insert_row st j (jb_key j) vi vm) = Some (stored_as st j)"
  using assms json_value_map[OF assms(1)] json_value_map[OF assms(2)] unfolding pg_read_iff
  by (simp add: pg_insert_row_def scan_json_map_def null_string_def nullable_string_def
      stored_as_def new_job_def norm_value_def)

lemma scan_pg_update_row:
  assumes "marshal_nullable (jb_result j) = Some w" "pg_read r = Some k"
  shows "pg_read (pg_update_row st j w r) = Some (set_lifecycle (stored_as st j) k)"
  using assms(2) marshal_nullable_norm[OF assms(1)] unfolding pg_read_iff
  by (simp add: pg_update_row_def set_lifecycle_def stored_as_def)

lemma scan_pg_ack_row:
  assumes "pg_read r = Some k"
  shows "pg_read (pg_ack_row st tm r) = Some (set_ack (st tm) k)"
  using assms unfolding pg_read_iff by (simp add: pg_ack_row_def set_ack_def)

subsection \<open>The contract holds\<close>

lemma pg_ok_rows: "db_rows db' = db_rows db \<Longrightarrow> pg_ok db \<Longrightarrow> pg_ok db' \<and> pg_view db' = pg_view db"
  by (simp add: pg_ok_def pg_view_def)

lemma pg_ok_readable: "pg_ok db \<Longrightarrow> r \<in> set (db_rows db) \<Longrightarrow> \<exists>k. pg_read r = Some k \<and> jb_id k = pr_id r"
  by (auto simp: pg_ok_def table_ok_def)

lemma pg_distinct: "pg_ok db \<Longrightarrow> distinct (map pr_id (db_rows db))"
  by (simp add: pg_ok_def table_ok_def)

lemma pg_append_row:
  assumes ok: "pg_ok db" and j: "new_job j"
    and v: "json_value (map_value (jb_input j)) = Some vi" "json_value (map_value (jb_meta j)) = Some vm"
    and row: "row = pg_insert_row st j (jb_key j) vi vm"
    and fresh: "pr_id row \<notin> pr_id ` set (db_rows db)"
    and free: "pr_key row \<noteq> None \<Longrightarrow>
      find (\<lambda>q. pr_tool q = pr_tool row \<and> pr_key q = pr_key row) (db_rows db) = None"
    and db': "db_rows db' = db_rows db @ [row]"
  shows "pg_ok db' \<and> pg_view db (jb_id j) = None
    \<and> pg_view db' = (pg_view db)(jb_id j \<mapsto> stored_as st j)"
proof -
  have rd: "pg_read row = Some (stored_as st j)" unfolding row by (rule scan_pg_insert_row[OF v j])
  have id: "pr_id row = jb_id j" by (simp add: row pg_insert_row_def)
  have t: "table_ok pr_id pg_read (db_rows db)" using ok by (simp add: pg_ok_def)
  have other: "\<not> (jb_tool k = jb_tool (stored_as st j) \<and> jb_key k = jb_key (stored_as st j))"
    if "q \<in> set (db_rows db)" "pg_read q = Some k" "jb_key (stored_as st j) \<noteq> []" for q k
    using free that null_string_key[of "pr_key q" "jb_key j"]
    by (auto simp: row pg_insert_row_def pg_read_iff find_None_iff)
  have "table_ok pr_id pg_read (db_rows db @ [row])"
    by (rule table_ok_append[OF t fresh rd]) (use id other in auto)
  moreover have "pr_key row \<noteq> Some [] \<and> pr_batch row \<noteq> Some []"
    by (simp add: row pg_insert_row_def nullable_string_def)
  moreover have "pg_view db' = (pg_view db)(jb_id j \<mapsto> stored_as st j)"
    using table_view_append[OF fresh, of pg_read] by (simp add: pg_view_def db' id rd)
  moreover have "pg_view db (jb_id j) = None"
    using fresh by (simp add: pg_view_def table_view_None[OF t] id)
  ultimately show ?thesis using ok db' by (simp add: pg_ok_def)
qed

text \<open>The upsert met a conflict: the row it gives back is the job that holds the key.\<close>

lemma pg_conflict_job:
  assumes "pg_ok db" "q \<in> set (db_rows db)"
    and "pr_tool q = pr_tool (pg_insert_row st j (jb_key j) vi vm)"
    and "pr_key q = pr_key (pg_insert_row st j (jb_key j) vi vm)" "pr_key q \<noteq> None"
  shows "\<exists>k. scan_postgres_job q = Inr k \<and> jb_key j \<noteq> [] \<and> pg_view db (jb_id k) = Some k
    \<and> jb_tool k = jb_tool j \<and> jb_key k = jb_key j"
proof -
  obtain k where k: "pg_read q = Some k" "jb_id k = pr_id q"
    using pg_ok_readable[OF assms(1)] assms(2) by blast
  have scan: "scan_postgres_job q = Inr k" using k(1) by (simp add: pg_read_Inr)
  have "pg_view db (jb_id k) = Some k"
    using table_view_iff[OF pg_distinct[OF assms(1)], of pg_read "jb_id k" k] assms(2) k by (auto simp: pg_view_def)
  moreover have "jb_tool k = pr_tool q" "jb_key k = null_string (pr_key q)" using k(1) by (auto simp: pg_read_iff)
  moreover have "pr_tool q = jb_tool j" "pr_key q = Some (jb_key j)" "jb_key j \<noteq> []"
    using assms(3-5) by (simp_all add: pg_insert_row_def split: if_splits)
  ultimately show ?thesis using scan by (simp add: null_string_def)
qed

lemma postgres_insert_cases:
  assumes ok: "pg_ok db" and j: "new_job j"
    and ins: "postgres_insert st db j (jb_key j) = (r, db')"
  shows "(r = Inr (stored_as st j, True) \<or> \<not> is_ok r) \<and> pg_ok db' \<and> pg_view db (jb_id j) = None
           \<and> pg_view db' = (pg_view db)(jb_id j \<mapsto> stored_as st j)
       \<or> (\<exists>j'. r = Inr (j', False) \<and> jb_key j \<noteq> [] \<and> pg_view db (jb_id j') = Some j'
            \<and> jb_tool j' = jb_tool j \<and> jb_key j' = jb_key j)
           \<and> pg_ok db' \<and> pg_view db' = pg_view db
       \<or> \<not> is_ok r \<and> pg_ok db' \<and> pg_view db' = pg_view db"
proof (cases "json_value (map_value (jb_input j)) = None \<or> json_value (map_value (jb_meta j)) = None")
  case True
  with ins ok show ?thesis by (auto simp: postgres_insert_def split: option.splits)
next
  case False
  then obtain vi vm where v: "json_value (map_value (jb_input j)) = Some vi"
    "json_value (map_value (jb_meta j)) = Some vm" by auto
  let ?row = "pg_insert_row st j (jb_key j) vi vm"
  obtain r1 db1 where e: "exec_stmt (exec_upsert ?row) db = (r1, db1)" by fastforce
  have db': "db' = db1"
    using ins v e by (auto simp: postgres_insert_def split: sum.splits)
  have r: "r = (case r1 of Inl e \<Rightarrow> Inl e | Inr (row, b) \<Rightarrow>
      (case scan_postgres_job row of Inl e \<Rightarrow> Inl e | Inr got \<Rightarrow> Inr (got, b)))"
    using ins v e by (auto simp: postgres_insert_def split: sum.splits)
  let ?found = "if pr_key ?row = None then None
    else find (\<lambda>q. pr_tool q = pr_tool ?row \<and> pr_key q = pr_key ?row) (db_rows db)"
  show ?thesis
  proof (cases "?found")
    case (Some q)
    with exec_stmt_cases[OF e] have s: "db_rows db1 = db_rows db" "r1 = Inr (q, False) \<or> \<not> is_ok r1"
      by (auto simp: exec_upsert_def)
    have same: "pg_ok db' \<and> pg_view db' = pg_view db" unfolding db' by (rule pg_ok_rows[OF s(1) ok])
    have "q \<in> set (db_rows db) \<and> pr_tool q = pr_tool ?row \<and> pr_key q = pr_key ?row \<and> pr_key ?row \<noteq> None"
      using Some find_in by (fastforce split: if_splits)
    with pg_conflict_job[OF ok] obtain k where "scan_postgres_job q = Inr k" "jb_key j \<noteq> []"
      "pg_view db (jb_id k) = Some k" "jb_tool k = jb_tool j" "jb_key k = jb_key j" by metis
    with s(2) same r show ?thesis by (cases r1) auto
  next
    case None
    show ?thesis
    proof (cases "db_rows db1 = db_rows db")
      case True
      have "\<not> is_ok r1"
        using exec_stmt_cases[OF e] True None by (auto simp: exec_upsert_def split: if_splits)
      then have "\<not> is_ok r" unfolding r by (cases r1) auto
      with pg_ok_rows[OF True ok] show ?thesis unfolding db' by blast
    next
      case False
      with exec_stmt_cases[OF e] None
      have f: "pr_id ?row \<notin> pr_id ` set (db_rows db)" "db_rows db1 = db_rows db @ [?row]"
        "r1 = Inr (?row, True) \<or> \<not> is_ok r1"
        by (auto simp: exec_upsert_def split: if_splits)
      have free: "pr_key ?row \<noteq> None \<Longrightarrow>
          find (\<lambda>q. pr_tool q = pr_tool ?row \<and> pr_key q = pr_key ?row) (db_rows db) = None"
        using None by (simp split: if_splits)
      have "scan_postgres_job ?row = Inr (stored_as st j)"
        using scan_pg_insert_row[OF v j] by (simp add: pg_read_Inr)
      with f(3) have "r = Inr (stored_as st j, True) \<or> \<not> is_ok r" unfolding r by (cases r1) auto
      with pg_append_row[OF ok j v refl f(1) free f(2)] show ?thesis unfolding db' by blast
    qed
  qed
qed

lemma pg_rewrite:
  assumes ok: "pg_ok db" and key: "\<And>r. pr_id (f r) = pr_id r"
    and cols: "\<And>r. pr_key (f r) = pr_key r \<and> pr_batch (f r) = pr_batch r"
    and rd: "\<And>r k. pg_read r = Some k \<Longrightarrow> pg_read (f r) = Some (g k)"
    and id: "\<And>j. jb_id (g j) = jb_id j"
    and v: "view_ok ((pg_view db)(i := map_option g (pg_view db i)))"
    and e: "exec_stmt (\<lambda>rows. (Inr (), rewrite_row pr_id i f rows)) db = (r, db')"
  shows "pg_ok db' \<and> (pg_view db' = (pg_view db)(i := map_option g (pg_view db i))
      \<or> pg_view db' = pg_view db \<and> \<not> is_ok r)"
proof -
  let ?rows' = "rewrite_row pr_id i f (db_rows db)"
  have t: "table_ok pr_id pg_read (db_rows db)" using ok by (simp add: pg_ok_def)
  have rd': "pg_read (f r) = map_option g (pg_read r)" if "r \<in> set (db_rows db)" for r
    using pg_ok_readable[OF ok that] rd by auto
  have tv: "table_view pr_id pg_read ?rows' = (pg_view db)(i := map_option g (pg_view db i))"
    using table_view_rewrite[of pr_id f "db_rows db" i pg_read g, OF key rd'] by (simp add: pg_view_def)
  have "table_ok pr_id pg_read ?rows'"
    by (rule table_ok_rewrite[of pr_id pg_read "db_rows db" f i g, OF t key rd' id])
       (use v in \<open>simp_all add: pg_view_def\<close>)
  moreover have "\<forall>r\<in>set ?rows'. pr_key r \<noteq> Some [] \<and> pr_batch r \<noteq> Some []"
    using ok by (auto simp: rewrite_row_def pg_ok_def cols)
  ultimately have new: "pg_ok d" if "db_rows d = ?rows'" for d
    using that by (simp add: pg_ok_def)
  from exec_stmt_cases[OF e] show ?thesis
    using new[of db'] tv pg_ok_rows[of db' db] ok by (auto simp: pg_view_def)
qed

lemma postgres_update_view:
  assumes ok: "pg_ok db" and u: "postgres_update st db j = (r, db')"
  shows "pg_ok db' \<and> (pg_view db' = view_update (pg_view db) (stored_as st j)
      \<or> pg_view db' = pg_view db \<and> \<not> is_ok r)"
proof (cases "marshal_nullable (jb_result j)")
  case None
  with u ok show ?thesis by (auto simp: postgres_update_def)
next
  case (Some w)
  have v: "view_ok (view_update (pg_view db) (stored_as st j))"
    using ok by (intro view_ok_update) (simp add: pg_ok_def pg_view_def table_ok_view)
  show ?thesis
    using pg_rewrite[OF ok, of "pg_update_row st j w" "set_lifecycle (stored_as st j)" "jb_id j" r db']
      scan_pg_update_row[OF Some] v u Some
    by (simp add: pg_update_row_def postgres_update_def view_update_def)
qed

lemma postgres_ack_view:
  assumes ok: "pg_ok db" and u: "postgres_ack st db i tm = (r, db')"
  shows "pg_ok db' \<and> (pg_view db' = view_ack (pg_view db) i (st tm)
      \<or> pg_view db' = pg_view db \<and> \<not> is_ok r)"
proof -
  have v: "view_ok (view_ack (pg_view db) i (st tm))"
    using ok by (intro view_ok_ack) (simp add: pg_ok_def pg_view_def table_ok_view)
  show ?thesis
    using pg_rewrite[OF ok, of "pg_ack_row st tm" "set_ack (st tm)" i r db']
      scan_pg_ack_row v u
    by (simp add: pg_ack_row_def postgres_ack_def view_ack_def)
qed

lemma postgres_get_view:
  assumes ok: "pg_ok db" and q: "postgres_get db i = (r, db')"
  shows "pg_ok db' \<and> pg_view db' = pg_view db \<and> (r = Inr (pg_view db i) \<or> \<not> is_ok r)"
proof -
  from query_cases[OF q[unfolded postgres_get_def]]
  have s: "db_rows db' = db_rows db" and r: "r = (case find (\<lambda>r. pr_id r = i) (db_rows db) of
      None \<Rightarrow> Inr None
    | Some r \<Rightarrow> (case scan_postgres_job r of Inl e \<Rightarrow> Inl e | Inr j \<Rightarrow> Inr (Some j))) \<or> \<not> is_ok r" by auto
  have "r = Inr (pg_view db i) \<or> \<not> is_ok r"
    using r by (auto simp: pg_view_def table_view_def pg_read_def split: option.splits sum.splits)
  with pg_ok_rows[OF s ok] show ?thesis by blast
qed

lemma pg_query_same: "pg_ok db \<Longrightarrow> query f db = (r, db') \<Longrightarrow> pg_ok db' \<and> pg_view db' = pg_view db"
  using query_cases pg_ok_rows by metis

lemma postgres_load_incomplete_view:
  assumes ok: "pg_ok db" and q: "postgres_load_incomplete db = (Inr js, db')"
  shows "distinct (map jb_id js) \<and> (\<forall>j. j \<in> set js \<longleftrightarrow> pg_view db (jb_id j) = Some j \<and> incomplete j)"
  unfolding pg_view_def pg_read_scan
  by (rule list_select[OF _ q[unfolded postgres_load_incomplete_def]])
     (use ok in \<open>auto simp: pg_ok_def pg_read_scan[symmetric] pg_read_Inr pg_read_iff incomplete_def\<close>)

lemma postgres_list_by_batch_view:
  assumes ok: "pg_ok db" and b: "b \<noteq> []" and q: "postgres_list_by_batch db b = (Inr js, db')"
  shows "distinct (map jb_id js) \<and> (\<forall>j. j \<in> set js \<longleftrightarrow> pg_view db (jb_id j) = Some j \<and> jb_batch j = b)"
  unfolding pg_view_def pg_read_scan
  by (rule list_select[OF _ q[unfolded postgres_list_by_batch_def]])
     (use ok b null_string_key in
       \<open>auto simp: pg_ok_def pg_read_scan[symmetric] pg_read_Inr pg_read_iff null_string_def\<close>)

lemma postgres_list_unacked_view:
  assumes ok: "pg_ok db" and q: "postgres_list_unacked db n = (Inr js, db')"
  shows "distinct (map jb_id js) \<and> length js \<le> (if n \<le> 0 then 50 else nat n)
    \<and> (\<forall>j\<in>set js. pg_view db (jb_id j) = Some j \<and> in_inbox j)
    \<and> (length js < (if n \<le> 0 then 50 else nat n) \<longrightarrow>
         (\<forall>i j. pg_view db i = Some j \<longrightarrow> in_inbox j \<longrightarrow> j \<in> set js))"
  unfolding pg_view_def pg_read_scan
  by (rule list_select_limit[OF _ q[unfolded postgres_list_unacked_def Let_def]])
     (use ok in \<open>auto simp: pg_ok_def pg_read_scan[symmetric] pg_read_Inr pg_read_iff
        in_inbox_def is_terminal_def\<close>)

interpretation pg: job_store "postgres_ops st" pg_view pg_ok st "\<lambda>t. True"
  for st :: "gtime \<Rightarrow> gtime"
proof (unfold_locales, unfold postgres_ops_simps, goal_cases)
  case (1 s)
  then show ?case by (simp add: pg_ok_def pg_view_def table_ok_view)
next
  case (2 s j j' s')
  from postgres_insert_cases[OF 2(1,2,4)] show ?case by auto
next
  case (3 s j j' s')
  from postgres_insert_cases[OF 3(1,2,4)] show ?case by auto
next
  case (4 s j e s')
  from postgres_insert_cases[OF 4(1,2,4)] show ?case by auto
next
  case (5 s j r s')
  show ?case by (rule postgres_update_view[OF 5(1,3)])
next
  case (6 s tm i r s')
  show ?case by (rule postgres_ack_view[OF 6(1,3)])
next
  case (7 s i rg s')
  then show ?case by (rule postgres_get_view)
next
  case (8 s rl s')
  then show ?case
    using pg_query_same[OF 8(1)] postgres_load_incomplete_view[OF 8(1)] by (auto simp: postgres_load_incomplete_def)
next
  case (9 s n rl s')
  have "pg_ok s' \<and> pg_view s' = pg_view s"
    by (rule pg_query_same[OF 9(1) 9(2)[unfolded postgres_list_unacked_def Let_def]])
  with postgres_list_unacked_view[OF 9(1)] 9(2) show ?case by blast
next
  case (10 s b rl s')
  then show ?case
    using pg_query_same[OF 10(1)] postgres_list_by_batch_view[OF 10(1)] by (auto simp: postgres_list_by_batch_def)
qed

subsection \<open>Properties\<close>

lemma list_all2_created:
  "list_all2 (\<lambda>r j. scan_postgres_job r = Inr j) rs js \<Longrightarrow> map jb_created js = map pr_created rs"
  by (induction rule: list_all2_induct) (auto simp: pg_read_Inr pg_read_iff)




definition sample_pg :: pg_db where
  "sample_pg = \<lparr>db_rows = [pg_insert_row id (sample_job ''a'' ''k'' [] 0) ''k'' (GObj []) GNull],
                 db_net = [DbLost]\<rparr>"

lemma sample_pg_insert:
  "postgres_insert id \<lparr>db_rows = [], db_net = [DbOk, DbLost]\<rparr> (sample_job ''a'' ''k'' [] 0) ''k''
     = (Inr (sample_job ''a'' ''k'' [] 0, True), sample_pg)"
proof -
  let ?row = "pg_insert_row id (sample_job ''a'' ''k'' [] 0) ''k'' (GObj []) GNull"
  have r: "scan_postgres_job ?row = Inr (sample_job ''a'' ''k'' [] 0)"
    using scan_pg_insert_row[of "sample_job ''a'' ''k'' [] 0" "GObj []" GNull id] sample_job_ok
    by (simp add: pg_read_Inr map_value_def)
  show ?thesis
    by (simp add: postgres_insert_def exec_stmt_def draw_def exec_upsert_def map_value_def
        sample_pg_def r)
qed

lemma sample_pg_resubmit:
  "postgres_insert id (run_calls (postgres_ops id) sample_pg [CAck ''a'' tm])
       (sample_job ''b'' ''k'' [] 7) ''k''
     = (Inr (set_ack tm (sample_job ''a'' ''k'' [] 0), False),
        \<lparr>db_rows = [pg_ack_row id tm
                      (pg_insert_row id (sample_job ''a'' ''k'' [] 0) ''k'' (GObj []) GNull)],
         db_net = []\<rparr>)"
proof -
  let ?row = "pg_insert_row id (sample_job ''a'' ''k'' [] 0) ''k'' (GObj []) GNull"
  have r: "scan_postgres_job (pg_ack_row id tm ?row) = Inr (set_ack tm (sample_job ''a'' ''k'' [] 0))"
    using scan_pg_insert_row[of "sample_job ''a'' ''k'' [] 0" "GObj []" GNull id] sample_job_ok
      scan_pg_ack_row[of ?row _ id tm] by (simp add: pg_read_Inr map_value_def)
  have c: "pr_id ?row = ''a''" "pr_tool (pg_ack_row id tm ?row) = ''greet''"
    "pr_key (pg_ack_row id tm ?row) = Some ''k''"
    by (simp_all add: pg_insert_row_def pg_ack_row_def)
  have d: "pr_tool (pg_insert_row id (sample_job ''b'' ''k'' [] 7) ''k'' (GObj []) GNull) = ''greet''"
    "pr_key (pg_insert_row id (sample_job ''b'' ''k'' [] 7) ''k'' (GObj []) GNull) = Some ''k''"
    by (simp_all add: pg_insert_row_def)
  have s: "run_calls (postgres_ops id) sample_pg [CAck ''a'' tm]
      = \<lparr>db_rows = [pg_ack_row id tm ?row], db_net = []\<rparr>"
    by (simp add: sample_pg_def postgres_ack_def exec_stmt_def draw_def rewrite_row_def c)
  show ?thesis
    unfolding s
    by (simp add: postgres_insert_def exec_stmt_def draw_def exec_upsert_def map_value_def c d r)
qed


end
