(* ===== verification/Queue.thy ===== *)
theory Queue
  imports Job Tools
begin

text \<open>
  The job queue, \<^verbatim>\<open>cmd/agent-desk/queue.go\<close>. A job is a pointer into a heap: the map of
  jobs, the backlog, the channel and a worker's hand may hold the same pointer, and a write
  through one is seen through all. Every critical section of the code is one function; the
  operations compose them in the order of the code. The store is a \<open>store_ops\<close> record over
  the store state, absent for \<^verbatim>\<open>-store=memory\<close>. The clock, the random bytes of the ids and
  the outcome of running a tool are arguments.
\<close>

subsection \<open>State\<close>

definition zero_job :: job where
  "zero_job =
     \<lparr>jb_id = [], jb_tool = [], jb_key = [], jb_batch = [], jb_input = None, jb_meta = None,
      jb_status = Queued, jb_attempt = 0, jb_max_retries = 0, jb_result = GNull, jb_error = [],
      jb_created = GTime 1 1 1 0 0 0 0, jb_started = None, jb_finished = None,
      jb_acked = False, jb_acked_at = None\<rparr>"

record 's queue =
  q_heap :: "nat \<Rightarrow> job"
  q_next :: nat
  q_jobs :: "(string \<times> nat) list"
  q_pending :: "nat list"
  q_reserved :: nat
  q_ch :: "nat list"
  q_wake :: bool
  q_stopped :: bool
  q_cancels :: "string \<Rightarrow> nat option"
  q_next_ctx :: nat
  q_ctx_done :: "nat set"
  q_workers :: nat
  q_store :: "'s option"

definition max_pending :: nat where
  "max_pending = 10000"

definition ch_capacity :: nat where
  "ch_capacity = 256"

definition new_queue :: "int \<Rightarrow> 's option \<Rightarrow> 's queue" where
  "new_queue workers store =
     \<lparr>q_heap = (\<lambda>p. zero_job), q_next = 0, q_jobs = [], q_pending = [], q_reserved = 0, q_ch = [],
      q_wake = False, q_stopped = False, q_cancels = (\<lambda>i. None), q_next_ctx = 0, q_ctx_done = {},
      q_workers = (if workers < 1 then 1 else nat workers), q_store = store\<rparr>"

datatype queue_error =
    QueueFull
  | QueueStopped
  | PersistJob store_error
  | StoreFailed store_error
  | ResumeStopped
  | JobNotFound
  | JobNotTerminal

text \<open>The heap: a fresh object, an object's fields, an update in place.\<close>

definition new_object :: "job \<Rightarrow> 's queue \<Rightarrow> nat \<times> 's queue" where
  "new_object j q = (q_next q, q\<lparr>q_heap := (q_heap q)(q_next q := j), q_next := Suc (q_next q)\<rparr>)"

definition update_object :: "nat \<Rightarrow> (job \<Rightarrow> job) \<Rightarrow> 's queue \<Rightarrow> 's queue" where
  "update_object p f q = q\<lparr>q_heap := (q_heap q)(p := f (q_heap q p))\<rparr>"

text \<open>The Go map from ids to pointers.\<close>

definition put_job :: "string \<Rightarrow> nat \<Rightarrow> 's queue \<Rightarrow> 's queue" where
  "put_job i p q = q\<lparr>q_jobs := (i, p) # filter (\<lambda>(k, v). k \<noteq> i) (q_jobs q)\<rparr>"

definition lookup_job :: "'s queue \<Rightarrow> string \<Rightarrow> nat option" where
  "lookup_job q i = map_of (q_jobs q) i"

subsection \<open>Identifiers\<close>

definition id_bytes :: nat where
  "id_bytes = 16"

text \<open>A failure of the random source stops the process before an id is made.\<close>

definition new_id :: "string \<Rightarrow> 8 word list \<Rightarrow> string" where
  "new_id pre random = pre @ hex_encode random"

definition new_job_id :: "8 word list \<Rightarrow> string" where
  "new_job_id random = new_id ''job-'' random"

definition new_batch_id :: "8 word list \<Rightarrow> string" where
  "new_batch_id random = new_id ''batch-'' random"

subsection \<open>Admission and the backlog\<close>

definition reserve :: "'s queue \<Rightarrow> queue_error option \<times> 's queue" where
  "reserve q =
     (if q_stopped q then (Some QueueStopped, q)
      else if length (q_pending q) + q_reserved q \<ge> max_pending then (Some QueueFull, q)
      else (None, q\<lparr>q_reserved := q_reserved q + 1\<rparr>))"

definition release :: "'s queue \<Rightarrow> 's queue" where
  "release q = (if q_reserved q > 0 then q\<lparr>q_reserved := q_reserved q - 1\<rparr> else q)"

definition signal_wake :: "'s queue \<Rightarrow> 's queue" where
  "signal_wake q = q\<lparr>q_wake := True\<rparr>"

text \<open>The critical sections of \<^verbatim>\<open>enqueueReserved\<close> and \<^verbatim>\<open>requeue\<close>; the wake follows the unlock.\<close>

definition push_reserved :: "nat \<Rightarrow> 's queue \<Rightarrow> 's queue" where
  "push_reserved p q =
     (let q1 = (if q_reserved q > 0 then q\<lparr>q_reserved := q_reserved q - 1\<rparr> else q)
      in q1\<lparr>q_pending := q_pending q1 @ [p]\<rparr>)"

definition push_backlog :: "nat \<Rightarrow> 's queue \<Rightarrow> queue_error option \<times> 's queue" where
  "push_backlog p q =
     (if q_stopped q then (Some QueueStopped, q)
      else (None, q\<lparr>q_pending := q_pending q @ [p]\<rparr>))"

definition enqueue_reserved :: "nat \<Rightarrow> 's queue \<Rightarrow> 's queue" where
  "enqueue_reserved p q = signal_wake (push_reserved p q)"

definition requeue :: "nat \<Rightarrow> 's queue \<Rightarrow> queue_error option \<times> 's queue" where
  "requeue p q =
     (case push_backlog p q of
        (Some e, q1) \<Rightarrow> (Some e, q1)
      | (None, q1) \<Rightarrow> (None, signal_wake q1))"

text \<open>The dispatcher at an empty backlog takes the wake that is waiting, if one is.\<close>

definition take_wake :: "'s queue \<Rightarrow> 's queue option" where
  "take_wake q = (if q_wake q then Some (q\<lparr>q_wake := False\<rparr>) else None)"

text \<open>The dispatcher: take the head of the backlog, then hand it to the channel.\<close>

definition dispatch_take :: "'s queue \<Rightarrow> nat option \<times> 's queue" where
  "dispatch_take q =
     (case q_pending q of
        [] \<Rightarrow> (None, q)
      | p # ps \<Rightarrow> (Some p, q\<lparr>q_pending := ps\<rparr>))"

definition dispatch_send :: "nat \<Rightarrow> 's queue \<Rightarrow> 's queue option" where
  "dispatch_send p q =
     (if length (q_ch q) < ch_capacity then Some (q\<lparr>q_ch := q_ch q @ [p]\<rparr>) else None)"

definition worker_receive :: "'s queue \<Rightarrow> (nat \<times> 's queue) option" where
  "worker_receive q = (case q_ch q of [] \<Rightarrow> None | p # ps \<Rightarrow> Some (p, q\<lparr>q_ch := ps\<rparr>))"

subsection \<open>Persistence\<close>

definition persist :: "'s store_ops \<Rightarrow> job \<Rightarrow> 's queue \<Rightarrow> 's queue" where
  "persist ops j q =
     (case q_store q of
        None \<Rightarrow> q
      | Some s \<Rightarrow> q\<lparr>q_store := Some (snd (so_update ops s j))\<rparr>)"

definition persist_ack :: "'s store_ops \<Rightarrow> job \<Rightarrow> 's queue \<Rightarrow> 's queue" where
  "persist_ack ops j q =
     (case q_store q of
        None \<Rightarrow> q
      | Some s \<Rightarrow>
          (case jb_acked_at j of
             None \<Rightarrow> q
           | Some tm \<Rightarrow> q\<lparr>q_store := Some (snd (so_ack ops s (jb_id j) tm))\<rparr>))"

subsection \<open>Submitting\<close>

text \<open>A submission either ends in an error or with a private copy of the job.\<close>

definition make_job ::
    "8 word list \<Rightarrow> gtime \<Rightarrow> tool \<Rightarrow> gmap \<Rightarrow> gmap \<Rightarrow> string \<Rightarrow> string \<Rightarrow> job" where
  "make_job random now t input meta key batch =
     zero_job\<lparr>jb_id := new_job_id random, jb_tool := tl_name t, jb_key := key, jb_batch := batch,
       jb_input := input, jb_meta := meta, jb_status := Queued,
       jb_max_retries := ex_max_retries (tl_exec t), jb_created := now\<rparr>"

definition track_and_enqueue :: "job \<Rightarrow> 's queue \<Rightarrow> job \<times> 's queue" where
  "track_and_enqueue j q =
     (let (p, q1) = new_object j q;
          q2 = enqueue_reserved p (put_job (jb_id j) p q1)
      in (q_heap q2 p, q2))"

text \<open>The job already in the table is the live truth; the stored snapshot is tracked only if none is.\<close>

definition dedupe :: "job \<Rightarrow> 's queue \<Rightarrow> job \<times> 's queue" where
  "dedupe existing q =
     (case lookup_job q (jb_id existing) of
        Some p \<Rightarrow> (q_heap q p, q)
      | None \<Rightarrow> (let (p, q1) = new_object existing q in (existing, put_job (jb_id existing) p q1)))"

definition submit_job :: "'s store_ops \<Rightarrow> job \<Rightarrow> 's queue \<Rightarrow> (queue_error, job) result \<times> 's queue" where
  "submit_job ops j q =
     (case reserve q of
        (Some e, q1) \<Rightarrow> (Inl e, q1)
      | (None, q1) \<Rightarrow>
          (case q_store q1 of
             None \<Rightarrow> (let (cp, q2) = track_and_enqueue j q1 in (Inr cp, q2))
           | Some s \<Rightarrow>
               (case so_insert ops s j (jb_key j) of
                  (Inl e, s') \<Rightarrow> (Inl (PersistJob e), release (q1\<lparr>q_store := Some s'\<rparr>))
                | (Inr (existing, created), s') \<Rightarrow>
                    let q2 = q1\<lparr>q_store := Some s'\<rparr> in
                    if created then (let (cp, q3) = track_and_enqueue existing q2 in (Inr cp, q3))
                    else (let (cp, q3) = dedupe existing (release q2) in (Inr cp, q3)))))"

definition submit ::
    "'s store_ops \<Rightarrow> 8 word list \<Rightarrow> gtime \<Rightarrow> tool \<Rightarrow> gmap \<Rightarrow> gmap \<Rightarrow> string \<Rightarrow> string
     \<Rightarrow> 's queue \<Rightarrow> (queue_error, job) result \<times> 's queue" where
  "submit ops random now t input meta key batch q =
     submit_job ops (make_job random now t input meta key batch) q"

text \<open>
  A batch submits its items in turn and stops at the first error, returning what was
  accepted; each item has its own random bytes and time.
\<close>

fun submit_items ::
    "'s store_ops \<Rightarrow> tool \<Rightarrow> gmap \<Rightarrow> string \<Rightarrow> (8 word list \<times> gtime \<times> gmap) list \<Rightarrow> 's queue
     \<Rightarrow> job list \<times> queue_error option \<times> 's queue" where
  "submit_items ops t meta batch [] q = ([], None, q)"
| "submit_items ops t meta batch ((random, now, input) # items) q =
     (case submit ops random now t input meta [] batch q of
        (Inl e, q1) \<Rightarrow> ([], Some e, q1)
      | (Inr j, q1) \<Rightarrow>
          (case submit_items ops t meta batch items q1 of (js, e, q2) \<Rightarrow> (j # js, e, q2)))"

definition submit_batch ::
    "'s store_ops \<Rightarrow> 8 word list \<Rightarrow> tool \<Rightarrow> gmap \<Rightarrow> (8 word list \<times> gtime \<times> gmap) list \<Rightarrow> 's queue
     \<Rightarrow> string \<times> job list \<times> queue_error option \<times> 's queue" where
  "submit_batch ops random t meta items q =
     (let b = new_batch_id random in (b, submit_items ops t meta b items q))"

subsection \<open>Recovery\<close>

fun resume_jobs :: "job list \<Rightarrow> 's queue \<Rightarrow> queue_error option \<times> 's queue" where
  "resume_jobs [] q = (None, q)"
| "resume_jobs (j # js) q =
     (let j' = j\<lparr>jb_status := Queued\<rparr>;
          (p, q1) = new_object j' q;
          (e, q2) = requeue p (put_job (jb_id j') p q1)
      in case e of Some _ \<Rightarrow> (Some ResumeStopped, q2) | None \<Rightarrow> resume_jobs js q2)"

definition resume :: "'s store_ops \<Rightarrow> 's queue \<Rightarrow> nat \<times> queue_error option \<times> 's queue" where
  "resume ops q =
     (case q_store q of
        None \<Rightarrow> (0, None, q)
      | Some s \<Rightarrow>
          (case so_load_incomplete ops s of
             (Inl e, s') \<Rightarrow> (0, Some (StoreFailed e), q\<lparr>q_store := Some s'\<rparr>)
           | (Inr js, s') \<Rightarrow>
               (case resume_jobs js (q\<lparr>q_store := Some s'\<rparr>) of (e, q') \<Rightarrow> (length js, e, q'))))"

subsection \<open>Reading jobs\<close>

text \<open>The result of a lookup: a copy, not found, or the store's error.\<close>

definition get_job :: "'s store_ops \<Rightarrow> string \<Rightarrow> 's queue \<Rightarrow> (store_error, job option) result \<times> 's queue" where
  "get_job ops i q =
     (case lookup_job q i of
        Some p \<Rightarrow> (Inr (Some (q_heap q p)), q)
      | None \<Rightarrow>
          (case q_store q of
             None \<Rightarrow> (Inr None, q)
           | Some s \<Rightarrow>
               (case so_get ops s i of
                  (Inl e, s') \<Rightarrow> (Inl e, q\<lparr>q_store := Some s'\<rparr>)
                | (Inr None, s') \<Rightarrow> (Inr None, q\<lparr>q_store := Some s'\<rparr>)
                | (Inr (Some stored), s') \<Rightarrow>
                    (let (p, q1) = new_object stored (q\<lparr>q_store := Some s'\<rparr>)
                     in (Inr (Some stored), put_job (jb_id stored) p q1)))))"

subsection \<open>Running a job\<close>

text \<open>The failure of an execution: which sentinel error it wraps, and its text.\<close>

datatype exec_kind = ErrIntegrity | ErrEnforcement | ErrContract | ErrTool

type_synonym exec_result = "(exec_kind \<times> string, gval) result"

text \<open>
  The first critical section of \<^verbatim>\<open>process\<close>: a canceled job is not started; otherwise the
  attempt is counted and its cancel function registered in the same section. \<open>Some\<close> carries
  the context and the copy to persist.
\<close>

definition begin_attempt :: "nat \<Rightarrow> gtime \<Rightarrow> 's queue \<Rightarrow> (nat \<times> job) option \<times> 's queue" where
  "begin_attempt p now q =
     (let j = q_heap q p in
      if jb_status j = Canceled then (None, q)
      else
        let j' = j\<lparr>jb_status := Running, jb_attempt := jb_attempt j + 1, jb_started := Some now\<rparr>;
            ctx = q_next_ctx q
        in (Some (ctx, j'),
            q\<lparr>q_heap := (q_heap q)(p := j'), q_cancels := (q_cancels q)(jb_id j \<mapsto> ctx),
              q_next_ctx := Suc ctx\<rparr>))"

text \<open>After the tool returned: drop the cancel function, and was the job canceled meanwhile?\<close>

definition end_attempt :: "nat \<Rightarrow> 's queue \<Rightarrow> bool \<times> 's queue" where
  "end_attempt p q =
     (jb_status (q_heap q p) = Canceled,
      q\<lparr>q_cancels := (q_cancels q)(jb_id (q_heap q p) := None)\<rparr>)"

definition finish :: "nat \<Rightarrow> gval \<Rightarrow> string option \<Rightarrow> gtime \<Rightarrow> 's queue \<Rightarrow> job \<times> 's queue" where
  "finish p res err now q =
     (let j = (q_heap q p)\<lparr>jb_finished := Some now\<rparr>;
          j' = (case err of
                  Some e \<Rightarrow> j\<lparr>jb_status := Failed, jb_error := e\<rparr>
                | None \<Rightarrow> j\<lparr>jb_status := Done, jb_result := res\<rparr>)
      in (j', q\<lparr>q_heap := (q_heap q)(p := j')\<rparr>))"

definition finish_canceled :: "nat \<Rightarrow> gtime \<Rightarrow> 's queue \<Rightarrow> job \<times> 's queue" where
  "finish_canceled p now q =
     (let j' = (q_heap q p)\<lparr>jb_finished := Some now, jb_error := ''canceled by operator''\<rparr>
      in (j', q\<lparr>q_heap := (q_heap q)(p := j')\<rparr>))"

text \<open>What the outcome of an attempt leads to; the retry decision reads the job's counters.\<close>

datatype verdict =
    VFinish gval "string option"
  | VRetry string

definition judge :: "exec_result \<Rightarrow> job \<Rightarrow> verdict" where
  "judge outcome j =
     (case outcome of
        Inr result \<Rightarrow> VFinish result None
      | Inl (kind, msg) \<Rightarrow>
          (case kind of
             ErrIntegrity \<Rightarrow> VFinish GNull (Some msg)
           | ErrEnforcement \<Rightarrow> VFinish GNull (Some msg)
           | ErrContract \<Rightarrow> VFinish GNull (Some msg)
           | ErrTool \<Rightarrow>
               if jb_attempt j < jb_max_retries j then VRetry msg else VFinish GNull (Some msg)))"

text \<open>
  The delay before a retry, in 64-bit durations: a shift by \<^verbatim>\<open>max(0, attempt-1)\<close> (Go's \<^verbatim>\<open>int\<close>
  has 64 bits, a shift of 64 or more gives 0), then a product that wraps.
\<close>

definition backoff :: "int \<Rightarrow> duration" where
  "backoff attempt =
     push_bit (nat (max 0 (attempt - 1))) 1 * 100 * millisecond"

definition mark_retry :: "nat \<Rightarrow> string \<Rightarrow> 's queue \<Rightarrow> job \<times> 's queue" where
  "mark_retry p msg q =
     (let j' = (q_heap q p)\<lparr>jb_status := Queued, jb_error := msg\<rparr>
      in (j', q\<lparr>q_heap := (q_heap q)(p := j')\<rparr>))"

subsection \<open>Canceling and acknowledging\<close>

text \<open>
  The critical section of \<^verbatim>\<open>Cancel\<close> on a tracked job: the copy, whether it was canceled, and
  the context to cancel after the section.
\<close>

definition cancel_tracked :: "string \<Rightarrow> nat \<Rightarrow> gtime \<Rightarrow> 's queue \<Rightarrow> (job \<times> bool \<times> nat option) \<times> 's queue" where
  "cancel_tracked i p now q =
     (let j = q_heap q p in
      if is_terminal (jb_status j) then ((j, False, None), q)
      else
        let j1 = j\<lparr>jb_status := Canceled\<rparr>;
            j2 = (if jb_finished j1 = None then j1\<lparr>jb_finished := Some now\<rparr> else j1)
        in ((j2, True, q_cancels q i), q\<lparr>q_heap := (q_heap q)(p := j2)\<rparr>))"

definition cancel_ctx :: "nat option \<Rightarrow> 's queue \<Rightarrow> 's queue" where
  "cancel_ctx c q = (case c of None \<Rightarrow> q | Some x \<Rightarrow> q\<lparr>q_ctx_done := insert x (q_ctx_done q)\<rparr>)"

definition cancel_job ::
    "'s store_ops \<Rightarrow> string \<Rightarrow> gtime \<Rightarrow> 's queue \<Rightarrow> (store_error, job option \<times> bool) result \<times> 's queue" where
  "cancel_job ops i now q =
     (case lookup_job q i of
        Some p \<Rightarrow>
          (case cancel_tracked i p now q of
             ((j, False, c), q1) \<Rightarrow> (Inr (Some j, False), q1)
           | ((j, True, c), q1) \<Rightarrow> (Inr (Some j, True), persist ops j (cancel_ctx c q1)))
      | None \<Rightarrow>
          (case q_store q of
             None \<Rightarrow> (Inr (None, False), q)
           | Some s \<Rightarrow>
               (case so_get ops s i of
                  (Inl e, s') \<Rightarrow> (Inl e, q\<lparr>q_store := Some s'\<rparr>)
                | (Inr None, s') \<Rightarrow> (Inr (None, False), q\<lparr>q_store := Some s'\<rparr>)
                | (Inr (Some stored), s') \<Rightarrow>
                    (Inr (Some stored, False), q\<lparr>q_store := Some s'\<rparr>))))"

definition ack_tracked :: "nat \<Rightarrow> gtime \<Rightarrow> 's queue \<Rightarrow> (job \<times> bool) option \<times> 's queue" where
  "ack_tracked p now q =
     (let j = q_heap q p in
      if \<not> is_terminal (jb_status j) then (None, q)
      else if jb_acked j then (Some (j, False), q)
      else let j' = j\<lparr>jb_acked := True, jb_acked_at := Some now\<rparr>
           in (Some (j', True), q\<lparr>q_heap := (q_heap q)(p := j')\<rparr>))"

definition ack_job ::
    "'s store_ops \<Rightarrow> string \<Rightarrow> gtime \<Rightarrow> 's queue \<Rightarrow> (queue_error, job) result \<times> 's queue" where
  "ack_job ops i now q =
     (case lookup_job q i of
        Some p \<Rightarrow>
          (case ack_tracked p now q of
             (None, q1) \<Rightarrow> (Inl JobNotTerminal, q1)
           | (Some (j, False), q1) \<Rightarrow> (Inr j, q1)
           | (Some (j, True), q1) \<Rightarrow> (Inr j, persist_ack ops j q1))
      | None \<Rightarrow>
          (case q_store q of
             None \<Rightarrow> (Inl JobNotFound, q)
           | Some s \<Rightarrow>
               (case so_get ops s i of
                  (Inl e, s') \<Rightarrow> (Inl (StoreFailed e), q\<lparr>q_store := Some s'\<rparr>)
                | (Inr None, s') \<Rightarrow> (Inl JobNotFound, q\<lparr>q_store := Some s'\<rparr>)
                | (Inr (Some stored), s') \<Rightarrow>
                    if \<not> is_terminal (jb_status stored) then (Inl JobNotTerminal, q\<lparr>q_store := Some s'\<rparr>)
                    else if jb_acked stored then (Inr stored, q\<lparr>q_store := Some s'\<rparr>)
                    else (case so_ack ops s' i now of
                            (Inl e, s'') \<Rightarrow> (Inl (StoreFailed e), q\<lparr>q_store := Some s''\<rparr>)
                          | (Inr _, s'') \<Rightarrow>
                              (Inr (stored\<lparr>jb_acked := True, jb_acked_at := Some now\<rparr>),
                               q\<lparr>q_store := Some s''\<rparr>)))))"

subsection \<open>One pass of a worker\<close>

text \<open>
  One pass of \<^verbatim>\<open>process\<close>. What the other goroutines do while the tool runs, between the
  check for cancellation and the verdict, and during the backoff are the functions
  \<open>during\<close>, \<open>gap\<close> and \<open>asleep\<close>; \<open>stopped_first\<close> says that the stop channel won the select.
\<close>

definition finish_and_persist ::
    "'s store_ops \<Rightarrow> nat \<Rightarrow> gval \<Rightarrow> string option \<Rightarrow> gtime \<Rightarrow> 's queue \<Rightarrow> 's queue" where
  "finish_and_persist ops p res err now q = (let (cp, q1) = finish p res err now q in persist ops cp q1)"

definition finish_canceled_and_persist :: "'s store_ops \<Rightarrow> nat \<Rightarrow> gtime \<Rightarrow> 's queue \<Rightarrow> 's queue" where
  "finish_canceled_and_persist ops p now q =
     (let (cp, q1) = finish_canceled p now q in persist ops cp q1)"

definition retry ::
    "'s store_ops \<Rightarrow> nat \<Rightarrow> string \<Rightarrow> ('s queue \<Rightarrow> 's queue) \<Rightarrow> bool \<Rightarrow> gtime \<Rightarrow> 's queue \<Rightarrow> 's queue" where
  "retry ops p msg asleep stopped_first now q =
     (let (cp, q1) = mark_retry p msg q;
          q2 = asleep (persist ops cp q1)
      in if stopped_first then finish_and_persist ops p GNull (Some msg) now q2
         else if jb_status (q_heap q2 p) = Canceled then finish_canceled_and_persist ops p now q2
         else case requeue p q2 of
                (Some e, q3) \<Rightarrow> finish_and_persist ops p GNull (Some msg) now q3
              | (None, q3) \<Rightarrow> q3)"

definition process ::
    "'s store_ops \<Rightarrow> (string \<Rightarrow> tool option) \<Rightarrow> (tool \<Rightarrow> job \<Rightarrow> exec_result)
     \<Rightarrow> ('s queue \<Rightarrow> 's queue) \<Rightarrow> ('s queue \<Rightarrow> 's queue) \<Rightarrow> ('s queue \<Rightarrow> 's queue) \<Rightarrow> bool
     \<Rightarrow> gtime \<Rightarrow> gtime \<Rightarrow> nat \<Rightarrow> 's queue \<Rightarrow> 's queue" where
  "process ops tools exec during gap asleep stopped_first start now p q =
     (case tools (jb_tool (q_heap q p)) of
        None \<Rightarrow> finish_and_persist ops p GNull (Some ''tool not found'') now q
      | Some t \<Rightarrow>
          (case begin_attempt p start q of
             (None, q1) \<Rightarrow> finish_canceled_and_persist ops p now q1
           | (Some (ctx, cp), q1) \<Rightarrow>
               let q2 = persist ops cp q1;
                   outcome = exec t (q_heap q2 p);
                   (canceled, q3) = end_attempt p (during q2);
                   q4 = cancel_ctx (Some ctx) q3
               in if canceled then finish_canceled_and_persist ops p now q4
                  else let q5 = gap q4 in
                    case judge outcome (q_heap q5 p) of
                      VFinish res err \<Rightarrow> finish_and_persist ops p res err now q5
                    | VRetry msg \<Rightarrow> retry ops p msg asleep stopped_first now q5))"

subsection \<open>Listings\<close>

definition job_sort_time :: "job \<Rightarrow> gtime" where
  "job_sort_time j = (case jb_finished j of Some t \<Rightarrow> t | None \<Rightarrow> jb_created j)"

definition tracked_jobs :: "'s queue \<Rightarrow> job list" where
  "tracked_jobs q = map (\<lambda>(i, p). q_heap q p) (q_jobs q)"

definition inbox :: "'s store_ops \<Rightarrow> int \<Rightarrow> 's queue \<Rightarrow> (store_error, job list) result \<times> 's queue" where
  "inbox ops limit q =
     (case q_store q of
        Some s \<Rightarrow> (case so_list_unacked ops s limit of (r, s') \<Rightarrow> (r, q\<lparr>q_store := Some s'\<rparr>))
      | None \<Rightarrow>
          let out = sort_desc job_sort_time
                      (filter (\<lambda>j. is_terminal (jb_status j) \<and> \<not> jb_acked j) (tracked_jobs q))
          in (Inr (if 0 < limit \<and> int (length out) > limit then take (nat limit) out else out), q))"

definition batch_jobs :: "'s store_ops \<Rightarrow> string \<Rightarrow> 's queue \<Rightarrow> (store_error, job list) result \<times> 's queue" where
  "batch_jobs ops b q =
     (case q_store q of
        Some s \<Rightarrow> (case so_list_by_batch ops s b of (r, s') \<Rightarrow> (r, q\<lparr>q_store := Some s'\<rparr>))
      | None \<Rightarrow>
          (Inr (sort_key jb_created (filter (\<lambda>j. jb_batch j = b) (tracked_jobs q))), q))"

subsection \<open>Status\<close>

record stats_summary =
  st_id :: string
  st_tool :: string
  st_status :: job_status
  st_attempt :: int
  st_error :: string
  st_created :: gtime

record stats =
  sts_workers :: nat
  sts_queued :: nat
  sts_running :: nat
  sts_done :: nat
  sts_failed :: nat
  sts_recent :: "stats_summary list"

definition count_status :: "job_status \<Rightarrow> job list \<Rightarrow> nat" where
  "count_status s js = length (filter (\<lambda>j. jb_status j = s) js)"

definition queue_stats :: "'s queue \<Rightarrow> stats" where
  "queue_stats q =
     (let js = tracked_jobs q;
          recent = take 10 (sort_desc jb_created js)
      in \<lparr>sts_workers = q_workers q, sts_queued = count_status Queued js,
          sts_running = count_status Running js, sts_done = count_status Done js,
          sts_failed = count_status Failed js,
          sts_recent = map (\<lambda>j. \<lparr>st_id = jb_id j, st_tool = jb_tool j, st_status = jb_status j,
                                  st_attempt = jb_attempt j, st_error = jb_error j,
                                  st_created = jb_created j\<rparr>) recent\<rparr>)"

subsection \<open>Waiting\<close>

text \<open>
  The poll loops. What a lookup returns in the round \<open>n\<close>, how many nanoseconds remain to the
  deadline there, and whether the caller's context is done by the end of its sleep are
  arguments; running out of fuel is \<open>None\<close>.
\<close>

definition poll_interval :: int where
  "poll_interval = 100000000"

definition poll_wait :: "int \<Rightarrow> int" where
  "poll_wait remaining = (if remaining < poll_interval then remaining else poll_interval)"

fun wait_for_terminal ::
    "nat \<Rightarrow> (nat \<Rightarrow> (store_error, job option) result) \<Rightarrow> (nat \<Rightarrow> int) \<Rightarrow> (nat \<Rightarrow> bool) \<Rightarrow> nat
     \<Rightarrow> (store_error, job option) result option" where
  "wait_for_terminal 0 look rem gone n = None"
| "wait_for_terminal (Suc fuel) look rem gone n =
     (case look n of
        Inl e \<Rightarrow> Some (Inl e)
      | Inr None \<Rightarrow> Some (Inr None)
      | Inr (Some j) \<Rightarrow>
          if is_terminal (jb_status j) then Some (Inr (Some j))
          else if rem n \<le> 0 then Some (Inr (Some j))
          else if gone n then Some (Inr (Some j))
          else wait_for_terminal fuel look rem gone (Suc n))"

fun wait_for_any ::
    "nat \<Rightarrow> (nat \<Rightarrow> (store_error, job list) result) \<Rightarrow> (nat \<Rightarrow> int) \<Rightarrow> (nat \<Rightarrow> bool) \<Rightarrow> nat
     \<Rightarrow> (store_error, job list) result option" where
  "wait_for_any 0 look rem gone n = None"
| "wait_for_any (Suc fuel) look rem gone n =
     (case look n of
        Inl e \<Rightarrow> Some (Inl e)
      | Inr js \<Rightarrow>
          if js \<noteq> [] then Some (Inr js)
          else if rem n \<le> 0 then Some (Inr js)
          else if gone n then Some (Inr js)
          else wait_for_any fuel look rem gone (Suc n))"

subsection \<open>Frame lemmas\<close>

lemma persist_frame [simp]:
  "q_heap (persist ops j q) = q_heap q" "q_next (persist ops j q) = q_next q"
  "q_jobs (persist ops j q) = q_jobs q" "q_pending (persist ops j q) = q_pending q"
  "q_reserved (persist ops j q) = q_reserved q" "q_ch (persist ops j q) = q_ch q"
  "q_stopped (persist ops j q) = q_stopped q" "q_cancels (persist ops j q) = q_cancels q"
  "q_next_ctx (persist ops j q) = q_next_ctx q" "q_ctx_done (persist ops j q) = q_ctx_done q"
  by (simp_all add: persist_def split: option.split)

lemma persist_ack_frame [simp]:
  "q_heap (persist_ack ops j q) = q_heap q" "q_jobs (persist_ack ops j q) = q_jobs q"
  "q_pending (persist_ack ops j q) = q_pending q" "q_reserved (persist_ack ops j q) = q_reserved q"
  "q_ch (persist_ack ops j q) = q_ch q"
  by (simp_all add: persist_ack_def split: option.split)

lemma cancel_ctx_frame [simp]:
  "q_heap (cancel_ctx c q) = q_heap q" "q_jobs (cancel_ctx c q) = q_jobs q"
  "q_next (cancel_ctx c q) = q_next q"
  "q_pending (cancel_ctx c q) = q_pending q" "q_reserved (cancel_ctx c q) = q_reserved q"
  "q_ch (cancel_ctx c q) = q_ch q" "q_stopped (cancel_ctx c q) = q_stopped q"
  "q_store (cancel_ctx c q) = q_store q" "q_cancels (cancel_ctx c q) = q_cancels q"
  "q_next_ctx (cancel_ctx c q) = q_next_ctx q"
  by (simp_all add: cancel_ctx_def split: option.split)

lemma new_object_frame [simp]:
  "q_heap (snd (new_object j q)) = (q_heap q)(q_next q := j)" "fst (new_object j q) = q_next q"
  "q_jobs (snd (new_object j q)) = q_jobs q" "q_pending (snd (new_object j q)) = q_pending q"
  "q_reserved (snd (new_object j q)) = q_reserved q" "q_ch (snd (new_object j q)) = q_ch q"
  "q_stopped (snd (new_object j q)) = q_stopped q" "q_store (snd (new_object j q)) = q_store q"
  "q_cancels (snd (new_object j q)) = q_cancels q" "q_next (snd (new_object j q)) = Suc (q_next q)"
  by (simp_all add: new_object_def)

lemma put_job_frame [simp]:
  "q_heap (put_job i p q) = q_heap q" "q_pending (put_job i p q) = q_pending q"
  "q_reserved (put_job i p q) = q_reserved q" "q_ch (put_job i p q) = q_ch q"
  "q_stopped (put_job i p q) = q_stopped q" "q_store (put_job i p q) = q_store q"
  "q_cancels (put_job i p q) = q_cancels q" "q_next (put_job i p q) = q_next q"
  by (simp_all add: put_job_def)

lemma lookup_put_job: "lookup_job (put_job i p q) k = (if k = i then Some p else lookup_job q k)"
proof -
  have "map_of (filter (\<lambda>(k, v). k \<noteq> i) kvs) k = (if k = i then None else map_of kvs k)"
    for kvs :: "(string \<times> nat) list"
    by (induction kvs) auto
  then show ?thesis by (simp add: lookup_job_def put_job_def)
qed

lemma lookup_job_frame:
  "q_jobs q = q_jobs q' \<Longrightarrow> lookup_job q i = lookup_job q' i"
  by (simp add: lookup_job_def)

lemma signal_wake_frame [simp]:
  "q_heap (signal_wake q) = q_heap q" "q_jobs (signal_wake q) = q_jobs q"
  "q_pending (signal_wake q) = q_pending q" "q_reserved (signal_wake q) = q_reserved q"
  "q_ch (signal_wake q) = q_ch q" "q_stopped (signal_wake q) = q_stopped q"
  "q_store (signal_wake q) = q_store q" "q_next (signal_wake q) = q_next q"
  "q_cancels (signal_wake q) = q_cancels q" "q_ctx_done (signal_wake q) = q_ctx_done q" "q_wake (signal_wake q)"
  by (simp_all add: signal_wake_def)

lemma push_reserved_frame [simp]:
  "q_heap (push_reserved p q) = q_heap q" "q_jobs (push_reserved p q) = q_jobs q"
  "q_pending (push_reserved p q) = q_pending q @ [p]"
  "q_reserved (push_reserved p q) = q_reserved q - 1"
  "q_ch (push_reserved p q) = q_ch q" "q_stopped (push_reserved p q) = q_stopped q"
  "q_store (push_reserved p q) = q_store q" "q_next (push_reserved p q) = q_next q"
  "q_cancels (push_reserved p q) = q_cancels q" "q_wake (push_reserved p q) = q_wake q"
  "q_ctx_done (push_reserved p q) = q_ctx_done q"
  by (auto simp: push_reserved_def Let_def)

lemma requeue_eq:
  "requeue p q =
     (if q_stopped q then (Some QueueStopped, q)
      else (None, signal_wake (q\<lparr>q_pending := q_pending q @ [p]\<rparr>)))"
  by (simp add: requeue_def push_backlog_def)

lemma enqueue_reserved_frame [simp]:
  "q_heap (enqueue_reserved p q) = q_heap q" "q_jobs (enqueue_reserved p q) = q_jobs q"
  "q_pending (enqueue_reserved p q) = q_pending q @ [p]"
  "q_reserved (enqueue_reserved p q) = q_reserved q - 1"
  "q_ch (enqueue_reserved p q) = q_ch q" "q_stopped (enqueue_reserved p q) = q_stopped q"
  "q_store (enqueue_reserved p q) = q_store q" "q_next (enqueue_reserved p q) = q_next q"
  "q_cancels (enqueue_reserved p q) = q_cancels q"
  by (auto simp: enqueue_reserved_def)

lemma release_frame [simp]:
  "q_heap (release q) = q_heap q" "q_jobs (release q) = q_jobs q"
  "q_pending (release q) = q_pending q" "q_reserved (release q) = q_reserved q - 1"
  "q_ch (release q) = q_ch q" "q_stopped (release q) = q_stopped q"
  "q_store (release q) = q_store q" "q_next (release q) = q_next q"
  by (auto simp: release_def)

lemma track_and_enqueue_simps:
  "track_and_enqueue j q =
     (j, enqueue_reserved (q_next q) (put_job (jb_id j) (q_next q) (snd (new_object j q))))"
  by (simp add: track_and_enqueue_def new_object_def Let_def)

end
