(* ===== verification/Queue_Ops.thy ===== *)
theory Queue_Ops
  imports Queue Sqlite_Store
begin

text \<open>
  What the operations of the queue do: admission and the balance of reservations, the
  identifiers, retries and their delays, cancellation and acknowledgment, recovery, and the
  poll loops. The lemmas that rest on the store's promises are proved inside the context of
  the store contract.
\<close>

subsection \<open>Admission\<close>

lemma reserve_None:
  "reserve q = (None, q1) \<Longrightarrow>
     q1 = q\<lparr>q_reserved := q_reserved q + 1\<rparr> \<and> \<not> q_stopped q
     \<and> length (q_pending q) + q_reserved q < max_pending"
  by (simp add: reserve_def split: if_splits)

lemma reserve_Some: "reserve q = (Some e, q1) \<Longrightarrow> q1 = q \<and> e \<in> {QueueFull, QueueStopped}"
  by (auto simp: reserve_def split: if_splits)

lemma dedupe_frame:
  "q_pending (snd (dedupe e q)) = q_pending q" "q_reserved (snd (dedupe e q)) = q_reserved q"
  "q_ch (snd (dedupe e q)) = q_ch q" "q_store (snd (dedupe e q)) = q_store q"
  by (simp_all add: dedupe_def new_object_def put_job_def Let_def split: option.split)

lemma dedupe_pair:
  "dedupe e q = (cp, q') \<Longrightarrow> q_pending q' = q_pending q \<and> q_reserved q' = q_reserved q
     \<and> q_ch q' = q_ch q \<and> q_store q' = q_store q"
  using dedupe_frame[of e q] by simp

text \<open>The five ways a submission ends.\<close>

lemma submit_job_cases:
  obtains (refused) e where "submit_job ops j q = (Inl e, q)" "reserve q = (Some e, q)"
  | (memory) "q_store q = None" "length (q_pending q) + q_reserved q < max_pending" "\<not> q_stopped q"
      "submit_job ops j q
        = (Inr j, snd (track_and_enqueue j (q\<lparr>q_reserved := q_reserved q + 1\<rparr>)))"
  | (failed) s e s' where "q_store q = Some s" "so_insert ops s j (jb_key j) = (Inl e, s')"
      "submit_job ops j q
        = (Inl (PersistJob e), release (q\<lparr>q_reserved := q_reserved q + 1, q_store := Some s'\<rparr>))"
  | (created) s k s' where "q_store q = Some s" "so_insert ops s j (jb_key j) = (Inr (k, True), s')"
      "length (q_pending q) + q_reserved q < max_pending" "\<not> q_stopped q"
      "submit_job ops j q
        = (Inr k, snd (track_and_enqueue k (q\<lparr>q_reserved := q_reserved q + 1, q_store := Some s'\<rparr>)))"
  | (deduped) s k s' where "q_store q = Some s" "so_insert ops s j (jb_key j) = (Inr (k, False), s')"
      "submit_job ops j q
        = (case dedupe k (release (q\<lparr>q_reserved := q_reserved q + 1, q_store := Some s'\<rparr>)) of
             (cp, q') \<Rightarrow> (Inr cp, q'))"
proof -
  obtain e q1 where r: "reserve q = (e, q1)" by fastforce
  show thesis
  proof (cases e)
    case (Some x)
    with r reserve_Some[of q x q1] show thesis by (intro refused) (auto simp: submit_job_def)
  next
    case None
    with r reserve_None[of q q1] have q1: "q1 = q\<lparr>q_reserved := q_reserved q + 1\<rparr>" "\<not> q_stopped q"
      "length (q_pending q) + q_reserved q < max_pending" "reserve q = (None, q1)" by auto
    show thesis
    proof (cases "q_store q")
      case None
      with q1 show thesis
        by (intro memory) (simp_all add: submit_job_def track_and_enqueue_simps)
    next
      case (Some s)
      obtain o1 s' where i: "so_insert ops s j (jb_key j) = (o1, s')" by fastforce
      show thesis
      proof (cases o1)
        case (Inl x)
        with q1 Some i show thesis by (intro failed) (simp_all add: submit_job_def)
      next
        case (Inr p)
        then obtain k b where p: "o1 = Inr (k, b)" by (cases p) auto
        show thesis
        proof (cases b)
          case True
          with q1 Some i p show thesis
            by (intro created) (simp_all add: submit_job_def track_and_enqueue_simps)
        next
          case False
          with q1 Some i p show thesis by (intro deduped) (simp_all add: submit_job_def)
        qed
      qed
    qed
  qed
qed

text \<open>
  Admission is decided before anything is persisted, and the reservation is always
  settled. A full backlog refuses a submission and leaves the whole state, the store
  included, as it was.
\<close>

theorem submit_refused_when_full:
  assumes "\<not> q_stopped q" "max_pending \<le> length (q_pending q) + q_reserved q"
  shows "submit_job ops j q = (Inl QueueFull, q)"
  using assms by (simp add: submit_job_def reserve_def)

lemma submit_refused_when_full_witness:
  "submit_job sqlite_ops (sample_job ''a'' [] [] 0) ((new_queue 1 None)\<lparr>q_reserved := 10000\<rparr>)
     = (Inl QueueFull, (new_queue 1 None)\<lparr>q_reserved := 10000\<rparr>)"
  by (rule submit_refused_when_full) (simp_all add: new_queue_def max_pending_def)

text \<open>
  C12: Every submission, however it ends, settles its reservation: the count of reservations is
  as before, the backlog is as before after an error, and after a success it is as before (a
  duplicate) or has grown by exactly one pointer, to the returned job, with a slot that was
  free.
\<close>

theorem submit_settles_reservation:
  "case submit_job ops j q of (r, q') \<Rightarrow>
      q_reserved q' = q_reserved q
    \<and> (case r of
         Inl e \<Rightarrow> q_pending q' = q_pending q
       | Inr cp \<Rightarrow>
           if q_pending q' = q_pending q then q_store q \<noteq> None
           else \<exists>p. q_pending q' = q_pending q @ [p] \<and> q_heap q' p = cp
                  \<and> length (q_pending q) + q_reserved q < max_pending)"
  by (rule submit_job_cases[of ops j q])
     (auto simp: track_and_enqueue_simps split: prod.split dest!: dedupe_pair)

subsection \<open>Identifiers\<close>

lemma hex_encode_plain: "c \<in> set (hex_encode bs) \<Longrightarrow> c \<noteq> CHR ''/'' \<and> c \<noteq> CHR ''.''"
proof -
  assume "c \<in> set (hex_encode bs)"
  then obtain b where "c \<in> set (hex_byte b)" by (auto simp: hex_encode_def)
  moreover have "unat b < 2 ^ LENGTH(8)" by (rule unsigned_less)
  then have "unat b div 16 < 16" "unat b mod 16 < 16" by auto
  ultimately have "\<exists>d<16. c = hex_digit d"
    unfolding hex_byte_def by (auto intro: exI[of _ "unat b div 16"] exI[of _ "unat b mod 16"])
  then obtain d where d: "d < 16" "c = hex_digit d" by blast
  have "(of_char (hex_digit d) :: nat) = (if d < 10 then 48 + d else 87 + d)"
    using d(1) by (simp add: hex_digit_def)
  then have "48 \<le> (of_char c :: nat)" using d by simp
  then show ?thesis by auto
qed

text \<open>
  Job ids never collide unless the random bytes do, never equal a batch id, have a fixed
  length, and are one plain path component: no separator and no dot-dot, so
  \<^verbatim>\<open>data/jobs/<id>\<close> stays directly under the job directory.
\<close>

theorem job_ids_distinct_and_plain:
  "(new_job_id a = new_job_id b \<longleftrightarrow> a = b) \<and> new_job_id a \<noteq> new_batch_id b
   \<and> length (new_job_id a) = 4 + 2 * length a \<and> plain_comp (new_job_id a)"
proof (intro conjI)
  show "(new_job_id a = new_job_id b) = (a = b)"
    by (simp add: new_job_id_def new_id_def hex_encode_inject)
  show "new_job_id a \<noteq> new_batch_id b" by (simp add: new_job_id_def new_batch_id_def new_id_def)
  show "length (new_job_id a) = 4 + 2 * length a"
    by (simp add: new_job_id_def new_id_def hex_encode_length)
  have "CHR ''/'' \<notin> set (new_job_id a)"
    using hex_encode_plain by (auto simp: new_job_id_def new_id_def)
  then show "plain_comp (new_job_id a)"
    by (simp add: plain_comp_def dotdot_def new_job_id_def new_id_def)
qed

subsection \<open>Retries\<close>

lemma backoff_word: "backoff a = word_of_int (2 ^ nat (max 0 (a - 1)) * 100000000)"
proof -
  have "(push_bit n 1 :: 64 word) = word_of_int (2 ^ n)" for n
    by (simp add: push_bit_of_1 of_int_power)
  then show ?thesis by (simp add: backoff_def millisecond_def wi_hom_mult)
qed

lemma backoff_exact_bounds:
  assumes a: "1 \<le> a" "a \<le> 37"
  shows "sint (backoff a) = 100000000 * 2 ^ nat (a - 1)"
proof -
  have "(2::int) ^ nat (a - 1) \<le> 2 ^ 36" using a by (intro power_increasing) auto
  then have "(2::int) ^ nat (a - 1) * 100000000 < 2 ^ 63" by simp
  moreover have "- (2 ^ 63) \<le> (2::int) ^ nat (a - 1) * 100000000" by (rule order_trans[of _ 0]) simp_all
  ultimately have "sint (word_of_int (2 ^ nat (a - 1) * 100000000) :: 64 word) = 2 ^ nat (a - 1) * 100000000"
    by (intro sint_small)
  then show ?thesis unfolding backoff_word using a by (simp add: max_def)
qed

text \<open>
  The retry delay doubles from 100 ms, \<open>100 ms * 2^(attempt - 1)\<close>, exactly as long as the
  attempt is at most 37. From attempt 38 on the 64-bit product has wrapped: at 38 the delay is
  negative, so the timer fires at once, and from 57 on it is zero.
\<close>

theorem backoff_exact_until_37:
  "(1 \<le> a \<longrightarrow> a \<le> 37 \<longrightarrow> sint (backoff a) = 100000000 * 2 ^ nat (a - 1))
   \<and> sint (backoff 38) < 0
   \<and> (57 \<le> a \<longrightarrow> backoff a = 0)"
proof (intro conjI impI)
  assume "1 \<le> a" "a \<le> 37"
  then show "sint (backoff a) = 100000000 * 2 ^ nat (a - 1)" by (rule backoff_exact_bounds)
next
  show "sint (backoff 38) < 0"
    by (simp add: backoff_word sint_sbintrunc' signed_take_bit_eq_if_positive)
next
  assume "57 \<le> a"
  then have n: "nat (max 0 (a - 1)) = nat (a - 57) + 56" by auto
  have "2 ^ nat (max 0 (a - 1)) * 100000000 = (2::int) ^ 64 * (2 ^ nat (a - 57) * 390625)"
    by (simp only: n) (simp add: power_add)
  then have "backoff a = word_of_int (2 ^ 64) * word_of_int (2 ^ nat (a - 57) * 390625)"
    unfolding backoff_word by (simp only: wi_hom_mult)
  moreover have "(word_of_int (2 ^ 64) :: 64 word) = 0" by simp
  ultimately show "backoff a = 0" by (simp only: mult_zero_left)
qed

lemma backoff_exact_until_37_witness: "sint (backoff 3) = 400000000"
  using backoff_exact_until_37[of 3] by simp

text \<open>One turn of the dispatcher and of a worker when nothing else runs.\<close>

definition quiet_turn ::
    "'s store_ops \<Rightarrow> (string \<Rightarrow> tool option) \<Rightarrow> (tool \<Rightarrow> job \<Rightarrow> exec_result) \<Rightarrow> gtime \<Rightarrow> 's queue \<Rightarrow> 's queue" where
  "quiet_turn ops tools exec now q =
     (case dispatch_take q of
        (None, q1) \<Rightarrow> q1
      | (Some p, q1) \<Rightarrow>
          (case dispatch_send p q1 of
             None \<Rightarrow> q1
           | Some q2 \<Rightarrow>
               (case worker_receive q2 of
                  None \<Rightarrow> q2
                | Some (r, q3) \<Rightarrow>
                    process ops tools exec (\<lambda>q. q) (\<lambda>q. q) (\<lambda>q. q) False now now r q3)))"

definition waiting :: "nat \<Rightarrow> job \<Rightarrow> 's queue \<Rightarrow> bool" where
  "waiting p j q \<longleftrightarrow> q_pending q = [p] \<and> q_ch q = [] \<and> \<not> q_stopped q \<and> q_heap q p = j"

lemma quiet_turn_step:
  assumes w: "waiting p j q" and t: "tools (jb_tool j) = Some t" and nc: "jb_status j \<noteq> Canceled"
    and e: "\<And>k. exec t k = Inl (ErrTool, msg)"
  shows "jb_attempt (q_heap (quiet_turn ops tools exec now q) p) = jb_attempt j + 1
    \<and> (jb_attempt j + 1 < jb_max_retries j \<longrightarrow>
         (\<exists>j'. waiting p j' (quiet_turn ops tools exec now q) \<and> jb_status j' = Queued
            \<and> jb_tool j' = jb_tool j \<and> jb_max_retries j' = jb_max_retries j
            \<and> jb_attempt j' = jb_attempt j + 1))
    \<and> (\<not> jb_attempt j + 1 < jb_max_retries j \<longrightarrow>
         q_pending (quiet_turn ops tools exec now q) = []
         \<and> jb_status (q_heap (quiet_turn ops tools exec now q) p) = Failed
         \<and> jb_error (q_heap (quiet_turn ops tools exec now q) p) = msg)"
  using w t nc e
  by (auto simp: quiet_turn_def waiting_def dispatch_take_def dispatch_send_def worker_receive_def
      ch_capacity_def process_def begin_attempt_def end_attempt_def judge_def retry_def
      mark_retry_def requeue_eq finish_and_persist_def finish_def Let_def)

text \<open>
  C11: How often a failing tool runs. On a quiet desk a fresh job whose tool always fails with a
  retryable error is run exactly \<open>max 1 max_retries\<close> times: after fewer turns it is queued
  again with that many attempts counted, and after that many it is failed with the tool's
  error and leaves the backlog. So \<^verbatim>\<open>max_retries\<close> counts runs, not runs after the first, and
  \<^verbatim>\<open>max_retries: 1\<close> never retries.
\<close>

theorem failing_job_runs_max_retries_times:
  assumes "waiting p j q" "tools (jb_tool j) = Some t" "jb_status j = Queued" "jb_attempt j = 0"
    and "\<And>k. exec t k = Inl (ErrTool, msg)"
    and "n = (if jb_max_retries j \<le> 1 then 1 else nat (jb_max_retries j))"
  shows "(\<forall>k<n. q_pending ((quiet_turn ops tools exec now ^^ k) q) = [p]
           \<and> jb_attempt (q_heap ((quiet_turn ops tools exec now ^^ k) q) p) = int k
           \<and> jb_status (q_heap ((quiet_turn ops tools exec now ^^ k) q) p) = Queued)
       \<and> q_pending ((quiet_turn ops tools exec now ^^ n) q) = []
       \<and> jb_attempt (q_heap ((quiet_turn ops tools exec now ^^ n) q) p) = int n
       \<and> jb_status (q_heap ((quiet_turn ops tools exec now ^^ n) q) p) = Failed
       \<and> jb_error (q_heap ((quiet_turn ops tools exec now ^^ n) q) p) = msg"
proof -
  let ?f = "quiet_turn ops tools exec now"
  have inv: "\<exists>i. waiting p i ((?f ^^ k) q) \<and> jb_status i = Queued \<and> jb_tool i = jb_tool j
      \<and> jb_max_retries i = jb_max_retries j \<and> jb_attempt i = int k" if "k < n" for k
    using that
  proof (induction k)
    case 0
    with assms show ?case by auto
  next
    case (Suc k)
    then obtain i where i: "waiting p i ((?f ^^ k) q)" "jb_status i = Queued" "jb_tool i = jb_tool j"
      "jb_max_retries i = jb_max_retries j" "jb_attempt i = int k" by auto
    have "jb_attempt i + 1 < jb_max_retries i" using Suc.prems i assms(6) by (auto split: if_splits)
    with quiet_turn_step[OF i(1), of tools t exec msg ops now] i assms(2,5) show ?case by auto
  qed
  have "0 < n" using assms(6) by (auto split: if_splits)
  then obtain m where m: "n = Suc m" by (cases n) auto
  from inv[of m] m obtain i where i: "waiting p i ((?f ^^ m) q)" "jb_status i = Queued"
    "jb_tool i = jb_tool j" "jb_max_retries i = jb_max_retries j" "jb_attempt i = int m" by auto
  have "\<not> jb_attempt i + 1 < jb_max_retries i" using m i assms(6) by (auto split: if_splits)
  with quiet_turn_step[OF i(1), of tools t exec msg ops now] i assms(2,5) m inv show ?thesis
    by (auto simp: waiting_def)
qed

definition sample_exec_tool :: tool where
  "sample_exec_tool =
     \<lparr>tl_name = ''greet'', tl_summary = [], tl_input = None, tl_output = [],
      tl_effects = \<lparr>se_files = None, se_network = False\<rparr>,
      tl_sandbox = \<lparr>sb_in = [], sb_out = []\<rparr>,
      tl_integrity = \<lparr>run_sha256 = [], interpreter_sha256 = []\<rparr>,
      tl_exec = \<lparr>ex_mode = [], ex_max_retries = 0, ex_timeout_ms = 0\<rparr>,
      tl_dir = [], tl_run_path = [], tl_raw = []\<rparr>"

definition one_waiting :: "job \<Rightarrow> 's queue" where
  "one_waiting j = (new_queue 1 None)\<lparr>q_heap := (\<lambda>p. j), q_next := 1, q_jobs := [(jb_id j, 0)],
     q_pending := [0]\<rparr>"

lemma one_waiting: "waiting 0 j (one_waiting j)"
  by (simp add: waiting_def one_waiting_def new_queue_def)

lemma failing_job_runs_max_retries_times_witness:
  "jb_attempt (q_heap ((quiet_turn sqlite_ops (\<lambda>n. Some sample_exec_tool) (\<lambda>t k. Inl (ErrTool, ''boom''))
      (GTime 2025 1 2 3 4 6 0) ^^ 3) (one_waiting (sample_job ''a'' [] [] 0\<lparr>jb_max_retries := 3\<rparr>))) 0) = 3"
proof -
  let ?j = "sample_job ''a'' [] [] 0\<lparr>jb_max_retries := 3\<rparr>" and ?tools = "\<lambda>n. Some sample_exec_tool"
  have t: "?tools (jb_tool ?j) = Some sample_exec_tool" by (rule refl)
  have s: "jb_status ?j = Queued" "jb_attempt ?j = 0"
    "3 = (if jb_max_retries ?j \<le> 1 then 1 else nat (jb_max_retries ?j))"
    by (simp_all add: sample_job_def)
  note f = failing_job_runs_max_retries_times[where exec = "\<lambda>t k. Inl (ErrTool, ''boom'')" and ops = sqlite_ops
      and now = "GTime 2025 1 2 3 4 6 0" and tools = ?tools, OF one_waiting t s(1,2) refl s(3)]
  have "jb_attempt (q_heap ((quiet_turn sqlite_ops ?tools (\<lambda>t k. Inl (ErrTool, ''boom''))
      (GTime 2025 1 2 3 4 6 0) ^^ 3) (one_waiting ?j)) 0) = int 3"
    using f by (elim conjE)
  then show ?thesis by (simp only: of_nat_numeral)
qed

subsection \<open>The budget of a direct call\<close>

lemma backoff_sum:
  "r \<le> 38 \<Longrightarrow> (\<Sum>a = 1..<r. sint (backoff (int a))) = 100000000 * (2 ^ (r - 1) - 1)"
proof (induction r)
  case (Suc r)
  show ?case
  proof (cases "r = 0")
    case False
    then have "sint (backoff (int r)) = 100000000 * 2 ^ (r - 1)"
      using backoff_exact_bounds[of "int r"] Suc.prems by simp
    with Suc False show ?thesis
      by (cases r) (simp_all add: sum.atLeastLessThan_Suc algebra_simps)
  qed simp
qed simp

text \<open>
  C24: Whether the wait of a direct call, \<^verbatim>\<open>MaxTotalDuration\<close>, covers the longest the desk can
  take over the job. A tool with \<open>r\<close> runs of at most its timeout \<open>T\<close> each, with the backoff
  delays between them, needs \<open>r T\<close> plus \<open>100 ms (2^(r-1) - 1)\<close>; the budget covers that
  exactly when the delays fit into one timeout plus five seconds, which they do for every
  tool up to six runs.
\<close>

theorem max_total_covers_iff:
  assumes "1 \<le> r" "r \<le> 37" "ex_max_retries e = int r"
    and "timeout_ns e * (int r + 1) + 5000000000 < 2 ^ 63"
  shows "(int r * sint (timeout e) + (\<Sum>a = 1..<r. sint (backoff (int a)))
            \<le> sint (max_total_duration e))
         = (100000000 * (2 ^ (r - 1) - 1) \<le> sint (timeout e) + 5000000000)
       \<and> (r \<le> 6 \<longrightarrow> int r * sint (timeout e) + (\<Sum>a = 1..<r. sint (backoff (int a)))
            \<le> sint (max_total_duration e))"
proof -
  have t0: "0 \<le> timeout_ns e" by (simp add: timeout_ns_def)
  then have "timeout_ns e \<le> timeout_ns e * (int r + 1)" by (simp add: distrib_left)
  with assms(4) have "timeout_ns e < 2 ^ 63" by linarith
  then have t: "sint (timeout e) = timeout_ns e" by (rule timeout_sint)
  have m: "sint (max_total_duration e) = timeout_ns e * (int r + 1) + 5000000000"
    using max_total_sint[of e] assms(3,4) by simp
  have eq: "(int r * sint (timeout e) + (\<Sum>a = 1..<r. sint (backoff (int a)))
            \<le> sint (max_total_duration e))
         = (100000000 * (2 ^ (r - 1) - 1) \<le> sint (timeout e) + 5000000000)"
    unfolding t m using backoff_sum[of r] assms(2) by (auto simp: algebra_simps)
  have "100000000 * (2 ^ (r - 1) - 1) \<le> sint (timeout e) + 5000000000" if "r \<le> 6"
  proof -
    have "(2::int) ^ (r - 1) \<le> 2 ^ 5" using that by (intro power_increasing) auto
    then show ?thesis unfolding t using t0 by simp
  qed
  with eq show ?thesis by blast
qed

lemma max_total_covers_iff_witness:
  "\<not> (7 * sint (timeout \<lparr>ex_mode = [], ex_max_retries = 7, ex_timeout_ms = 1000\<rparr>)
       + (\<Sum>a = 1..<7. sint (backoff (int a)))
     \<le> sint (max_total_duration \<lparr>ex_mode = [], ex_max_retries = 7, ex_timeout_ms = 1000\<rparr>))"
  using max_total_covers_iff[of 7 "\<lparr>ex_mode = [], ex_max_retries = 7, ex_timeout_ms = 1000\<rparr>"]
    timeout_sint[of "\<lparr>ex_mode = [], ex_max_retries = 7, ex_timeout_ms = 1000\<rparr>"]
  by (simp add: timeout_ns_def)

subsection \<open>Cancellation\<close>

lemma finish_simps:
  "q_heap (snd (finish p res err now q)) = (q_heap q)(p := fst (finish p res err now q))"
  "q_store (snd (finish p res err now q)) = q_store q" "q_jobs (snd (finish p res err now q)) = q_jobs q"
  "q_pending (snd (finish p res err now q)) = q_pending q"
  by (simp_all add: finish_def Let_def)

lemma finish_canceled_simps:
  "q_heap (snd (finish_canceled p now q)) = (q_heap q)(p := fst (finish_canceled p now q))"
  "q_store (snd (finish_canceled p now q)) = q_store q"
  "jb_status (fst (finish_canceled p now q)) = jb_status (q_heap q p)"
  "jb_attempt (fst (finish_canceled p now q)) = jb_attempt (q_heap q p)"
  "jb_result (fst (finish_canceled p now q)) = jb_result (q_heap q p)"
  "jb_error (fst (finish_canceled p now q)) = ''canceled by operator''"
  by (simp_all add: finish_canceled_def Let_def)

lemma finish_canceled_and_persist_heap:
  "q_heap (finish_canceled_and_persist ops p now q)
     = (q_heap q)(p := (q_heap q p)\<lparr>jb_finished := Some now, jb_error := ''canceled by operator''\<rparr>)"
  by (simp add: finish_canceled_and_persist_def finish_canceled_def Let_def)

lemma finish_and_persist_heap:
  "q_heap (finish_and_persist ops p res err now q) = (q_heap q)(p := fst (finish p res err now q))"
  by (simp add: finish_and_persist_def finish_def Let_def)

text \<open>
  Canceling a tracked job. The call finds the job in the table; a job that had reached a
  terminal status is returned as it is and nothing changes; any other job is canceled, gets a
  finish time, keeps its attempt, result and acknowledgment, its running context is told, and
  the caller's copy is the job as it now stands.
\<close>

theorem cancel_tracked_job:
  assumes "lookup_job q i = Some p" "cancel_job ops i now q = (r, q')"
  shows "(is_terminal (jb_status (q_heap q p)) \<longrightarrow> r = Inr (Some (q_heap q p), False) \<and> q' = q)
    \<and> (\<not> is_terminal (jb_status (q_heap q p)) \<longrightarrow>
         r = Inr (Some (q_heap q' p), True) \<and> jb_status (q_heap q' p) = Canceled
       \<and> jb_finished (q_heap q' p) \<noteq> None \<and> jb_attempt (q_heap q' p) = jb_attempt (q_heap q p)
       \<and> jb_result (q_heap q' p) = jb_result (q_heap q p) \<and> jb_acked (q_heap q' p) = jb_acked (q_heap q p)
       \<and> (\<forall>c. q_cancels q i = Some c \<longrightarrow> c \<in> q_ctx_done q'))"
  using assms
  by (auto simp: cancel_job_def cancel_tracked_def Let_def cancel_ctx_def persist_def
      split: if_splits option.splits)

definition two_phase_queue :: "job \<Rightarrow> 's queue" where
  "two_phase_queue j = (one_waiting j)\<lparr>q_cancels := (\<lambda>i. if i = jb_id j then Some 7 else None)\<rparr>"

lemma cancel_tracked_job_witness:
  "7 \<in> q_ctx_done (snd (cancel_job sqlite_ops ''a'' (GTime 2025 1 2 3 4 6 0)
          (two_phase_queue (sample_job ''a'' [] [] 0))))"
proof -
  have "lookup_job (two_phase_queue (sample_job ''a'' [] [] 0) :: sqlite_db queue) ''a'' = Some 0"
    by (simp add: lookup_job_def two_phase_queue_def one_waiting_def)
  from cancel_tracked_job[OF this, of sqlite_ops "GTime 2025 1 2 3 4 6 0"] show ?thesis
    by (simp add: two_phase_queue_def one_waiting_def prod_eq_iff)
qed

text \<open>
  A canceled job is never run. When a worker picks up a job whose status is Canceled (and
  whose tool exists), the tool is not executed, whatever it would have returned; no attempt is
  counted, nothing is enqueued, and the job stays canceled with the operator's mark.
\<close>

theorem canceled_job_never_runs:
  assumes "tools (jb_tool (q_heap q p)) = Some t" "jb_status (q_heap q p) = Canceled"
  shows "process ops tools exec during gap asleep stopped start now p q
      = process ops tools exec' during' gap' asleep' stopped' start' now p q
    \<and> q_heap (process ops tools exec during gap asleep stopped start now p q) p
      = (q_heap q p)\<lparr>jb_finished := Some now, jb_error := ''canceled by operator''\<rparr>
    \<and> q_pending (process ops tools exec during gap asleep stopped start now p q) = q_pending q"
  using assms
  by (simp add: process_def begin_attempt_def finish_canceled_and_persist_def finish_canceled_def Let_def)

lemma canceled_job_never_runs_witness:
  "jb_status (q_heap (process sqlite_ops (\<lambda>n. Some sample_exec_tool) (\<lambda>t k. Inr (GBool True))
      (\<lambda>q. q) (\<lambda>q. q) (\<lambda>q. q) False (GTime 2025 1 2 3 4 6 0) (GTime 2025 1 2 3 4 7 0) 0
      (one_waiting (sample_job ''a'' [] [] 0\<lparr>jb_status := Canceled\<rparr>))) 0) = Canceled"
proof -
  let ?q = "one_waiting (sample_job ''a'' [] [] 0\<lparr>jb_status := Canceled\<rparr>) :: sqlite_db queue"
  have c: "jb_status (q_heap ?q 0) = Canceled" by (simp add: one_waiting_def)
  have t: "(\<lambda>n. Some sample_exec_tool) (jb_tool (q_heap ?q 0)) = Some sample_exec_tool" by simp
  from canceled_job_never_runs[where tools = "\<lambda>n. Some sample_exec_tool", OF t c] c show ?thesis by simp
qed

text \<open>
  C16: The window in which a cancellation is lost. Let a job's tool succeed. At the worker's
  gap between its check for cancellation and its verdict, whatever the other goroutines do
  there, the pass ends by recording the tool's result. A cancel in that gap reports success
  with a canceled copy, and the job still ends Done: a terminal status was left again.
\<close>

theorem cancel_in_the_gap_is_overwritten:
  assumes "lookup_job q i = Some p" "tools (jb_tool (q_heap q p)) = Some t"
    and "\<not> is_terminal (jb_status (q_heap q p))" "\<And>k. exec t k = Inr res"
  shows "\<exists>q4. (\<forall>gap. process ops tools exec (\<lambda>q. q) gap asleep stopped start now p q
                 = finish_and_persist ops p res None now (gap q4))
    \<and> (\<exists>j. fst (cancel_job ops i tm q4) = Inr (Some j, True) \<and> jb_status j = Canceled)
    \<and> jb_status (q_heap (process ops tools exec (\<lambda>q. q) (\<lambda>q. snd (cancel_job ops i tm q)) asleep
         stopped start now p q) p) = Done"
proof -
  let ?j = "(q_heap q p)\<lparr>jb_status := Running, jb_attempt := jb_attempt (q_heap q p) + 1,
              jb_started := Some start\<rparr>"
  let ?q1 = "q\<lparr>q_heap := (q_heap q)(p := ?j), q_cancels := (q_cancels q)(jb_id (q_heap q p) \<mapsto> q_next_ctx q),
               q_next_ctx := Suc (q_next_ctx q)\<rparr>"
  let ?q4 = "cancel_ctx (Some (q_next_ctx q)) (snd (end_attempt p (persist ops ?j ?q1)))"
  have nc: "jb_status (q_heap q p) \<noteq> Canceled" using assms(3) by auto
  have b: "begin_attempt p start q = (Some (q_next_ctx q, ?j), ?q1)"
    using nc by (simp add: begin_attempt_def Let_def)
  have run: "process ops tools exec (\<lambda>q. q) gap asleep stopped start now p q
      = finish_and_persist ops p res None now (gap ?q4)" for gap
    using assms(2,4) b by (simp add: process_def end_attempt_def judge_def Let_def)
  have h: "q_heap ?q4 p = ?j" "lookup_job ?q4 i = Some p"
    using assms(1) by (simp_all add: end_attempt_def lookup_job_def)
  obtain r q5 where c: "cancel_job ops i tm ?q4 = (r, q5)" by fastforce
  from cancel_tracked_job[OF h(2) c] h(1) have "r = Inr (Some (q_heap q5 p), True)"
    "jb_status (q_heap q5 p) = Canceled" by simp_all
  moreover have "jb_status (q_heap (finish_and_persist ops p res None now (snd (cancel_job ops i tm ?q4))) p) = Done"
    by (simp add: finish_and_persist_heap finish_def Let_def)
  ultimately show ?thesis using c by (intro exI[of _ ?q4]) (simp add: run)
qed

lemma cancel_in_the_gap_is_overwritten_witness:
  "jb_status (q_heap (process sqlite_ops (\<lambda>n. Some sample_exec_tool) (\<lambda>t k. Inr (GBool True))
      (\<lambda>q. q) (\<lambda>q. snd (cancel_job sqlite_ops ''a'' (GTime 2025 1 2 3 4 6 0) q)) (\<lambda>q. q) False
      (GTime 2025 1 2 3 4 6 0) (GTime 2025 1 2 3 4 7 0) 0 (one_waiting (sample_job ''a'' [] [] 0))) 0) = Done"
proof -
  let ?q = "one_waiting (sample_job ''a'' [] [] 0) :: sqlite_db queue"
  have l: "lookup_job ?q ''a'' = Some 0" by (simp add: lookup_job_def one_waiting_def)
  have n: "\<not> is_terminal (jb_status (q_heap ?q 0))" by (simp add: one_waiting_def)
  have t: "(\<lambda>n. Some sample_exec_tool) (jb_tool (q_heap ?q 0)) = Some sample_exec_tool" by simp
  show ?thesis
    using cancel_in_the_gap_is_overwritten[where tools = "\<lambda>n. Some sample_exec_tool"
        and exec = "\<lambda>t k. Inr (GBool True)" and ops = sqlite_ops and tm = "GTime 2025 1 2 3 4 6 0"
        and asleep = "\<lambda>q. q" and stopped = False and start = "GTime 2025 1 2 3 4 6 0"
        and now = "GTime 2025 1 2 3 4 7 0", OF l t n refl] by blast
qed

text \<open>
  A job whose tool is gone is failed even if the operator had canceled it: the missing tool
  is noticed before the status is looked at.
\<close>

theorem missing_tool_overwrites_cancel:
  assumes "tools (jb_tool (q_heap q p)) = None"
  shows "jb_status (q_heap (process ops tools exec during gap asleep stopped start now p q) p) = Failed
    \<and> jb_error (q_heap (process ops tools exec during gap asleep stopped start now p q) p) = ''tool not found''"
  using assms by (simp add: process_def finish_and_persist_heap finish_def Let_def)

lemma missing_tool_overwrites_cancel_witness:
  "jb_status (q_heap (process sqlite_ops (\<lambda>n. None) (\<lambda>t k. Inr GNull) (\<lambda>q. q) (\<lambda>q. q) (\<lambda>q. q) False
      (GTime 2025 1 2 3 4 6 0) (GTime 2025 1 2 3 4 7 0) 0
      (snd (cancel_job sqlite_ops ''a'' (GTime 2025 1 2 3 4 6 0) (one_waiting (sample_job ''a'' [] [] 0))))) 0)
    = Failed"
  by (rule missing_tool_overwrites_cancel[THEN conjunct1]) simp

subsection \<open>Lookups\<close>

text \<open>
  Looking a job up. A tracked job is answered from memory, as it stands and without a
  store call. For an untracked one, a failing store is reported as an error and never as not
  found, a job unknown to the store is not found, and a stored job is returned and tracked
  from then on: every later lookup answers with this snapshot, whatever the store says by
  then.
\<close>

theorem get_job_answers:
  "(\<forall>p. lookup_job q i = Some p \<longrightarrow> get_job ops i q = (Inr (Some (q_heap q p)), q))
   \<and> (\<forall>s e s'. lookup_job q i = None \<longrightarrow> q_store q = Some s \<longrightarrow> so_get ops s i = (Inl e, s') \<longrightarrow>
        fst (get_job ops i q) = Inl e)
   \<and> (\<forall>s s'. lookup_job q i = None \<longrightarrow> q_store q = Some s \<longrightarrow> so_get ops s i = (Inr None, s') \<longrightarrow>
        fst (get_job ops i q) = Inr None)
   \<and> (\<forall>s s' j db. lookup_job q i = None \<longrightarrow> q_store q = Some s \<longrightarrow> so_get ops s i = (Inr (Some j), s') \<longrightarrow>
        jb_id j = i \<longrightarrow>
        fst (get_job ops i q) = Inr (Some j)
        \<and> fst (get_job ops i ((snd (get_job ops i q))\<lparr>q_store := db\<rparr>)) = Inr (Some j))"
proof -
  have l: "lookup_job (q\<lparr>q_store := db\<rparr>) k = lookup_job q k" for q :: "'a queue" and db k
    by (simp add: lookup_job_def)
  show ?thesis
    by (auto simp: get_job_def l lookup_put_job new_object_def Let_def)
qed

lemma get_job_answers_witness:
  "fst (get_job sqlite_ops ''a'' (one_waiting (sample_job ''a'' [] [] 0)))
     = Inr (Some (sample_job ''a'' [] [] 0))"
proof -
  have l: "lookup_job (one_waiting (sample_job ''a'' [] [] 0) :: sqlite_db queue) ''a'' = Some 0"
    by (simp add: lookup_job_def one_waiting_def)
  show ?thesis
    using get_job_answers[of "one_waiting (sample_job ''a'' [] [] 0)" "''a''" sqlite_ops] l
    by (simp add: one_waiting_def)
qed

subsection \<open>Waiting\<close>

lemma rem_bound:
  assumes "\<And>n. rem (Suc n) \<le> rem n - poll_wait (rem n)"
  shows "rem (n + k) \<le> 0 \<or> rem (n + k) \<le> rem n - int k * poll_interval"
proof (induction k)
  case (Suc k)
  have "rem (Suc (n + k)) \<le> rem (n + k) - poll_wait (rem (n + k))" by (rule assms)
  with Suc show ?case by (auto simp: poll_wait_def poll_interval_def split: if_splits)
qed simp

lemma wait_for_terminal_returns:
  assumes "\<And>k. rem (Suc k) \<le> rem k - poll_wait (rem k)"
    and "rem (n + m) \<le> 0" "m < fuel"
  shows "\<exists>r k. k \<le> m \<and> wait_for_terminal fuel look rem gone n = Some r \<and> r = look (n + k)
    \<and> (\<forall>j. r = Inr (Some j) \<longrightarrow> is_terminal (jb_status j) \<or> rem (n + k) \<le> 0 \<or> gone (n + k))"
  using assms(2,3)
proof (induction fuel arbitrary: n m)
  case (Suc fuel)
  show ?case
  proof (cases "\<exists>j. look n = Inr (Some j) \<and> \<not> is_terminal (jb_status j) \<and> \<not> rem n \<le> 0 \<and> \<not> gone n")
    case False
    then have "wait_for_terminal (Suc fuel) look rem gone n = Some (look n)"
      by (auto split: sum.split option.split)
    with False show ?thesis by (intro exI[of _ "look n"] exI[of _ 0]) auto
  next
    case True
    then have step: "wait_for_terminal (Suc fuel) look rem gone n = wait_for_terminal fuel look rem gone (Suc n)"
      and pos: "0 < rem n" by auto
    from pos Suc.prems(1) obtain m' where m': "m = Suc m'" by (cases m) auto
    with Suc.prems have "rem (Suc n + m') \<le> 0" "m' < fuel" by auto
    from Suc.IH[OF this] obtain r k where "k \<le> m'" "wait_for_terminal fuel look rem gone (Suc n) = Some r"
      "r = look (Suc n + k)"
      "\<forall>j. r = Inr (Some j) \<longrightarrow> is_terminal (jb_status j) \<or> rem (Suc n + k) \<le> 0 \<or> gone (Suc n + k)" by blast
    then show ?thesis using step m' by (intro exI[of _ r] exI[of _ "Suc k"]) auto
  qed
qed simp

text \<open>
  C15: Waiting for a job always ends. As long as a sleep takes at least its duration, the poll
  loop returns within \<open>remaining / 100 ms + 2\<close> rounds, and it returns what the last lookup
  said: an error, not found, or a job that is terminal unless the deadline had passed or the
  caller was gone.
\<close>

theorem wait_for_terminal_ends:
  assumes "\<And>n. rem (Suc n) \<le> rem n - poll_wait (rem n)"
    and "fuel = nat (rem 0 div poll_interval) + 3"
  shows "\<exists>k. wait_for_terminal fuel look rem gone 0 = Some (look k)
    \<and> (\<forall>j. look k = Inr (Some j) \<longrightarrow> is_terminal (jb_status j) \<or> rem k \<le> 0 \<or> gone k)"
proof -
  let ?m = "nat (rem 0 div poll_interval) + 1"
  have "rem (0 + ?m) \<le> 0"
  proof -
    have "rem 0 - int ?m * poll_interval \<le> 0" if "0 \<le> rem 0"
    proof -
      have "0 \<le> rem 0 div poll_interval" using that by (simp add: poll_interval_def)
      moreover have "rem 0 - rem 0 div poll_interval * poll_interval < poll_interval"
        unfolding minus_div_mult_eq_mod by (simp add: poll_interval_def)
      ultimately show ?thesis by (simp add: distrib_right)
    qed
    moreover have "rem 0 - int ?m * poll_interval \<le> 0" if "rem 0 < 0"
      using that by (simp add: poll_interval_def)
    ultimately show ?thesis using rem_bound[of rem 0 ?m, OF assms(1)] by linarith
  qed
  from wait_for_terminal_returns[of rem 0 ?m fuel look gone, OF assms(1) this] assms(2)
  show ?thesis by auto
qed

text \<open>A quarter of a second to the deadline, with sleeps that take exactly their time.\<close>

lemma wait_for_terminal_ends_witness:
  "\<exists>k. wait_for_terminal 5 (\<lambda>n. Inr (Some (sample_job ''a'' [] [] 0)))
      (\<lambda>n. 250000000 - 100000000 * int n) (\<lambda>n. False) 0 = Some (Inr (Some (sample_job ''a'' [] [] 0)))"
  using wait_for_terminal_ends[of "\<lambda>n. 250000000 - 100000000 * int n" 5
      "\<lambda>n. Inr (Some (sample_job ''a'' [] [] 0))" "\<lambda>n. False"]
  by (simp add: poll_wait_def poll_interval_def)

subsection \<open>Recovery\<close>

lemma resume_jobs_result:
  assumes "\<not> q_stopped q"
  shows "fst (resume_jobs js q) = None
    \<and> q_pending (snd (resume_jobs js q)) = q_pending q @ [q_next q ..< q_next q + length js]
    \<and> (\<forall>p < q_next q. q_heap (snd (resume_jobs js q)) p = q_heap q p)
    \<and> (\<forall>n < length js. q_heap (snd (resume_jobs js q)) (q_next q + n) = (js ! n)\<lparr>jb_status := Queued\<rparr>)
    \<and> (distinct (map jb_id js) \<longrightarrow> (\<forall>n < length js.
         lookup_job (snd (resume_jobs js q)) (jb_id (js ! n)) = Some (q_next q + n)))
    \<and> (\<forall>i. i \<notin> jb_id ` set js \<longrightarrow> lookup_job (snd (resume_jobs js q)) i = lookup_job q i)"
  using assms
proof (induction js arbitrary: q)
  case (Cons j js)
  let ?j = "j\<lparr>jb_status := Queued\<rparr>"
  let ?q = "signal_wake (put_job (jb_id j) (q_next q) (snd (new_object ?j q))
    \<lparr>q_pending := q_pending q @ [q_next q]\<rparr>)"
  have step: "resume_jobs (j # js) q = resume_jobs js ?q"
    using Cons.prems by (simp add: requeue_eq Let_def new_object_def put_job_def split: prod.split)
  have f: "q_next ?q = Suc (q_next q)" "q_pending ?q = q_pending q @ [q_next q]" "\<not> q_stopped ?q"
    "q_heap ?q = (q_heap q)(q_next q := ?j)"
    using Cons.prems by (simp_all add: new_object_def put_job_def signal_wake_def)
  have l: "lookup_job ?q i = (if i = jb_id j then Some (q_next q) else lookup_job q i)" for i
    using lookup_put_job[of "jb_id j" "q_next q" "snd (new_object ?j q)" i]
    by (simp add: lookup_job_def signal_wake_def new_object_def)
  note ih = Cons.IH[OF f(3), unfolded f(1,2)]
  have up: "[q_next q..<q_next q + length (j # js)] = q_next q # [Suc (q_next q)..<Suc (q_next q) + length js]"
    by (simp add: upt_rec)
  show ?case
    unfolding step
  proof (intro conjI allI impI)
    show "fst (resume_jobs js ?q) = None" using ih by blast
    show "q_pending (snd (resume_jobs js ?q)) = q_pending q @ [q_next q..<q_next q + length (j # js)]"
      unfolding up using ih by simp
  next
    fix p assume "p < q_next q"
    then show "q_heap (snd (resume_jobs js ?q)) p = q_heap q p" using ih f(4) by simp
  next
    fix n assume n: "n < length (j # js)"
    show "q_heap (snd (resume_jobs js ?q)) (q_next q + n) = ((j # js) ! n)\<lparr>jb_status := Queued\<rparr>"
    proof (cases n)
      case 0
      then show ?thesis using ih f(4) by simp
    next
      case (Suc m)
      with n have "m < length js" by simp
      with ih Suc show ?thesis by simp
    qed
    assume d: "distinct (map jb_id (j # js))"
    show "lookup_job (snd (resume_jobs js ?q)) (jb_id ((j # js) ! n)) = Some (q_next q + n)"
    proof (cases n)
      case 0
      with ih d l[of "jb_id j"] show ?thesis by simp
    next
      case (Suc m)
      with n have "m < length js" by simp
      with ih d Suc show ?thesis by simp
    qed
  next
    fix i assume "i \<notin> jb_id ` set (j # js)"
    with ih l[of i] show "lookup_job (snd (resume_jobs js ?q)) i = lookup_job q i" by simp
  qed
qed simp

subsection \<open>The queue over any store\<close>

text \<open>The table of tracked jobs is well formed: an entry points to an allocated job of that id.\<close>

definition tracked_ok :: "'s queue \<Rightarrow> bool" where
  "tracked_ok q \<longleftrightarrow> (\<forall>i p. lookup_job q i = Some p \<longrightarrow> jb_id (q_heap q p) = i \<and> p < q_next q)"

lemma tracked_ok_new: "tracked_ok (new_queue n s)"
  by (simp add: tracked_ok_def lookup_job_def new_queue_def)

lemma lookup_track:
  "lookup_job (snd (track_and_enqueue k q)) i = (if i = jb_id k then Some (q_next q) else lookup_job q i)"
  using lookup_put_job[of "jb_id k" "q_next q" "snd (new_object k q)" i]
  by (simp add: track_and_enqueue_simps lookup_job_def new_object_def)

lemma tracked_ok_track: "tracked_ok q \<Longrightarrow> tracked_ok (snd (track_and_enqueue k q))"
  by (auto simp: tracked_ok_def lookup_track less_Suc_eq) (auto simp: track_and_enqueue_simps less_Suc_eq)

lemma dedupe_result:
  assumes "tracked_ok q" "dedupe k q = (cp, q')"
  shows "jb_id cp = jb_id k \<and> tracked_ok q' \<and> q_pending q' = q_pending q \<and> q_store q' = q_store q"
proof (cases "lookup_job q (jb_id k)")
  case None
  let ?n = "snd (new_object k q)"
  have e: "cp = k" "q' = put_job (jb_id k) (q_next q) ?n"
    using None assms(2) by (auto simp: dedupe_def new_object_def Let_def)
  have n: "lookup_job ?n i = lookup_job q i" for i
    by (simp add: lookup_job_def new_object_def)
  have "tracked_ok q'"
    using assms(1) unfolding e(2) tracked_ok_def
    by (auto simp: lookup_put_job n) (auto simp: put_job_def new_object_def less_Suc_eq)
  moreover have "q_pending q' = q_pending q \<and> q_store q' = q_store q"
    unfolding e(2) by (simp add: put_job_def new_object_def)
  ultimately show ?thesis using e(1) by blast
next
  case (Some p)
  with assms have "cp = q_heap q p" "q' = q" "jb_id (q_heap q p) = jb_id k"
    by (auto simp: dedupe_def tracked_ok_def)
  with assms(1) show ?thesis by simp
qed

context job_store
begin

lemma submit_effect:
  assumes "ok s" "q_store q = Some s" "tracked_ok q" "new_job j" "times_ok time_ok j"
    and sub: "submit_job ops j q = (Inr cp, q')"
  shows "\<exists>s'. q_store q' = Some s' \<and> ok s' \<and> tracked_ok q'
    \<and> (\<exists>r. view s' (jb_id cp) = Some r \<and> jb_tool r = jb_tool j \<and> jb_key r = jb_key j)
    \<and> (\<forall>i r. view s i = Some r \<longrightarrow> jb_key j \<noteq> [] \<longrightarrow> jb_tool r = jb_tool j \<longrightarrow> jb_key r = jb_key j \<longrightarrow>
         jb_id cp = i \<and> q_pending q' = q_pending q)"
proof (rule submit_job_cases[of ops j q])
  fix e assume "submit_job ops j q = (Inl e, q)"
  with sub show ?thesis by simp
next
  assume "q_store q = None"
  with assms(2) show ?thesis by simp
next
  fix s0 e s' assume "submit_job ops j q
      = (Inl (PersistJob e), release (q\<lparr>q_reserved := q_reserved q + 1, q_store := Some s'\<rparr>))"
  with sub show ?thesis by simp
next
  fix s0 k s1
  assume st: "q_store q = Some s0" and i: "so_insert ops s0 j (jb_key j) = (Inr (k, True), s1)"
    and r: "submit_job ops j q
      = (Inr k, snd (track_and_enqueue k (q\<lparr>q_reserved := q_reserved q + 1, q_store := Some s1\<rparr>)))"
  let ?q = "q\<lparr>q_reserved := q_reserved q + 1, q_store := Some s1\<rparr>"
  have i': "so_insert ops s j (jb_key j) = (Inr (k, True), s1)" using i st assms(2) by simp
  from insert_created[OF assms(1,4,5) i'] have c: "ok s1" "view s1 (jb_id j) = Some (stored_as st j)"
    "jb_id k = jb_id j" by auto
  have e: "cp = k" "q' = snd (track_and_enqueue k ?q)" using sub r by auto
  have "tracked_ok ?q" using assms(3) by (simp add: tracked_ok_def lookup_job_def)
  then have "tracked_ok q'" unfolding e by (rule tracked_ok_track)
  moreover have "q_store q' = Some s1" unfolding e by (simp add: track_and_enqueue_simps)
  moreover have False
    if "view s a = Some x" "jb_key j \<noteq> []" "jb_tool x = jb_tool j" "jb_key x = jb_key j" for a x
    using resubmit[OF assms(1,4,5) that(1) that(3,4,2) i'] by simp
  ultimately show ?thesis using c e by auto
next
  fix s0 k s1
  assume st: "q_store q = Some s0" and i: "so_insert ops s0 j (jb_key j) = (Inr (k, False), s1)"
    and r: "submit_job ops j q
      = (case dedupe k (release (q\<lparr>q_reserved := q_reserved q + 1, q_store := Some s1\<rparr>)) of
           (cp, q') \<Rightarrow> (Inr cp, q'))"
  let ?q = "release (q\<lparr>q_reserved := q_reserved q + 1, q_store := Some s1\<rparr>)"
  have i': "so_insert ops s j (jb_key j) = (Inr (k, False), s1)" using i st assms(2) by simp
  from insert_existing[OF assms(1,4,5) i'] have c: "ok s1" "view s1 = view s" "view s (jb_id k) = Some k"
    "jb_tool k = jb_tool j" "jb_key k = jb_key j" by auto
  have d: "dedupe k ?q = (cp, q')" using sub r by (auto split: prod.splits)
  have "tracked_ok ?q" using assms(3) by (simp add: tracked_ok_def lookup_job_def release_def)
  from dedupe_result[OF this d] have e: "jb_id cp = jb_id k" "tracked_ok q'" "q_pending q' = q_pending q"
    "q_store q' = Some s1" by simp_all
  have "jb_id k = a"
    if "view s a = Some x" "jb_key j \<noteq> []" "jb_tool x = jb_tool j" "jb_key x = jb_key j" for a x
    using resubmit[OF assms(1,4,5) that(1) that(3,4,2) i'] view_ok[OF assms(1)] that(1)
    by (simp add: view_ok_def)
  with c e show ?thesis by auto
qed

text \<open>A job the database shows after a submission was there before or is the submitted one.\<close>

lemma submit_stores:
  assumes "ok s" "q_store q = Some s" "new_job j" "times_ok time_ok j"
    and sub: "submit_job ops j q = (Inr cp, q')" and s': "q_store q' = Some s'" and v: "view s' i = Some r"
  shows "view s i = Some r \<or> jb_status r = jb_status j"
proof -
  obtain o1 s1 where i: "so_insert ops s j (jb_key j) = (o1, s1)" by fastforce
  have "s' = s1"
    by (rule submit_job_cases[of ops j q])
       (use sub s' assms(2) i in \<open>auto simp: track_and_enqueue_simps dest!: dedupe_pair split: prod.splits\<close>)
  moreover have "view s1 = view s \<or> view s1 = (view s)(jb_id j \<mapsto> stored_as st j)"
  proof (cases o1)
    case (Inl e)
    with i insert_error[OF assms(1,3,4), of e s1] show ?thesis by auto
  next
    case (Inr x)
    then obtain k b where "o1 = Inr (k, b)" by (cases x) auto
    with i insert_created[OF assms(1,3,4), of k s1] insert_existing[OF assms(1,3,4), of k s1]
    show ?thesis by (cases b) auto
  qed
  ultimately show ?thesis using v by (auto split: if_splits)
qed

lemma submit_twice:
  assumes "ok s" "q_store q = Some s" "tracked_ok q"
    and "new_job j" "times_ok time_ok j" "new_job k" "times_ok time_ok k"
    and "jb_tool k = jb_tool j" "jb_key k = jb_key j" "jb_key j \<noteq> []"
    and "submit_job ops j q = (Inr c1, q1)" "submit_job ops k q1 = (Inr c2, q2)"
  shows "jb_id c2 = jb_id c1 \<and> q_pending q2 = q_pending q1"
proof -
  from submit_effect[OF assms(1-5,11)] obtain s1 r where s1: "q_store q1 = Some s1" "ok s1" "tracked_ok q1"
    "view s1 (jb_id c1) = Some r" "jb_tool r = jb_tool j" "jb_key r = jb_key j" by blast
  from submit_effect[OF s1(2,1,3) assms(6,7,12)] s1(4-6) assms(8-10) show ?thesis by metis
qed

lemma resume_recovers:
  assumes "ok s" "q_store q = Some s" "\<not> q_stopped q" "resume ops q = (n, None, q')"
  shows "(\<forall>i j. view s i = Some j \<longrightarrow> \<not> is_terminal (jb_status j) \<longrightarrow>
           (\<exists>p\<in>set (drop (length (q_pending q)) (q_pending q')).
              q_heap q' p = j\<lparr>jb_status := Queued\<rparr> \<and> lookup_job q' i = Some p))
       \<and> n = card {i. \<exists>j. view s i = Some j \<and> \<not> is_terminal (jb_status j)}
       \<and> length (q_pending q') = length (q_pending q) + n"
proof -
  obtain rl s1 where l: "so_load_incomplete ops s = (rl, s1)" by fastforce
  from assms(2,4) l obtain js where js: "rl = Inr js" "n = length js"
    "resume_jobs js (q\<lparr>q_store := Some s1\<rparr>) = (None, q')"
    by (auto simp: resume_def split: sum.splits prod.splits)
  from load_incomplete[OF assms(1) l] js(1) have d: "distinct (map jb_id js)"
    and mem: "\<And>j. j \<in> set js \<longleftrightarrow> view s (jb_id j) = Some j \<and> incomplete j" by auto
  note r = resume_jobs_result[of "q\<lparr>q_store := Some s1\<rparr>" js, unfolded js(3), simplified, OF assms(3)]
  have pend: "q_pending q' = q_pending q @ [q_next q..<q_next q + length js]" using r by blast
  have ids: "view s i = Some j \<Longrightarrow> jb_id j = i" for i j
    using view_ok[OF assms(1)] by (simp add: view_ok_def)
  have "\<exists>p\<in>set (drop (length (q_pending q)) (q_pending q')).
      q_heap q' p = j\<lparr>jb_status := Queued\<rparr> \<and> lookup_job q' i = Some p"
    if "view s i = Some j" "\<not> is_terminal (jb_status j)" for i j
  proof -
    have "j \<in> set js" using that mem ids by (simp add: incomplete_iff)
    then obtain m where m: "m < length js" "js ! m = j" by (auto simp: in_set_conv_nth)
    with r d ids[OF that(1)] have "q_heap q' (q_next q + m) = j\<lparr>jb_status := Queued\<rparr>"
      "lookup_job q' i = Some (q_next q + m)" by auto
    with m pend show ?thesis by (intro bexI[of _ "q_next q + m"]) auto
  qed
  moreover have "{i. \<exists>j. view s i = Some j \<and> \<not> is_terminal (jb_status j)} = jb_id ` set js"
    using mem ids by (auto simp: incomplete_iff image_iff)
  then have "n = card {i. \<exists>j. view s i = Some j \<and> \<not> is_terminal (jb_status j)}"
    using d js(2) by (simp add: card_image distinct_map distinct_card)
  ultimately show ?thesis using pend js(2) by simp
qed

text \<open>
  A crash and a restart: the process that accepted the submission makes whatever store calls
  it makes and stops; a new process opens a queue over the database it left and resumes.
\<close>

lemma restart_requeues:
  assumes "ok s" "q_store q = Some s" "tracked_ok q" "new_job j" "times_ok time_ok j"
    and "jb_status j = Queued"
    and sub: "submit_job ops j q = (Inr cp, q1)" and s1: "q_store q1 = Some s1"
    and stored: "\<forall>r. view s (jb_id cp) = Some r \<longrightarrow> \<not> is_terminal (jb_status r)"
    and cs: "\<forall>c\<in>set cs. call_ok time_ok c \<and> leaves_open (jb_id cp) c"
    and res: "resume ops (new_queue w (Some (run_calls ops s1 cs))) = (n, None, q2)"
  shows "\<exists>p\<in>set (q_pending q2). lookup_job q2 (jb_id cp) = Some p
    \<and> jb_id (q_heap q2 p) = jb_id cp \<and> jb_status (q_heap q2 p) = Queued
    \<and> jb_tool (q_heap q2 p) = jb_tool j \<and> jb_key (q_heap q2 p) = jb_key j"
proof -
  from submit_effect[OF assms(1-5) sub] s1 obtain r where r: "ok s1" "view s1 (jb_id cp) = Some r"
    "jb_tool r = jb_tool j" "jb_key r = jb_key j" by auto
  have inc: "incomplete r"
    using submit_stores[OF assms(1,2,4,5) sub s1 r(2)] assms(6) stored
    by (auto simp: incomplete_def not_terminal_iff)
  from calls_keep[OF r(1) _ r(2), of cs] cs inc obtain k where k: "ok (run_calls ops s1 cs)"
    "view (run_calls ops s1 cs) (jb_id cp) = Some k" "incomplete k" "jb_tool k = jb_tool r"
    "jb_key k = jb_key r" by auto
  from view_ok[OF k(1)] k(2) have "jb_id k = jb_id cp" by (simp add: view_ok_def)
  moreover have "\<exists>p\<in>set (q_pending q2). q_heap q2 p = k\<lparr>jb_status := Queued\<rparr>
      \<and> lookup_job q2 (jb_id cp) = Some p"
    using resume_recovers[OF k(1) _ _ res] k(2,3) by (auto simp: new_queue_def incomplete_iff)
  ultimately show ?thesis using k(4,5) r(3,4) by auto
qed

end

text \<open>Submissions to a desk that has just started, for the witnesses.\<close>

lemma first_submit:
  obtains q1 where
    "submit_job sqlite_ops (sample_job ''a'' key [] 0) (new_queue w (Some empty_db))
       = (Inr (sample_job ''a'' key [] 0), q1)"
    "q_store q1 = Some (one_job_db ''a'' key)" "\<not> q_stopped q1"
    "length (q_pending q1) + q_reserved q1 < max_pending"
proof -
  let ?j = "sample_job ''a'' key [] 0" and ?q = "new_queue w (Some empty_db)"
  let ?q1 = "snd (track_and_enqueue ?j (?q\<lparr>q_reserved := q_reserved ?q + 1, q_store := Some (one_job_db ''a'' key)\<rparr>))"
  have i: "sqlite_insert empty_db ?j key = (Inr (?j, True), one_job_db ''a'' key)"
    using one_job_db[of "''a''" key] by simp
  have "submit_job sqlite_ops ?j ?q = (Inr ?j, ?q1)"
    by (simp add: submit_job_def reserve_def new_queue_def max_pending_def i track_and_enqueue_simps
        split: prod.split)
  then show thesis
    by (rule that) (simp_all add: track_and_enqueue_simps new_queue_def max_pending_def)
qed

lemma submit_deduped:
  assumes "\<not> q_stopped q" "length (q_pending q) + q_reserved q < max_pending" "q_store q = Some s"
    and "so_insert ops s k (jb_key k) = (Inr (e, False), s')"
  shows "\<exists>c q2. submit_job ops k q = (Inr c, q2)"
  using assms by (simp add: submit_job_def reserve_def split: prod.split)

lemma resume_loads:
  assumes "q_store q = Some s" "\<not> q_stopped q" "so_load_incomplete ops s = (Inr js, s')"
  shows "\<exists>n q2. resume ops q = (n, None, q2)"
proof -
  have "fst (resume_jobs js (q\<lparr>q_store := Some s'\<rparr>)) = None"
    using resume_jobs_result[of "q\<lparr>q_store := Some s'\<rparr>" js] assms(2) by simp
  then show ?thesis
    using assms by (cases "resume_jobs js (q\<lparr>q_store := Some s'\<rparr>)") (simp add: resume_def)
qed

text \<open>
  C14: Submitting twice with one tool and idempotency key is submitting once, over the real
  store and across the whole queue: the second submission answers with the first one's job,
  under whatever fresh id and input it came with, and enqueues nothing more.
\<close>

theorem sqlite_submit_idempotent:
  assumes "sqlite_ok db" "q_store q = Some db" "tracked_ok q"
    and "new_job j" "times_ok valid_time j" "new_job k" "times_ok valid_time k"
    and "jb_tool k = jb_tool j" "jb_key k = jb_key j" "jb_key j \<noteq> []"
    and "submit_job sqlite_ops j q = (Inr c1, q1)" "submit_job sqlite_ops k q1 = (Inr c2, q2)"
  shows "jb_id c2 = jb_id c1 \<and> q_pending q2 = q_pending q1"
  by (rule sq.submit_twice[OF assms])

lemma sqlite_submit_idempotent_witness:
  "\<exists>c1 c2 q1 q2. submit_job sqlite_ops (sample_job ''a'' ''k'' [] 0) (new_queue 1 (Some empty_db)) = (Inr c1, q1)
     \<and> submit_job sqlite_ops (sample_job ''b'' ''k'' [] 7) q1 = (Inr c2, q2)
     \<and> jb_id c2 = jb_id c1 \<and> q_pending q2 = q_pending q1"
proof -
  let ?k = "sample_job ''b'' ''k'' [] 7"
  obtain q1 where 1: "submit_job sqlite_ops (sample_job ''a'' ''k'' [] 0) (new_queue 1 (Some empty_db))
      = (Inr (sample_job ''a'' ''k'' [] 0), q1)" "q_store q1 = Some (one_job_db ''a'' ''k'')"
    "\<not> q_stopped q1" "length (q_pending q1) + q_reserved q1 < max_pending" by (rule first_submit)
  have "so_insert sqlite_ops (one_job_db ''a'' ''k'') ?k (jb_key ?k)
      = (Inr (sample_job ''a'' ''k'' [] 0, False), one_job_db ''a'' ''k'')"
    using one_job_db_again by simp
  from submit_deduped[OF 1(3,4,2) this] obtain c2 q2
    where 2: "submit_job sqlite_ops ?k q1 = (Inr c2, q2)" by blast
  have "valid_time (GTime 2025 1 2 3 4 5 0)" "valid_time (GTime 2025 1 2 3 4 5 7)"
    by (simp_all add: valid_time_def days_in_def)
  with sqlite_submit_idempotent[OF empty_db_ok _ tracked_ok_new sample_job_ok(1,2) sample_job_ok(1,2) _ _ _ 1(1) 2]
    1 2 show ?thesis by (auto simp: new_queue_def)
qed

text \<open>
  C13: An accepted job is requeued after a crash. Once a submission was answered with a job,
  then, whatever store calls follow and however they end, as long as none of them writes that
  job as finished, a new process over the same database resumes with the job in its backlog,
  Queued, tracked under its id, with the tool and the key it was submitted with.
\<close>

theorem sqlite_crash_recovery:
  assumes "sqlite_ok db" "q_store q = Some db" "tracked_ok q" "new_job j" "times_ok valid_time j"
    and "jb_status j = Queued"
    and "submit_job sqlite_ops j q = (Inr cp, q1)" "q_store q1 = Some db1"
    and "\<forall>r. sqlite_view db (jb_id cp) = Some r \<longrightarrow> \<not> is_terminal (jb_status r)"
    and "\<forall>c\<in>set cs. call_ok valid_time c \<and> leaves_open (jb_id cp) c"
    and "resume sqlite_ops (new_queue w (Some (run_calls sqlite_ops db1 cs))) = (n, None, q2)"
  shows "\<exists>p\<in>set (q_pending q2). lookup_job q2 (jb_id cp) = Some p
    \<and> jb_id (q_heap q2 p) = jb_id cp \<and> jb_status (q_heap q2 p) = Queued
    \<and> jb_tool (q_heap q2 p) = jb_tool j \<and> jb_key (q_heap q2 p) = jb_key j"
  by (rule sq.restart_requeues[OF assms])

lemma sqlite_crash_recovery_witness:
  "\<exists>n q2. resume sqlite_ops (new_queue 4 (Some (run_calls sqlite_ops (one_job_db ''a'' [])
       [CAck ''b'' (GTime 2025 1 2 3 4 6 0)]))) = (n, None, q2)
     \<and> (\<exists>p\<in>set (q_pending q2). jb_id (q_heap q2 p) = ''a'' \<and> jb_status (q_heap q2 p) = Queued)"
proof -
  let ?j = "sample_job ''a'' [] [] 0" and ?cs = "[CAck ''b'' (GTime 2025 1 2 3 4 6 0)]"
  obtain q1 where 1: "submit_job sqlite_ops ?j (new_queue 1 (Some empty_db)) = (Inr ?j, q1)"
    "q_store q1 = Some (one_job_db ''a'' [])" by (rule first_submit)
  have c: "\<forall>c\<in>set ?cs. call_ok valid_time c \<and> leaves_open (jb_id ?j) c"
    by (simp add: valid_time_def days_in_def)
  have v: "\<forall>r. sqlite_view empty_db (jb_id ?j) = Some r \<longrightarrow> \<not> is_terminal (jb_status r)"
    by (simp add: sqlite_view_def table_view_def empty_db_def)
  obtain n q2 where r: "resume sqlite_ops (new_queue 4 (Some (run_calls sqlite_ops (one_job_db ''a'' []) ?cs)))
      = (n, None, q2)"
    using resume_loads[of "new_queue 4 (Some (run_calls sqlite_ops (one_job_db ''a'' []) ?cs))"]
      one_job_db_reload by (fastforce simp: new_queue_def)
  from sqlite_crash_recovery[OF empty_db_ok _ tracked_ok_new sample_job_ok(1,2) _ 1 v c r] r
  show ?thesis by (auto simp: new_queue_def)
qed

end
