(* ===== verification/Queue_Steps.thy ===== *)
theory Queue_Steps
  imports Queue_Ops Postgres_Store
begin

text \<open>
  The goroutines of the desk, interleaved. \<^verbatim>\<open>Queue\<close> composes the critical sections of
  \<^verbatim>\<open>cmd/agent-desk/queue.go\<close> in the order of one caller; here the dispatcher, the workers, the
  handlers' calls and the recovery at start-up are threads with a program point each, and a
  step of the desk is one critical section, or one store call, of one of them. What a thread
  has read under the lock and not yet used is part of its program point: the copy of a job
  that is still to be persisted, the cancel function that is still to be called.

  \<open>ds_accepted\<close> and \<open>ds_ids\<close> are history: the job objects that were promised to be run, and
  the ids drawn so far. That ids are drawn from a cryptographic source is used as: an id that
  is drawn is new.
\<close>

subsection \<open>Threads\<close>

datatype worker =
    WIdle
  | WTaken nat
  | WSave nat nat job
  | WRun nat nat
  | WJudge nat exec_result
  | WRetry nat string job
  | WSleep nat string
  | WRequeue nat string
  | WSignal
  | WFinish nat gval "string option"
  | WFinishC nat
  | WLast job
  | WGone

datatype client =
    CInsert job
  | CRelease
  | CDup job
  | CDedupe job
  | CTrack job
  | CEnqueue nat
  | CFound job
  | CStop "nat option" job
  | CSave job
  | CSaveAck job
  | CRequeue nat
  | CSignal
  | CDone

datatype dispatcher = DIdle | DWait | DHand nat | DGone

record 's desk_state =
  ds_queue :: "'s queue"
  ds_disp :: dispatcher
  ds_workers :: "worker list"
  ds_clients :: "client list"
  ds_resume :: "job list"
  ds_accepted :: "nat list"
  ds_ids :: "string set"

text \<open>
  The dispatcher: \<^verbatim>\<open>dispatch\<close>. It looks at the backlog, waits for a wake when that was empty, and
  hands what it took to the channel when there is room.
\<close>

inductive dispatcher_step :: "'s queue \<Rightarrow> dispatcher \<Rightarrow> 's queue \<Rightarrow> dispatcher \<Rightarrow> bool" where
  take: "dispatch_take q = (Some p, q') \<Longrightarrow> dispatcher_step q DIdle q' (DHand p)"
| hand: "dispatch_send p q = Some q' \<Longrightarrow> dispatcher_step q (DHand p) q' DIdle"
| park: "dispatch_take q = (None, q') \<Longrightarrow> dispatcher_step q DIdle q' DWait"
| woken: "take_wake q = Some q' \<Longrightarrow> dispatcher_step q DWait q' DIdle"
| quit_hand: "q_stopped q \<Longrightarrow> dispatcher_step q (DHand p) q DGone"
| quit_wait: "q_stopped q \<Longrightarrow> dispatcher_step q DWait q DGone"

text \<open>A worker: \<^verbatim>\<open>worker\<close> and \<^verbatim>\<open>process\<close>. How the tool's run ended is any result.\<close>

inductive worker_step ::
    "'s store_ops \<Rightarrow> (string \<Rightarrow> tool option) \<Rightarrow> 's queue \<Rightarrow> worker \<Rightarrow> 's queue \<Rightarrow> worker \<Rightarrow> bool"
  for ops :: "'s store_ops" and tools :: "string \<Rightarrow> tool option" where
  receive: "worker_receive q = Some (p, q') \<Longrightarrow> worker_step ops tools q WIdle q' (WTaken p)"
| quit: "q_stopped q \<Longrightarrow> worker_step ops tools q WIdle q WGone"
| no_tool: "tools (jb_tool (q_heap q p)) = None \<Longrightarrow>
    worker_step ops tools q (WTaken p) q (WFinish p GNull (Some ''tool not found''))"
| start: "tools (jb_tool (q_heap q p)) = Some t \<Longrightarrow> begin_attempt p now q = (Some (ctx, cp), q') \<Longrightarrow>
    worker_step ops tools q (WTaken p) q' (WSave p ctx cp)"
| start_canceled: "tools (jb_tool (q_heap q p)) = Some t \<Longrightarrow> begin_attempt p now q = (None, q') \<Longrightarrow>
    worker_step ops tools q (WTaken p) q' (WFinishC p)"
| save: "worker_step ops tools q (WSave p ctx cp) (persist ops cp q) (WRun p ctx)"
| ran: "end_attempt p q = (c, q') \<Longrightarrow>
    worker_step ops tools q (WRun p ctx) (cancel_ctx (Some ctx) q')
      (if c then WFinishC p else WJudge p outcome)"
| verdict: "judge outcome (q_heap q p) = VFinish res err \<Longrightarrow>
    worker_step ops tools q (WJudge p outcome) q (WFinish p res err)"
| again: "judge outcome (q_heap q p) = VRetry msg \<Longrightarrow> mark_retry p msg q = (cp, q') \<Longrightarrow>
    worker_step ops tools q (WJudge p outcome) q' (WRetry p msg cp)"
| save_retry: "worker_step ops tools q (WRetry p msg cp) (persist ops cp q) (WSleep p msg)"
| wake: "worker_step ops tools q (WSleep p msg) q
    (if jb_status (q_heap q p) = Canceled then WFinishC p else WRequeue p msg)"
| stop_asleep: "q_stopped q \<Longrightarrow>
    worker_step ops tools q (WSleep p msg) q (WFinish p GNull (Some msg))"
| requeue: "push_backlog p q = (None, q') \<Longrightarrow> worker_step ops tools q (WRequeue p msg) q' WSignal"
| signal: "worker_step ops tools q WSignal (signal_wake q) WIdle"
| refused: "push_backlog p q = (Some e, q') \<Longrightarrow>
    worker_step ops tools q (WRequeue p msg) q' (WFinish p GNull (Some msg))"
| finish: "finish p res err now q = (cp, q') \<Longrightarrow>
    worker_step ops tools q (WFinish p res err) q' (WLast cp)"
| finish_canceled: "finish_canceled p now q = (cp, q') \<Longrightarrow>
    worker_step ops tools q (WFinishC p) q' (WLast cp)"
| save_last: "worker_step ops tools q (WLast cp) (persist ops cp q) WIdle"

text \<open>
  A call from a handler begins: \<^verbatim>\<open>submit\<close> when admitted, \<^verbatim>\<open>Get\<close> of a job that is only stored,
  \<^verbatim>\<open>Cancel\<close> and \<^verbatim>\<open>Ack\<close> of a tracked job when they change it, and the calls that only reach
  the store.
\<close>

inductive arrive :: "'s store_ops \<Rightarrow> 's queue \<Rightarrow> 's queue \<Rightarrow> client \<Rightarrow> bool"
  for ops :: "'s store_ops" where
  submit: "reserve q = (None, q') \<Longrightarrow>
    arrive ops q q' (CInsert (make_job random now t input meta key batch))"
| found: "lookup_job q i = None \<Longrightarrow> q_store q = Some s \<Longrightarrow> so_get ops s i = (Inr (Some k), s') \<Longrightarrow>
    arrive ops q (q\<lparr>q_store := Some s'\<rparr>) (CFound k)"
| cancel: "lookup_job q i = Some p \<Longrightarrow> cancel_tracked i p now q = ((j, True, c), q') \<Longrightarrow>
    arrive ops q q' (CStop c j)"
| ack: "lookup_job q i = Some p \<Longrightarrow> ack_tracked p now q = (Some (j, True), q') \<Longrightarrow>
    arrive ops q q' (CSaveAck j)"
| store_get: "q_store q = Some s \<Longrightarrow> so_get ops s i = (r, s') \<Longrightarrow>
    arrive ops q (q\<lparr>q_store := Some s'\<rparr>) CDone"
| store_ack: "q_store q = Some s \<Longrightarrow> so_ack ops s i now = (ra, s') \<Longrightarrow>
    arrive ops q (q\<lparr>q_store := Some s'\<rparr>) CDone"
| store_inbox: "q_store q = Some s \<Longrightarrow> so_list_unacked ops s n = (rl, s') \<Longrightarrow>
    arrive ops q (q\<lparr>q_store := Some s'\<rparr>) CDone"
| store_batch: "q_store q = Some s \<Longrightarrow> so_list_by_batch ops s b = (rl, s') \<Longrightarrow>
    arrive ops q (q\<lparr>q_store := Some s'\<rparr>) CDone"

text \<open>The rest of a call.\<close>

inductive client_step :: "'s store_ops \<Rightarrow> 's queue \<Rightarrow> client \<Rightarrow> 's queue \<Rightarrow> client \<Rightarrow> bool"
  for ops :: "'s store_ops" where
  memory: "q_store q = None \<Longrightarrow> client_step ops q (CInsert j) q (CTrack j)"
| failed: "q_store q = Some s \<Longrightarrow> so_insert ops s j (jb_key j) = (Inl e, s') \<Longrightarrow>
    client_step ops q (CInsert j) (q\<lparr>q_store := Some s'\<rparr>) CRelease"
| created: "q_store q = Some s \<Longrightarrow> so_insert ops s j (jb_key j) = (Inr (k, True), s') \<Longrightarrow>
    client_step ops q (CInsert j) (q\<lparr>q_store := Some s'\<rparr>) (CTrack k)"
| duplicate: "q_store q = Some s \<Longrightarrow> so_insert ops s j (jb_key j) = (Inr (k, False), s') \<Longrightarrow>
    client_step ops q (CInsert j) (q\<lparr>q_store := Some s'\<rparr>) (CDup k)"
| release: "client_step ops q CRelease (release q) CDone"
| release_dup: "client_step ops q (CDup k) (release q) (CDedupe k)"
| dedupe: "client_step ops q (CDedupe k) (snd (dedupe k q)) CDone"
| track: "new_object k q = (p, q') \<Longrightarrow>
    client_step ops q (CTrack k) (put_job (jb_id k) p q') (CEnqueue p)"
| enqueue: "client_step ops q (CEnqueue p) (push_reserved p q) CSignal"
| signal: "client_step ops q CSignal (signal_wake q) CDone"
| found: "new_object k q = (p, q') \<Longrightarrow>
    client_step ops q (CFound k) (put_job (jb_id k) p q') CDone"
| stop: "client_step ops q (CStop c j) (cancel_ctx c q) (CSave j)"
| save: "client_step ops q (CSave j) (persist ops j q) CDone"
| save_ack: "client_step ops q (CSaveAck j) (persist_ack ops j q) CDone"
| requeue: "push_backlog p q = (None, q') \<Longrightarrow> client_step ops q (CRequeue p) q' CSignal"
| refused: "push_backlog p q = (Some e, q') \<Longrightarrow> client_step ops q (CRequeue p) q' CDone"

fun c_ids :: "client \<Rightarrow> string list" where
  "c_ids (CInsert j) = [jb_id j]"
| "c_ids (CTrack j) = [jb_id j]"
| "c_ids _ = []"

fun c_new :: "client \<Rightarrow> client \<Rightarrow> nat list" where
  "c_new (CTrack k) (CEnqueue p) = [p]"
| "c_new _ _ = []"

inductive desk_step ::
    "'s store_ops \<Rightarrow> (string \<Rightarrow> tool option) \<Rightarrow> 's desk_state \<Rightarrow> 's desk_state \<Rightarrow> bool"
  for ops :: "'s store_ops" and tools :: "string \<Rightarrow> tool option" where
  dispatcher: "dispatcher_step (ds_queue s) (ds_disp s) q' d' \<Longrightarrow>
    desk_step ops tools s (s\<lparr>ds_queue := q', ds_disp := d'\<rparr>)"
| worker: "ds_workers s = ws @ w # us \<Longrightarrow> worker_step ops tools (ds_queue s) w q' w' \<Longrightarrow>
    desk_step ops tools s (s\<lparr>ds_queue := q', ds_workers := ws @ w' # us\<rparr>)"
| arrive: "arrive ops (ds_queue s) q' c \<Longrightarrow> set (c_ids c) \<inter> ds_ids s = {} \<Longrightarrow>
    desk_step ops tools s
      (s\<lparr>ds_queue := q', ds_clients := ds_clients s @ [c], ds_ids := ds_ids s \<union> set (c_ids c)\<rparr>)"
| client: "ds_clients s = cs @ c # es \<Longrightarrow> client_step ops (ds_queue s) c q' c' \<Longrightarrow>
    desk_step ops tools s
      (s\<lparr>ds_queue := q', ds_clients := cs @ c' # es, ds_accepted := ds_accepted s @ c_new c c'\<rparr>)"
| resume: "ds_resume s = j # js \<Longrightarrow> new_object (j\<lparr>jb_status := Queued\<rparr>) (ds_queue s) = (p, q') \<Longrightarrow>
    desk_step ops tools s
      (s\<lparr>ds_queue := put_job (jb_id j) p q', ds_resume := js, ds_clients := ds_clients s @ [CRequeue p],
         ds_accepted := ds_accepted s @ [p]\<rparr>)"
| stop: "desk_step ops tools s (s\<lparr>ds_queue := (ds_queue s)\<lparr>q_stopped := True\<rparr>\<rparr>)"

text \<open>A desk that starts: the jobs to resume are what the store lists as incomplete.\<close>

definition fresh_desk :: "'s queue \<Rightarrow> job list \<Rightarrow> 's desk_state" where
  "fresh_desk q js =
     \<lparr>ds_queue = q, ds_disp = DIdle, ds_workers = replicate (q_workers q) WIdle, ds_clients = [],
      ds_resume = js, ds_accepted = [], ds_ids = set (map jb_id js)\<rparr>"

inductive reachable :: "'s store_ops \<Rightarrow> (string \<Rightarrow> tool option) \<Rightarrow> int \<Rightarrow> nat \<Rightarrow> 's desk_state \<Rightarrow> bool"
  for ops :: "'s store_ops" and tools :: "string \<Rightarrow> tool option" and n :: int and m :: nat where
  memory: "m = 0 \<Longrightarrow> reachable ops tools n m (fresh_desk (new_queue n None) [])"
| stored: "so_load_incomplete ops st = (Inr js, st') \<Longrightarrow> distinct (map jb_id js) \<Longrightarrow> m = length js \<Longrightarrow>
    reachable ops tools n m (fresh_desk (new_queue n (Some st')) js)"
| step: "reachable ops tools n m s \<Longrightarrow> desk_step ops tools s s' \<Longrightarrow> reachable ops tools n m s'"


subsection \<open>Who holds a job\<close>

fun d_ptr :: "dispatcher \<Rightarrow> nat list" where
  "d_ptr (DHand p) = [p]"
| "d_ptr _ = []"

fun w_ptr :: "worker \<Rightarrow> nat list" where
  "w_ptr (WTaken p) = [p]"
| "w_ptr (WSave p ctx cp) = [p]"
| "w_ptr (WRun p ctx) = [p]"
| "w_ptr (WJudge p outcome) = [p]"
| "w_ptr (WRetry p msg cp) = [p]"
| "w_ptr (WSleep p msg) = [p]"
| "w_ptr (WRequeue p msg) = [p]"
| "w_ptr (WFinish p res err) = [p]"
| "w_ptr (WFinishC p) = [p]"
| "w_ptr _ = []"

fun c_ptr :: "client \<Rightarrow> nat list" where
  "c_ptr (CEnqueue p) = [p]"
| "c_ptr (CRequeue p) = [p]"
| "c_ptr _ = []"

definition owners :: "'s desk_state \<Rightarrow> nat multiset" where
  "owners s =
     mset (q_pending (ds_queue s)) + mset (q_ch (ds_queue s)) + mset (d_ptr (ds_disp s))
     + mset (concat (map w_ptr (ds_workers s))) + mset (concat (map c_ptr (ds_clients s)))"

text \<open>A job is over when it is done or failed; a canceled one is terminal and may still be in a hand.\<close>

definition over :: "job \<Rightarrow> bool" where
  "over j \<longleftrightarrow> jb_status j = Done \<or> jb_status j = Failed"

lemma over_terminal: "over j \<Longrightarrow> is_terminal (jb_status j)"
  by (auto simp: over_def is_terminal_def)

definition w_ok :: "'s queue \<Rightarrow> worker \<Rightarrow> bool" where
  "w_ok q w \<longleftrightarrow> (\<forall>p. w = WFinishC p \<longrightarrow> jb_status (q_heap q p) = Canceled)"

lemmas section_defs = dispatch_take_def dispatch_send_def worker_receive_def begin_attempt_def
  end_attempt_def mark_retry_def push_backlog_def take_wake_def finish_def finish_canceled_def Let_def

lemma worker_step_frame:
  assumes "worker_step ops tools q w q' w'"
  shows "q_next q' = q_next q \<and> q_jobs q' = q_jobs q \<and> q_stopped q' = q_stopped q
    \<and> q_reserved q' = q_reserved q \<and> (\<forall>x. jb_id (q_heap q' x) = jb_id (q_heap q x))
    \<and> (\<forall>x. x \<notin> set (w_ptr w) \<longrightarrow> q_heap q' x = q_heap q x)"
  using assms by cases (auto simp: section_defs split: if_splits list.splits option.splits)

lemma worker_step_owner:
  assumes "worker_step ops tools q w q' w'" "w_ok q w"
  shows "mset (q_pending q') + mset (q_ch q') + mset (w_ptr w')
        = mset (q_pending q) + mset (q_ch q) + mset (w_ptr w)
      \<and> (\<forall>x. over (q_heap q' x) \<longrightarrow> over (q_heap q x))
    \<or> (\<exists>p. w_ptr w = [p] \<and> w_ptr w' = [] \<and> q_pending q' = q_pending q \<and> q_ch q' = q_ch q
         \<and> is_terminal (jb_status (q_heap q' p)))"
  using assms
  by cases (auto simp: section_defs w_ok_def is_terminal_def over_def split: if_splits list.splits option.splits)

lemma worker_step_w_ok:
  assumes "worker_step ops tools q w q' w'"
  shows "w_ok q' w'"
  using assms
  by cases (auto simp: section_defs w_ok_def split: if_splits list.splits option.splits)

lemma dispatcher_step_frame:
  assumes "dispatcher_step q d q' d'"
  shows "q_heap q' = q_heap q \<and> q_next q' = q_next q \<and> q_jobs q' = q_jobs q \<and> q_stopped q' = q_stopped q
    \<and> q_reserved q' = q_reserved q \<and> q_cancels q' = q_cancels q \<and> q_ctx_done q' = q_ctx_done q"
  using assms by cases (auto simp: section_defs split: if_splits list.splits)

lemma dispatcher_step_owner:
  assumes "dispatcher_step q d q' d'"
  shows "mset (q_pending q') + mset (q_ch q') + mset (d_ptr d')
        = mset (q_pending q) + mset (q_ch q) + mset (d_ptr d)
    \<or> (\<exists>p. d_ptr d = [p] \<and> d_ptr d' = [] \<and> q_pending q' = q_pending q \<and> q_ch q' = q_ch q \<and> q_stopped q')"
  using assms by cases (auto simp: section_defs split: if_splits list.splits)


fun c_ok :: "client \<Rightarrow> bool" where
  "c_ok (CInsert j) = (\<not> over j)"
| "c_ok (CTrack j) = (\<not> over j)"
| "c_ok _ = True"

lemma arrive_frame:
  assumes "arrive ops q q' c"
  shows "q_next q' = q_next q \<and> q_jobs q' = q_jobs q \<and> q_pending q' = q_pending q \<and> q_ch q' = q_ch q
    \<and> q_stopped q' = q_stopped q \<and> q_cancels q' = q_cancels q \<and> q_ctx_done q' = q_ctx_done q
    \<and> (\<forall>x. jb_id (q_heap q' x) = jb_id (q_heap q x))
    \<and> (\<forall>x. jb_status (q_heap q' x) = jb_status (q_heap q x)
         \<or> jb_status (q_heap q' x) = Canceled \<and> \<not> is_terminal (jb_status (q_heap q x)))
    \<and> c_ptr c = [] \<and> c_ok c"
  using assms
proof cases
  case (submit random now t input meta key batch)
  then show ?thesis using reserve_None[of q q'] by (simp add: over_def make_job_def)
qed (auto simp: cancel_tracked_def ack_tracked_def Let_def split: if_splits)

lemma client_step_frame:
  assumes "client_step ops q c q' c'"
  shows "q_stopped q' = q_stopped q \<and> q_ch q' = q_ch q \<and> q_next q \<le> q_next q'
    \<and> q_cancels q' = q_cancels q \<and> q_ctx_done q \<subseteq> q_ctx_done q'
    \<and> (\<forall>x < q_next q. q_heap q' x = q_heap q x)"
  using assms
  by cases (auto simp: push_backlog_def dedupe_def new_object_def put_job_def release_def persist_def
      persist_ack_def cancel_ctx_def Let_def
      split: if_splits option.splits)

lemma client_step_owner:
  assumes "client_step ops q c q' c'"
  shows "mset (q_pending q') + mset (c_ptr c') = mset (q_pending q) + mset (c_ptr c) \<and> c_new c c' = []
    \<or> (\<exists>k. c = CTrack k \<and> c_ptr c' = [q_next q] \<and> c_new c c' = [q_next q] \<and> q_pending q' = q_pending q
         \<and> q_next q' = Suc (q_next q) \<and> q_heap q' (q_next q) = k)
    \<or> (\<exists>p. c_ptr c = [p] \<and> c_ptr c' = [] \<and> c_new c c' = [] \<and> q_pending q' = q_pending q \<and> q_stopped q')"
  using assms
  by cases (auto simp: push_backlog_def dedupe_frame new_object_def put_job_def split: if_splits)

text \<open>
  The invariant: a job object is held at most once and only when it was accepted; what is held
  is not over; what a worker is about to record as canceled is canceled; and an accepted job
  that nothing holds is terminal, or the desk is stopping.
\<close>

definition desk_inv :: "'s desk_state \<Rightarrow> bool" where
  "desk_inv s \<longleftrightarrow>
     (\<forall>p. count (owners s) p \<le> 1) \<and> set_mset (owners s) \<subseteq> set (ds_accepted s)
   \<and> (\<forall>p\<in>set (ds_accepted s). p < q_next (ds_queue s))
   \<and> (\<forall>p\<in>#owners s. \<not> over (q_heap (ds_queue s) p))
   \<and> (\<forall>w\<in>set (ds_workers s). w_ok (ds_queue s) w) \<and> (\<forall>c\<in>set (ds_clients s). c_ok c)
   \<and> (\<forall>p\<in>set (ds_accepted s). p \<notin># owners s \<longrightarrow>
        is_terminal (jb_status (q_heap (ds_queue s) p)) \<or> q_stopped (ds_queue s))"

lemma desk_inv_fresh: "desk_inv (fresh_desk (new_queue n st) js)"
  by (simp add: desk_inv_def fresh_desk_def owners_def new_queue_def w_ok_def)

text \<open>A step that accepts nothing: nobody gains a job, and who loses one leaves it terminal.\<close>

lemma desk_inv_keep:
  assumes "desk_inv s" "owners s' \<subseteq># owners s" "ds_accepted s' = ds_accepted s"
    and "q_next (ds_queue s) \<le> q_next (ds_queue s')" "q_stopped (ds_queue s) \<longrightarrow> q_stopped (ds_queue s')"
    and "\<And>p. p \<in># owners s' \<Longrightarrow> over (q_heap (ds_queue s') p) \<Longrightarrow> over (q_heap (ds_queue s) p)"
    and "\<forall>w\<in>set (ds_workers s'). w_ok (ds_queue s') w" "\<forall>c\<in>set (ds_clients s'). c_ok c"
    and "\<And>p. p \<in> set (ds_accepted s) \<Longrightarrow> p \<notin># owners s' \<Longrightarrow>
           p \<in># owners s \<or> is_terminal (jb_status (q_heap (ds_queue s) p)) \<Longrightarrow>
           is_terminal (jb_status (q_heap (ds_queue s') p)) \<or> q_stopped (ds_queue s')"
  shows "desk_inv s'"
proof -
  have i: "\<forall>p. count (owners s) p \<le> 1" "set_mset (owners s) \<subseteq> set (ds_accepted s)"
    "\<forall>p\<in>set (ds_accepted s). p < q_next (ds_queue s)" "\<forall>p\<in>#owners s. \<not> over (q_heap (ds_queue s) p)"
    "\<forall>p\<in>set (ds_accepted s). p \<notin># owners s \<longrightarrow>
        is_terminal (jb_status (q_heap (ds_queue s) p)) \<or> q_stopped (ds_queue s)"
    using assms(1) by (simp_all add: desk_inv_def)
  have sub: "p \<in># owners s' \<Longrightarrow> p \<in># owners s" for p using assms(2) by (rule mset_subset_eqD)
  have "\<forall>p. count (owners s') p \<le> 1"
    using i(1) mset_subset_eq_count[OF assms(2)] by (blast intro: order_trans)
  moreover have "set_mset (owners s') \<subseteq> set (ds_accepted s')" using sub i(2) assms(3) by auto
  moreover have "\<forall>p\<in>set (ds_accepted s'). p < q_next (ds_queue s')" using i(3) assms(3,4) by auto
  moreover have "\<forall>p\<in>#owners s'. \<not> over (q_heap (ds_queue s') p)" using assms(6) i(4) sub by blast
  moreover have "\<forall>p\<in>set (ds_accepted s'). p \<notin># owners s' \<longrightarrow>
      is_terminal (jb_status (q_heap (ds_queue s') p)) \<or> q_stopped (ds_queue s')"
    using assms(9) assms(3,5) i(5) by metis
  ultimately show ?thesis using assms(7,8) by (simp add: desk_inv_def)
qed

text \<open>A step that accepts one fresh object.\<close>

lemma desk_inv_accept:
  assumes "desk_inv s" "owners s' = add_mset p (owners s)" "ds_accepted s' = ds_accepted s @ [p]"
    and "p = q_next (ds_queue s)" "q_next (ds_queue s') = Suc p"
    and "\<forall>x < p. q_heap (ds_queue s') x = q_heap (ds_queue s) x" "\<not> over (q_heap (ds_queue s') p)"
    and "q_stopped (ds_queue s') = q_stopped (ds_queue s)" "ds_workers s' = ds_workers s"
    and "\<forall>w\<in>set (ds_workers s). \<forall>x. w = WFinishC x \<longrightarrow> x \<in># owners s"
    and "\<forall>c\<in>set (ds_clients s'). c_ok c"
  shows "desk_inv s'"
proof -
  have i: "\<forall>x. count (owners s) x \<le> 1" "set_mset (owners s) \<subseteq> set (ds_accepted s)"
    "\<forall>x\<in>set (ds_accepted s). x < p" "\<forall>x\<in>#owners s. \<not> over (q_heap (ds_queue s) x)"
    "\<forall>w\<in>set (ds_workers s). w_ok (ds_queue s) w"
    "\<forall>x\<in>set (ds_accepted s). x \<notin># owners s \<longrightarrow>
        is_terminal (jb_status (q_heap (ds_queue s) x)) \<or> q_stopped (ds_queue s)"
    using assms(1,4) by (simp_all add: desk_inv_def)
  have "p \<notin># owners s" using i(2,3) by auto
  then have "\<forall>x. count (owners s') x \<le> 1" using i(1) assms(2) by (auto simp: not_in_iff)
  moreover have "\<forall>w\<in>set (ds_workers s'). w_ok (ds_queue s') w"
    using assms(6,9,10) i(2,3,5) by (auto simp: w_ok_def subset_eq)
  moreover have "\<forall>x\<in>set (ds_accepted s'). x \<notin># owners s' \<longrightarrow>
        is_terminal (jb_status (q_heap (ds_queue s') x)) \<or> q_stopped (ds_queue s')"
    using assms(2,3,6,8) i(3,6) by auto
  moreover have "\<forall>x\<in>#owners s'. \<not> over (q_heap (ds_queue s') x)"
    using assms(2,6,7) i(2,3,4) by auto
  ultimately show ?thesis
    using assms(2,3,5,11) i(2,3) unfolding desk_inv_def by (auto simp: less_Suc_eq)
qed

lemma held_by_worker: "w \<in> set (ds_workers s) \<Longrightarrow> p \<in> set (w_ptr w) \<Longrightarrow> p \<in># owners s"
  by (auto simp: owners_def)

lemma desk_inv_dispatcher:
  assumes "desk_inv s" "dispatcher_step (ds_queue s) (ds_disp s) q' d'"
  shows "desk_inv (s\<lparr>ds_queue := q', ds_disp := d'\<rparr>)"
proof (rule desk_inv_keep[OF assms(1)])
  let ?s = "s\<lparr>ds_queue := q', ds_disp := d'\<rparr>"
  note f = dispatcher_step_frame[OF assms(2)]
  have o: "owners ?s = owners s \<or> (\<exists>p. owners s = add_mset p (owners ?s) \<and> q_stopped q')"
    using dispatcher_step_owner[OF assms(2)] by (auto simp: owners_def)
  then show "owners ?s \<subseteq># owners s" by auto
  show "\<forall>w\<in>set (ds_workers ?s). w_ok (ds_queue ?s) w" "\<forall>c\<in>set (ds_clients ?s). c_ok c"
    using assms(1) f by (simp_all add: desk_inv_def w_ok_def)
  fix p
  show "is_terminal (jb_status (q_heap (ds_queue ?s) p)) \<or> q_stopped (ds_queue ?s)"
    if "p \<notin># owners ?s" "p \<in># owners s \<or> is_terminal (jb_status (q_heap (ds_queue s) p))"
    using o that f by auto
qed (use dispatcher_step_frame[OF assms(2)] in auto)

text \<open>Two workers never hold the same job.\<close>

lemma held_apart:
  assumes "desk_inv s" "ds_workers s = ws @ w # us" "v \<in> set ws \<union> set us" "x \<in> set (w_ptr v)"
  shows "x \<notin> set (w_ptr w)"
proof
  assume "x \<in> set (w_ptr w)"
  then have "0 < count (mset (w_ptr w)) x" by simp
  moreover have "0 < count (mset (concat (map w_ptr ws))) x \<or> 0 < count (mset (concat (map w_ptr us))) x"
    using assms(3,4) by auto
  moreover have "count (mset (concat (map w_ptr ws))) x + count (mset (w_ptr w)) x
      + count (mset (concat (map w_ptr us))) x \<le> count (owners s) x"
    by (simp add: owners_def assms(2))
  moreover have "count (owners s) x \<le> 1" using assms(1) by (simp add: desk_inv_def)
  ultimately show False by linarith
qed

lemma desk_inv_worker:
  assumes i: "desk_inv s" and w: "ds_workers s = ws @ w # us" "worker_step ops tools (ds_queue s) w q' w'"
  shows "desk_inv (s\<lparr>ds_queue := q', ds_workers := ws @ w' # us\<rparr>)"
proof -
  let ?s = "s\<lparr>ds_queue := q', ds_workers := ws @ w' # us\<rparr>"
  let ?h = "q_heap (ds_queue s)"
  note f = worker_step_frame[OF w(2)]
  have ok: "w_ok (ds_queue s) w" using i w(1) by (simp add: desk_inv_def)
  have o: "owners ?s = owners s \<and> (\<forall>x. over (q_heap q' x) \<longrightarrow> over (?h x))
      \<or> (\<exists>p. w_ptr w = [p] \<and> owners s = add_mset p (owners ?s) \<and> is_terminal (jb_status (q_heap q' p)))"
    using worker_step_owner[OF w(2) ok] w(1) by (auto simp: owners_def add.assoc)
  have one: "count (owners s) x \<le> 1" for x using i by (simp add: desk_inv_def)
  note other = held_apart[OF i w(1)]
  have ws: "w_ok q' v" if "v \<in> set (ds_workers ?s)" for v
  proof (cases "v \<in> set ws \<union> set us")
    case True
    then have "w_ok (ds_queue s) v" using i w(1) by (auto simp: desk_inv_def)
    with other[OF True] f show ?thesis by (auto simp: w_ok_def)
  next
    case False
    with that worker_step_w_ok[OF w(2)] show ?thesis by simp
  qed
  have ov: "over (?h p)" if "p \<in># owners ?s" "over (q_heap q' p)" for p
    using o
  proof
    assume "\<exists>x. w_ptr w = [x] \<and> owners s = add_mset x (owners ?s) \<and> is_terminal (jb_status (q_heap q' x))"
    then obtain x where x: "w_ptr w = [x]" "owners s = add_mset x (owners ?s)" by blast
    with one[of x] have "x \<notin># owners ?s" by (simp add: not_in_iff)
    with that(1) have "p \<noteq> x" by blast
    with f x(1) that(2) show ?thesis by simp
  qed (use that in blast)
  have tm: "is_terminal (jb_status (q_heap q' p))"
    if p: "p \<notin># owners ?s" "p \<in># owners s \<or> is_terminal (jb_status (?h p))" for p
  proof (cases "p \<in># owners s")
    case True
    with p(1) o show ?thesis by auto
  next
    case False
    then have "p \<notin> set (w_ptr w)" using held_by_worker[of w s p] w(1) by auto
    with f False p(2) show ?thesis by simp
  qed
  show ?thesis
  proof (rule desk_inv_keep[OF i])
    show "owners ?s \<subseteq># owners s" using o by auto
    show "\<forall>v\<in>set (ds_workers ?s). w_ok (ds_queue ?s) v" using ws by simp
    show "\<forall>c\<in>set (ds_clients ?s). c_ok c" using i by (simp add: desk_inv_def)
  qed (use f ov tm in simp_all)
qed

lemma desk_inv_arrive:
  assumes i: "desk_inv s" and a: "arrive ops (ds_queue s) q' c"
  shows "desk_inv (s\<lparr>ds_queue := q', ds_clients := ds_clients s @ [c], ds_ids := ids\<rparr>)"
proof (rule desk_inv_keep[OF i])
  let ?s = "s\<lparr>ds_queue := q', ds_clients := ds_clients s @ [c], ds_ids := ids\<rparr>"
  note f = arrive_frame[OF a]
  have st: "jb_status (q_heap q' x) = jb_status (q_heap (ds_queue s) x)
      \<or> jb_status (q_heap q' x) = Canceled \<and> \<not> is_terminal (jb_status (q_heap (ds_queue s) x))" for x
    using f by blast
  have o: "owners ?s = owners s" using f by (simp add: owners_def)
  then show "owners ?s \<subseteq># owners s" by simp
  show "\<forall>w\<in>set (ds_workers ?s). w_ok (ds_queue ?s) w"
  proof (intro ballI, unfold w_ok_def, intro allI impI)
    fix w p assume "w \<in> set (ds_workers ?s)" "w = WFinishC p"
    then have "jb_status (q_heap (ds_queue s) p) = Canceled" using i by (auto simp: desk_inv_def w_ok_def)
    with st[of p] show "jb_status (q_heap (ds_queue ?s) p) = Canceled" by (auto simp: is_terminal_def)
  qed
  show "\<forall>c\<in>set (ds_clients ?s). c_ok c" using i f by (simp add: desk_inv_def)
  show "over (q_heap (ds_queue s) p)" if "p \<in># owners ?s" "over (q_heap (ds_queue ?s) p)" for p
    using st[of p] that(2) by (auto simp: over_def)
  show "is_terminal (jb_status (q_heap (ds_queue ?s) p)) \<or> q_stopped (ds_queue ?s)"
    if "p \<in> set (ds_accepted s)" "p \<notin># owners ?s" "p \<in># owners s \<or> is_terminal (jb_status (q_heap (ds_queue s) p))" for p
    using o that st[of p] by (auto simp: is_terminal_def)
qed (use arrive_frame[OF a] in simp_all)

lemma desk_inv_client:
  assumes i: "desk_inv s" and c: "ds_clients s = cs @ c # es" "client_step ops (ds_queue s) c q' c'" "c_ok c'"
  shows "desk_inv (s\<lparr>ds_queue := q', ds_clients := cs @ c' # es, ds_accepted := ds_accepted s @ c_new c c'\<rparr>)"
    (is "desk_inv ?s")
proof -
  note f = client_step_frame[OF c(2)]
  have acc: "\<forall>p\<in>set (ds_accepted s). p < q_next (ds_queue s)" "set_mset (owners s) \<subseteq> set (ds_accepted s)"
    using i by (simp_all add: desk_inv_def)
  then have held: "p < q_next (ds_queue s)" if "p \<in># owners s" for p using that by auto
  have ok: "\<forall>x\<in>set (ds_clients ?s). c_ok x" using i c(1,3) by (simp add: desk_inv_def)
  have wf: "\<forall>w\<in>set (ds_workers s). \<forall>x. w = WFinishC x \<longrightarrow> x \<in># owners s"
    by (auto intro: held_by_worker)
  from client_step_owner[OF c(2)] consider
      (same) "owners ?s = owners s" "c_new c c' = []"
    | (new) k where "c = CTrack k" "owners ?s = add_mset (q_next (ds_queue s)) (owners s)"
        "c_new c c' = [q_next (ds_queue s)]" "q_next q' = Suc (q_next (ds_queue s))"
        "q_heap q' (q_next (ds_queue s)) = k"
    | (lost) p where "owners s = add_mset p (owners ?s)" "c_new c c' = []" "q_stopped q'"
    using f c(1) by (auto simp: owners_def)
  then show ?thesis
  proof cases
    case new
    have "\<not> over k" using i c(1) new(1) by (auto simp: desk_inv_def)
    then show ?thesis
      by (intro desk_inv_accept[OF i, of ?s "q_next (ds_queue s)"]) (use new f ok wf in simp_all)
  next
    case same
    show ?thesis
    proof (rule desk_inv_keep[OF i])
      show "\<forall>w\<in>set (ds_workers ?s). w_ok (ds_queue ?s) w"
        using i f wf held by (auto simp: desk_inv_def w_ok_def)
    qed (use same f ok held acc in auto)
  next
    case (lost p)
    show ?thesis
    proof (rule desk_inv_keep[OF i])
      show "\<forall>w\<in>set (ds_workers ?s). w_ok (ds_queue ?s) w"
        using i f wf held by (auto simp: desk_inv_def w_ok_def)
      show "over (q_heap (ds_queue s) x)" if "x \<in># owners ?s" "over (q_heap (ds_queue ?s) x)" for x
        using that held[of x] lost(1) f by simp
    qed (use lost f ok in auto)
  qed
qed


lemma desk_inv_resume:
  assumes i: "desk_inv s" and r: "new_object (j\<lparr>jb_status := Queued\<rparr>) (ds_queue s) = (p, q')"
  shows "desk_inv (s\<lparr>ds_queue := put_job (jb_id j) p q', ds_resume := js,
    ds_clients := ds_clients s @ [CRequeue p], ds_accepted := ds_accepted s @ [p]\<rparr>)"
proof (rule desk_inv_accept[OF i, where p = p])
  have p: "p = q_next (ds_queue s)" "q' = (ds_queue s)\<lparr>q_heap := (q_heap (ds_queue s))(p := j\<lparr>jb_status := Queued\<rparr>),
      q_next := Suc p\<rparr>" using r by (auto simp: new_object_def)
  let ?s = "s\<lparr>ds_queue := put_job (jb_id j) p q', ds_resume := js,
    ds_clients := ds_clients s @ [CRequeue p], ds_accepted := ds_accepted s @ [p]\<rparr>"
  show "p = q_next (ds_queue s)" by (rule p(1))
  show "owners ?s = add_mset p (owners s)" "q_next (ds_queue ?s) = Suc p"
    "\<forall>x<p. q_heap (ds_queue ?s) x = q_heap (ds_queue s) x" "\<not> over (q_heap (ds_queue ?s) p)"
    "q_stopped (ds_queue ?s) = q_stopped (ds_queue s)"
    unfolding p(2) by (simp_all add: owners_def over_def)
  show "\<forall>w\<in>set (ds_workers s). \<forall>x. w = WFinishC x \<longrightarrow> x \<in># owners s"
    by (auto intro: held_by_worker)
  show "\<forall>c\<in>set (ds_clients ?s). c_ok c" using i by (simp add: desk_inv_def)
qed simp_all

text \<open>What the threads rely on of a store: the row it creates has the id, the status and the counts of the job.\<close>

locale live_desk =
  fixes ops :: "'s store_ops"
  assumes created_keeps:
    "so_insert ops s j (jb_key j) = (Inr (k, True), s') \<Longrightarrow> jb_id k = jb_id j \<and> jb_status k = jb_status j
      \<and> jb_attempt k = jb_attempt j \<and> jb_max_retries k = jb_max_retries j"
begin

lemma client_step_c_ok: "client_step ops q c q' c' \<Longrightarrow> c_ok c \<Longrightarrow> c_ok c'"
  by (erule client_step.cases) (auto simp: over_def dest: created_keeps)

lemma desk_inv_step:
  assumes "desk_step ops tools s s'" "desk_inv s"
  shows "desk_inv s'"
  using assms
proof cases
  case (client cs c es q' c')
  then have "c_ok c'" using assms(2) by (auto simp: desk_inv_def intro: client_step_c_ok)
  then show ?thesis unfolding client(1) using assms(2) client by (intro desk_inv_client)
next
  case stop
  show ?thesis unfolding stop
    by (rule desk_inv_keep[OF assms(2)]) (use assms(2) in \<open>auto simp: owners_def desk_inv_def w_ok_def\<close>)
qed (use assms(2) in \<open>auto intro: desk_inv_dispatcher desk_inv_worker desk_inv_arrive desk_inv_resume\<close>)

lemma reachable_inv: "reachable ops tools n m s \<Longrightarrow> desk_inv s"
  by (induction rule: reachable.induct) (auto intro: desk_inv_fresh desk_inv_step)

end

lemma sqlite_created_keeps:
  "so_insert sqlite_ops s j (jb_key j) = (Inr (k, True), s') \<Longrightarrow> jb_id k = jb_id j \<and> jb_status k = jb_status j
      \<and> jb_attempt k = jb_attempt j \<and> jb_max_retries k = jb_max_retries j"
  by (auto simp: sqlite_ops_def sqlite_insert_def split: option.splits prod.splits sum.splits if_splits)

lemma exec_upsert_inserted: "exec_stmt (exec_upsert r) db = (Inr (x, True), db') \<Longrightarrow> x = r"
  by (auto simp: exec_stmt_def exec_upsert_def Let_def split: option.splits prod.splits if_splits db_outcome.splits)

lemma scan_postgres_job_keeps:
  "scan_postgres_job r = Inr j \<Longrightarrow> jb_id j = pr_id r \<and> jb_status j = pr_status r
   \<and> jb_attempt j = pr_attempt r \<and> jb_max_retries j = pr_max_retries r"
  by (auto simp: scan_postgres_job_def split: option.splits sum.splits)

lemma postgres_created_keeps:
  assumes "so_insert (postgres_ops st) s j (jb_key j) = (Inr (k, True), s')"
  shows "jb_id k = jb_id j \<and> jb_status k = jb_status j
      \<and> jb_attempt k = jb_attempt j \<and> jb_max_retries k = jb_max_retries j"
proof -
  obtain ij mj row db1 where r: "exec_stmt (exec_upsert (pg_insert_row st j (jb_key j) ij mj)) s = (Inr (row, True), db1)"
    "scan_postgres_job row = Inr k"
    using assms by (auto simp: postgres_insert_def split: option.splits prod.splits sum.splits)
  from exec_upsert_inserted[OF r(1)] scan_postgres_job_keeps[OF r(2)] show ?thesis
    by (simp add: pg_insert_row_def)
qed

interpretation ld: live_desk sqlite_ops
  by unfold_locales (rule sqlite_created_keeps)

interpretation lp: live_desk "postgres_ops st" for st
  by unfold_locales (rule postgres_created_keeps)


subsection \<open>Cancellation reaches the run\<close>

fun w_run :: "worker \<Rightarrow> (nat \<times> nat) option" where
  "w_run (WSave p ctx cp) = Some (p, ctx)"
| "w_run (WRun p ctx) = Some (p, ctx)"
| "w_run _ = None"

lemma w_run_ptr: "w_run w = Some (p, ctx) \<Longrightarrow> p \<in> set (w_ptr w)"
  by (cases w) auto

definition id_bag :: "'s desk_state \<Rightarrow> string multiset" where
  "id_bag s = mset (map (\<lambda>p. jb_id (q_heap (ds_queue s) p)) (ds_accepted s))
     + mset (concat (map c_ids (ds_clients s))) + mset (map jb_id (ds_resume s))"

text \<open>
  The cancel function of a run is registered under the id of its job; and when the job is
  canceled, the context of the run is done or a canceling call is about to end it.
\<close>

definition run_ok :: "'s queue \<Rightarrow> client list \<Rightarrow> worker \<Rightarrow> bool" where
  "run_ok q cs w \<longleftrightarrow>
     (\<forall>p ctx. w_run w = Some (p, ctx) \<longrightarrow>
        q_cancels q (jb_id (q_heap q p)) = Some ctx
      \<and> (jb_status (q_heap q p) = Canceled \<longrightarrow> ctx \<in> q_ctx_done q \<or> (\<exists>j. CStop (Some ctx) j \<in> set cs)))"

definition cancel_inv :: "'s desk_state \<Rightarrow> bool" where
  "cancel_inv s \<longleftrightarrow> tracked_ok (ds_queue s) \<and> (\<forall>i. count (id_bag s) i \<le> 1)
     \<and> set_mset (id_bag s) \<subseteq> ds_ids s
     \<and> (\<forall>w\<in>set (ds_workers s). run_ok (ds_queue s) (ds_clients s) w)"

lemma count_le_distinct: "\<forall>x. count (mset xs) x \<le> 1 \<Longrightarrow> distinct xs"
proof (induction xs)
  case (Cons a xs)
  have "count (mset xs) x \<le> 1" for x
    using spec[OF Cons.prems, of x] by (rule order_trans[rotated]) simp
  moreover have "a \<notin> set xs"
    using spec[OF Cons.prems, of a] by (simp add: count_eq_zero_iff)
  ultimately show ?case using Cons.IH by simp
qed simp

lemma accepted_ids_differ:
  assumes "cancel_inv s" "p \<in> set (ds_accepted s)" "p' \<in> set (ds_accepted s)" "p \<noteq> p'"
  shows "jb_id (q_heap (ds_queue s) p) \<noteq> jb_id (q_heap (ds_queue s) p')"
proof -
  let ?f = "\<lambda>p. jb_id (q_heap (ds_queue s) p)"
  have "count (mset (map ?f (ds_accepted s))) i \<le> count (id_bag s) i" for i
    by (simp add: id_bag_def)
  moreover have "\<forall>i. count (id_bag s) i \<le> 1" using assms(1) by (simp add: cancel_inv_def)
  ultimately have "\<forall>i. count (mset (map ?f (ds_accepted s))) i \<le> 1" using order_trans by blast
  then have "distinct (map ?f (ds_accepted s))" by (rule count_le_distinct)
  then have "inj_on ?f (set (ds_accepted s))" by (simp add: distinct_map)
  then show ?thesis using assms(2-4) by (auto dest: inj_onD)
qed

lemma worker_step_cancels:
  assumes "worker_step ops tools q w q' w'"
  shows "q_ctx_done q \<subseteq> q_ctx_done q'
    \<and> (\<forall>i. (\<forall>p\<in>set (w_ptr w). jb_id (q_heap q p) \<noteq> i) \<longrightarrow> q_cancels q' i = q_cancels q i)"
  using assms
  by cases (auto simp: section_defs cancel_ctx_def persist_def signal_wake_def split: if_splits list.splits option.splits)

lemma worker_step_run_ok:
  assumes "worker_step ops tools q w q' w'" "run_ok q cs w"
  shows "run_ok q' cs w'"
  using assms
  by cases (auto simp: section_defs run_ok_def persist_def split: if_splits list.splits option.splits)

lemma arrive_cancels:
  assumes "arrive ops q q' c" "tracked_ok q" "jb_status (q_heap q' p) = Canceled"
  shows "jb_status (q_heap q p) = Canceled \<or> (\<exists>j. c = CStop (q_cancels q (jb_id (q_heap q p))) j)"
  using assms
  by cases (auto simp: cancel_tracked_def ack_tracked_def tracked_ok_def reserve_def Let_def split: if_splits)

lemma tracked_ok_put:
  assumes "tracked_ok q" "new_object k q = (p, q')" "jb_id k = i"
  shows "tracked_ok (put_job i p q')"
proof -
  have q: "p = q_next q" "q_heap q' = (q_heap q)(p := k)" "q_next q' = Suc p" "q_jobs q' = q_jobs q"
    using assms(2) by (auto simp: new_object_def)
  have "lookup_job q' x = lookup_job q x" for x by (rule lookup_job_frame[OF q(4)])
  then show ?thesis
    using assms(1,3) q(1-3) unfolding tracked_ok_def by (auto simp: lookup_put_job less_Suc_eq split: if_splits)
qed

lemma client_step_tracked:
  assumes "client_step ops q c q' c'" "tracked_ok q"
  shows "tracked_ok q'"
  using assms
proof cases
  case (dedupe k)
  then show ?thesis using assms(2) dedupe_result[of q k "fst (dedupe k q)"] by simp
next
  case (track k p q1)
  with assms(2) show ?thesis by (auto intro: tracked_ok_put)
next
  case (found k p q1)
  with assms(2) show ?thesis by (auto intro: tracked_ok_put)
qed (use assms(2) in \<open>auto simp: tracked_ok_def lookup_job_def push_backlog_def release_def persist_ack_def
       split: if_splits option.splits\<close>)


lemma client_step_ids:
  assumes "client_step ops q c q' c'"
  shows "c_new c c' = [] \<and> (c_ids c' = [] \<or> c_ids c' = c_ids c \<or> (\<exists>j k s s'. c = CInsert j \<and> c' = CTrack k
           \<and> so_insert ops s j (jb_key j) = (Inr (k, True), s')))
    \<or> (\<exists>k. c = CTrack k \<and> c' = CEnqueue (q_next q) \<and> c_new c c' = [q_next q] \<and> q_heap q' (q_next q) = k)"
  using assms by cases (auto simp: new_object_def put_job_def)

lemma client_step_stop: "client_step ops q (CStop (Some ctx) j) q' c' \<Longrightarrow> ctx \<in> q_ctx_done q'"
  by (erule client_step.cases) (auto simp: cancel_ctx_def)

lemma id_bag_heap:
  assumes "\<forall>p\<in>set (ds_accepted s). jb_id (q_heap (ds_queue s') p) = jb_id (q_heap (ds_queue s) p)"
    and "ds_accepted s' = ds_accepted s"
  shows "mset (map (\<lambda>p. jb_id (q_heap (ds_queue s') p)) (ds_accepted s'))
    = mset (map (\<lambda>p. jb_id (q_heap (ds_queue s) p)) (ds_accepted s))"
  unfolding assms(2) by (rule arg_cong[where f = mset]) (use assms(1) in simp)

lemma cancel_inv_fresh:
  assumes "distinct (map jb_id js)"
  shows "cancel_inv (fresh_desk (new_queue n st) js)"
proof -
  have "count (mset (map jb_id js)) i \<le> 1" for i
    using assms by (metis distinct_count_atmost_1 le_refl zero_le_one)
  then show ?thesis
    by (simp add: cancel_inv_def fresh_desk_def id_bag_def tracked_ok_new run_ok_def)
qed

lemma cancel_inv_worker:
  assumes i: "desk_inv s" "cancel_inv s"
    and w: "ds_workers s = ws @ w # us" "worker_step ops tools (ds_queue s) w q' w'"
  shows "cancel_inv (s\<lparr>ds_queue := q', ds_workers := ws @ w' # us\<rparr>)"
proof -
  let ?s = "s\<lparr>ds_queue := q', ds_workers := ws @ w' # us\<rparr>"
  note f = worker_step_frame[OF w(2)]
  note fc = worker_step_cancels[OF w(2)]
  have "tracked_ok q'" using i(2) f by (auto simp: cancel_inv_def tracked_ok_def lookup_job_def)
  moreover have "id_bag ?s = id_bag s" using f by (simp add: id_bag_def)
  moreover have "run_ok q' (ds_clients s) v" if v: "v \<in> set ws \<union> set us" for v
  proof -
    have r: "run_ok (ds_queue s) (ds_clients s) v" using i(2) w(1) v by (auto simp: cancel_inv_def)
    show ?thesis unfolding run_ok_def
    proof (intro allI impI)
      fix p ctx assume p: "w_run v = Some (p, ctx)"
      note pv = w_run_ptr[OF p]
      have np: "p \<notin> set (w_ptr w)" by (rule held_apart[OF i(1) w(1) v pv])
      have acc: "p \<in> set (ds_accepted s)"
        using held_by_worker[OF _ pv, of s] v w(1) i(1) by (auto simp: desk_inv_def)
      have "jb_id (q_heap (ds_queue s) x) \<noteq> jb_id (q_heap (ds_queue s) p)" if "x \<in> set (w_ptr w)" for x
        using accepted_ids_differ[OF i(2) _ acc, of x] held_by_worker[OF _ that, of s] that np w(1) i(1)
        by (auto simp: desk_inv_def)
      then have "q_cancels q' (jb_id (q_heap (ds_queue s) p)) = q_cancels (ds_queue s) (jb_id (q_heap (ds_queue s) p))"
        using fc by blast
      moreover have "q_heap q' p = q_heap (ds_queue s) p" using f np by blast
      ultimately show "q_cancels q' (jb_id (q_heap q' p)) = Some ctx
          \<and> (jb_status (q_heap q' p) = Canceled \<longrightarrow> ctx \<in> q_ctx_done q' \<or> (\<exists>j. CStop (Some ctx) j \<in> set (ds_clients s)))"
        using r p fc unfolding run_ok_def by auto
    qed
  qed
  moreover have "run_ok q' (ds_clients s) w'"
    using worker_step_run_ok[OF w(2)] i(2) w(1) by (auto simp: cancel_inv_def)
  ultimately show ?thesis using i(2) by (auto simp: cancel_inv_def)
qed


lemma cancel_inv_dispatcher:
  assumes "cancel_inv s" "dispatcher_step (ds_queue s) (ds_disp s) q' d'"
  shows "cancel_inv (s\<lparr>ds_queue := q', ds_disp := d'\<rparr>)"
  using assms(1) dispatcher_step_frame[OF assms(2)]
  by (simp add: cancel_inv_def tracked_ok_def lookup_job_def id_bag_def run_ok_def)

lemma cancel_inv_arrive:
  assumes i: "cancel_inv s" and a: "arrive ops (ds_queue s) q' c" "set (c_ids c) \<inter> ds_ids s = {}"
  shows "cancel_inv (s\<lparr>ds_queue := q', ds_clients := ds_clients s @ [c],
    ds_ids := ds_ids s \<union> set (c_ids c)\<rparr>)"
proof -
  let ?s = "s\<lparr>ds_queue := q', ds_clients := ds_clients s @ [c], ds_ids := ds_ids s \<union> set (c_ids c)\<rparr>"
  note f = arrive_frame[OF a(1)]
  have t: "tracked_ok (ds_queue s)" using i by (simp add: cancel_inv_def)
  have "tracked_ok q'" using t f by (auto simp: tracked_ok_def lookup_job_def)
  moreover have b: "id_bag ?s = id_bag s + mset (c_ids c)"
    using f by (simp add: id_bag_def)
  moreover have "count (id_bag ?s) x \<le> 1" for x
  proof -
    have n: "count (id_bag s) x \<le> 1" "x \<in># id_bag s \<Longrightarrow> x \<in> ds_ids s"
      using i by (auto simp: cancel_inv_def)
    have c: "c_ids c = [] \<or> (\<exists>y. c_ids c = [y])" by (cases c) auto
    show ?thesis
    proof (cases "x \<in> set (c_ids c)")
      case True
      then have "x \<notin># id_bag s" using n(2) a(2) by auto
      with True c show ?thesis unfolding b by (auto simp: not_in_iff)
    next
      case False
      then have "count (mset (c_ids c)) x = 0" by (simp add: count_eq_zero_iff)
      with n(1) show ?thesis unfolding b count_union by linarith
    qed
  qed
  moreover have "run_ok q' (ds_clients ?s) v" if "v \<in> set (ds_workers s)" for v
    unfolding run_ok_def
  proof (intro allI impI)
    fix p ctx assume p: "w_run v = Some (p, ctx)"
    have "run_ok (ds_queue s) (ds_clients s) v" using i that by (simp add: cancel_inv_def)
    then have r: "q_cancels (ds_queue s) (jb_id (q_heap (ds_queue s) p)) = Some ctx"
      "jb_status (q_heap (ds_queue s) p) = Canceled \<longrightarrow>
        ctx \<in> q_ctx_done (ds_queue s) \<or> (\<exists>j. CStop (Some ctx) j \<in> set (ds_clients s))"
      using p by (auto simp: run_ok_def)
    have "ctx \<in> q_ctx_done q' \<or> (\<exists>j. CStop (Some ctx) j \<in> set (ds_clients ?s))"
      if "jb_status (q_heap q' p) = Canceled"
      using arrive_cancels[OF a(1) t that] r f by auto
    with r(1) f show "q_cancels q' (jb_id (q_heap q' p)) = Some ctx
        \<and> (jb_status (q_heap q' p) = Canceled \<longrightarrow> ctx \<in> q_ctx_done q' \<or> (\<exists>j. CStop (Some ctx) j \<in> set (ds_clients ?s)))"
      by simp
  qed
  ultimately show ?thesis using i by (auto simp: cancel_inv_def)
qed

text \<open>A step that leaves the objects a run refers to and its context alone.\<close>

lemma run_ok_keep:
  assumes "run_ok q cs w" "q_cancels q' = q_cancels q" "q_ctx_done q \<subseteq> q_ctx_done q'"
    and "\<And>p. p \<in> set (w_ptr w) \<Longrightarrow> q_heap q' p = q_heap q p"
    and "\<And>ctx j. CStop (Some ctx) j \<in> set cs \<Longrightarrow> CStop (Some ctx) j \<in> set cs' \<or> ctx \<in> q_ctx_done q'"
  shows "run_ok q' cs' w"
  unfolding run_ok_def
proof (intro allI impI)
  fix p ctx assume p: "w_run w = Some (p, ctx)"
  with assms(1) have "q_cancels q (jb_id (q_heap q p)) = Some ctx"
    "jb_status (q_heap q p) = Canceled \<longrightarrow> ctx \<in> q_ctx_done q \<or> (\<exists>j. CStop (Some ctx) j \<in> set cs)"
    by (auto simp: run_ok_def)
  with assms(2,3,5) assms(4)[OF w_run_ptr[OF p]]
  show "q_cancels q' (jb_id (q_heap q' p)) = Some ctx
      \<and> (jb_status (q_heap q' p) = Canceled \<longrightarrow> ctx \<in> q_ctx_done q' \<or> (\<exists>j. CStop (Some ctx) j \<in> set cs'))"
    by auto
qed

lemma held_old:
  assumes "desk_inv s" "w \<in> set (ds_workers s)" "p \<in> set (w_ptr w)"
  shows "p < q_next (ds_queue s)"
  using assms held_by_worker[OF assms(2,3)] by (auto simp: desk_inv_def)

lemma cancel_inv_resume:
  assumes i: "desk_inv s" "cancel_inv s" and r: "ds_resume s = j # js"
    "new_object (j\<lparr>jb_status := Queued\<rparr>) (ds_queue s) = (p, q')"
  shows "cancel_inv (s\<lparr>ds_queue := put_job (jb_id j) p q', ds_resume := js,
    ds_clients := ds_clients s @ [CRequeue p], ds_accepted := ds_accepted s @ [p]\<rparr>)"
proof -
  let ?s = "s\<lparr>ds_queue := put_job (jb_id j) p q', ds_resume := js,
    ds_clients := ds_clients s @ [CRequeue p], ds_accepted := ds_accepted s @ [p]\<rparr>"
  have p: "p = q_next (ds_queue s)" "q' = (ds_queue s)\<lparr>q_heap := (q_heap (ds_queue s))(p := j\<lparr>jb_status := Queued\<rparr>),
      q_next := Suc p\<rparr>" using r(2) by (auto simp: new_object_def)
  have old: "\<forall>x\<in>set (ds_accepted s). x < p" using i(1) p(1) by (simp add: desk_inv_def)
  have m: "map (\<lambda>x. jb_id (q_heap q' x)) (ds_accepted s)
      = map (\<lambda>x. jb_id (q_heap (ds_queue s) x)) (ds_accepted s)" "jb_id (q_heap q' p) = jb_id j"
    using old unfolding p(2) by auto
  have "id_bag ?s = id_bag s"
    by (simp add: id_bag_def r(1) m del: mset_map)
  moreover have "tracked_ok (put_job (jb_id j) p q')"
    using tracked_ok_put[OF _ r(2)] i(2) by (simp add: cancel_inv_def)
  moreover have "run_ok (put_job (jb_id j) p q') (ds_clients ?s) v" if v: "v \<in> set (ds_workers s)" for v
  proof (rule run_ok_keep[where q = "ds_queue s" and cs = "ds_clients s"])
    show "run_ok (ds_queue s) (ds_clients s) v" using i(2) v by (simp add: cancel_inv_def)
    show "q_heap (put_job (jb_id j) p q') x = q_heap (ds_queue s) x" if "x \<in> set (w_ptr v)" for x
      using held_old[OF i(1) v that] unfolding p(2) by (simp add: p(1))
  qed (simp_all add: p(2) put_job_def)
  ultimately show ?thesis using i(2) by (simp add: cancel_inv_def)
qed


context live_desk
begin

lemma client_ids_shrink:
  assumes "desk_inv s" "ds_clients s = cs @ c # es" "client_step ops (ds_queue s) c q' c'"
  shows "id_bag (s\<lparr>ds_queue := q', ds_clients := cs @ c' # es, ds_accepted := ds_accepted s @ c_new c c'\<rparr>)
    \<subseteq># id_bag s"
proof -
  have old: "map (\<lambda>p. jb_id (q_heap q' p)) (ds_accepted s)
      = map (\<lambda>p. jb_id (q_heap (ds_queue s) p)) (ds_accepted s)"
    using assms(1) client_step_frame[OF assms(3)] by (auto simp: desk_inv_def)
  from client_step_ids[OF assms(3)] show ?thesis
  proof
    assume h: "c_new c c' = [] \<and> (c_ids c' = [] \<or> c_ids c' = c_ids c
      \<or> (\<exists>j k s s'. c = CInsert j \<and> c' = CTrack k \<and> so_insert ops s j (jb_key j) = (Inr (k, True), s')))"
    then have "mset (c_ids c') \<subseteq># mset (c_ids c)" by (auto dest: created_keeps)
    with h show ?thesis by (simp add: id_bag_def assms(2) old del: mset_map)
  next
    assume "\<exists>k. c = CTrack k \<and> c' = CEnqueue (q_next (ds_queue s)) \<and> c_new c c' = [q_next (ds_queue s)]
      \<and> q_heap q' (q_next (ds_queue s)) = k"
    then show ?thesis by (auto simp: id_bag_def assms(2) old simp del: mset_map)
  qed
qed

lemma cancel_inv_client:
  assumes i: "desk_inv s" "cancel_inv s"
    and c: "ds_clients s = cs @ c # es" "client_step ops (ds_queue s) c q' c'"
  shows "cancel_inv (s\<lparr>ds_queue := q', ds_clients := cs @ c' # es, ds_accepted := ds_accepted s @ c_new c c'\<rparr>)"
    (is "cancel_inv ?s")
proof -
  note f = client_step_frame[OF c(2)]
  note sub = client_ids_shrink[OF i(1) c]
  have "tracked_ok q'" using client_step_tracked[OF c(2)] i(2) by (simp add: cancel_inv_def)
  moreover have "\<forall>x. count (id_bag ?s) x \<le> 1"
    using i(2) mset_subset_eq_count[OF sub] unfolding cancel_inv_def by (blast intro: order_trans)
  moreover have "set_mset (id_bag ?s) \<subseteq> ds_ids s"
    using i(2) set_mset_mono[OF sub] by (auto simp: cancel_inv_def)
  moreover have "run_ok q' (ds_clients ?s) v" if v: "v \<in> set (ds_workers s)" for v
  proof (rule run_ok_keep[where q = "ds_queue s" and cs = "ds_clients s"])
    show "run_ok (ds_queue s) (ds_clients s) v" using i(2) v by (simp add: cancel_inv_def)
    show "q_heap q' x = q_heap (ds_queue s) x" if "x \<in> set (w_ptr v)" for x
      using held_old[OF i(1) v that] f by blast
    show "CStop (Some ctx) j \<in> set (ds_clients ?s) \<or> ctx \<in> q_ctx_done q'"
      if "CStop (Some ctx) j \<in> set (ds_clients s)" for ctx j
    proof (cases "c = CStop (Some ctx) j")
      case True
      then show ?thesis using client_step_stop c(2) by blast
    qed (use that c(1) in auto)
  qed (use f in auto)
  ultimately show ?thesis by (simp add: cancel_inv_def)
qed

lemma cancel_inv_step:
  assumes "desk_step ops tools s s'" "desk_inv s" "cancel_inv s"
  shows "cancel_inv s'"
  using assms(1)
proof cases
  case stop
  show ?thesis unfolding stop
    using assms(3) by (simp add: cancel_inv_def tracked_ok_def lookup_job_def id_bag_def run_ok_def)
qed (use assms(2,3) in \<open>auto intro: cancel_inv_dispatcher cancel_inv_worker cancel_inv_arrive cancel_inv_client cancel_inv_resume\<close>)

lemma reachable_cancel_inv: "reachable ops tools n m s \<Longrightarrow> cancel_inv s"
proof (induction rule: reachable.induct)
  case memory
  show ?case by (rule cancel_inv_fresh) simp
next
  case (stored st js st')
  then show ?case by (intro cancel_inv_fresh)
next
  case (step s s')
  then show ?case using cancel_inv_step reachable_inv by blast
qed

end


subsection \<open>The backlog is bounded\<close>

fun c_res :: "client \<Rightarrow> nat" where
  "c_res (CInsert j) = 1"
| "c_res CRelease = 1"
| "c_res (CDup k) = 1"
| "c_res (CTrack k) = 1"
| "c_res (CEnqueue p) = 1"
| "c_res _ = 0"

fun c_rq :: "client \<Rightarrow> nat" where
  "c_rq (CRequeue p) = 1"
| "c_rq _ = 0"

definition load :: "'s desk_state \<Rightarrow> nat" where
  "load s = length (q_pending (ds_queue s)) + q_reserved (ds_queue s) + length (q_ch (ds_queue s))
     + length (d_ptr (ds_disp s)) + sum_list (map (\<lambda>w. length (w_ptr w)) (ds_workers s))
     + sum_list (map c_rq (ds_clients s)) + length (ds_resume s)"

definition worker_count :: "int \<Rightarrow> nat" where
  "worker_count n = (if n < 1 then 1 else nat n)"

definition load_bound :: "int \<Rightarrow> nat \<Rightarrow> nat" where
  "load_bound n m = max_pending + ch_capacity + 1 + worker_count n + m"

definition load_inv :: "int \<Rightarrow> nat \<Rightarrow> 's desk_state \<Rightarrow> bool" where
  "load_inv n m s \<longleftrightarrow>
     length (ds_workers s) = worker_count n \<and> length (q_ch (ds_queue s)) \<le> ch_capacity
   \<and> q_reserved (ds_queue s) = sum_list (map c_res (ds_clients s))
   \<and> sum_list (map c_rq (ds_clients s)) + length (ds_resume s) \<le> m \<and> load s \<le> load_bound n m"

lemma hand_lengths: "length (d_ptr d) \<le> 1" "length (w_ptr w) \<le> 1"
  by (cases d; simp) (cases w; simp)

lemma workers_hold: "sum_list (map (\<lambda>w. length (w_ptr w)) ws) \<le> length ws"
proof (induction ws)
  case (Cons w ws)
  with hand_lengths(2)[of w] show ?case by simp
qed simp

lemma dispatcher_step_load:
  assumes "dispatcher_step q d q' d'" "length (q_ch q) \<le> ch_capacity"
  shows "length (q_pending q') + length (q_ch q') + length (d_ptr d')
      \<le> length (q_pending q) + length (q_ch q) + length (d_ptr d) \<and> length (q_ch q') \<le> ch_capacity"
  using assms by cases (auto simp: section_defs split: if_splits list.splits)

lemma worker_step_load:
  assumes "worker_step ops tools q w q' w'"
  shows "length (q_pending q') + length (q_ch q') + length (w_ptr w')
      \<le> length (q_pending q) + length (q_ch q) + length (w_ptr w) \<and> length (q_ch q') \<le> length (q_ch q)"
  using assms by cases (auto simp: section_defs split: if_splits list.splits option.splits)

lemma client_step_load:
  assumes "client_step ops q c q' c'" "c_res c \<le> q_reserved q"
  shows "q_reserved q' + c_res c = q_reserved q + c_res c'
    \<and> length (q_pending q') + c_res c' + c_rq c' \<le> length (q_pending q) + c_res c + c_rq c
    \<and> c_rq c' \<le> c_rq c"
  using assms
  by cases (auto simp: push_backlog_def dedupe_frame new_object_def put_job_def split: if_splits)

lemma arrive_load:
  assumes "arrive ops q q' c"
  shows "q_reserved q' = q_reserved q + c_res c \<and> c_rq c = 0
    \<and> (c_res c = 0 \<or> length (q_pending q) + q_reserved q < max_pending \<and> c_res c = 1)"
  using assms
proof cases
  case (submit random now t input meta key batch)
  then show ?thesis using reserve_None[of q q'] by simp
qed (auto simp: cancel_tracked_def ack_tracked_def Let_def split: if_splits)

lemma load_inv_fresh:
  "load_inv n (length js) (fresh_desk (new_queue n st) js)"
proof -
  have "sum_list (map (\<lambda>w. length (w_ptr w)) (replicate k WIdle)) = 0" for k by (induction k) simp_all
  then show ?thesis
    by (simp add: load_inv_def fresh_desk_def new_queue_def load_def load_bound_def worker_count_def
        sum_list_replicate)
qed

lemma load_inv_step:
  assumes "desk_step ops tools s s'" "load_inv n m s"
  shows "load_inv n m s'"
  using assms(1)
proof cases
  case (dispatcher q' d')
  with assms(2) dispatcher_step_load[OF dispatcher(2)] dispatcher_step_frame[OF dispatcher(2)]
  show ?thesis unfolding dispatcher(1) load_inv_def load_def by simp
next
  case (worker ws w us q' w')
  with assms(2) worker_step_load[OF worker(3)] worker_step_frame[OF worker(3)]
  show ?thesis unfolding worker(1) load_inv_def load_def by simp
next
  case (client cs c es q' c')
  have "c_res c \<le> q_reserved (ds_queue s)" using assms(2) client(2) by (simp add: load_inv_def)
  with assms(2) client client_step_load[OF client(3)] client_step_frame[OF client(3)]
  show ?thesis unfolding client(1) load_inv_def load_def by simp
next
  case (arrive q' c)
  note a = arrive_load[OF arrive(2)] and f = arrive_frame[OF arrive(2)]
  show ?thesis
  proof (cases "c_res c = 0")
    case True
    with assms(2) a f show ?thesis unfolding arrive(1) load_inv_def load_def by simp
  next
    case False
    with a have "length (q_pending (ds_queue s)) + q_reserved (ds_queue s) + 1 \<le> max_pending" "c_res c = 1" by auto
    with assms(2) a f hand_lengths(1)[of "ds_disp s"] workers_hold[of "ds_workers s"]
    show ?thesis unfolding arrive(1) load_inv_def load_def load_bound_def by simp
  qed
next
  case (resume j js p q')
  with assms(2) show ?thesis
    unfolding resume(1) load_inv_def load_def by (auto simp: new_object_def)
next
  case stop
  with assms(2) show ?thesis unfolding stop load_inv_def load_def by simp
qed

lemma reachable_load: "reachable ops tools n m s \<Longrightarrow> load_inv n m s"
proof (induction rule: reachable.induct)
  case memory
  with load_inv_fresh[of n "[]" None] show ?case by simp
next
  case (stored st js st')
  then show ?case using load_inv_fresh by blast
qed (rule load_inv_step)


subsection \<open>A desk with one worker and one job\<close>

definition desk1 :: "'s queue \<Rightarrow> dispatcher \<Rightarrow> worker \<Rightarrow> client list \<Rightarrow> nat list \<Rightarrow> string set \<Rightarrow> 's desk_state" where
  "desk1 q d w cs acc ids =
     \<lparr>ds_queue = q, ds_disp = d, ds_workers = [w], ds_clients = cs, ds_resume = [], ds_accepted = acc,
      ds_ids = ids\<rparr>"

lemma desk1_dispatcher:
  "reachable ops tools n m (desk1 q d w cs acc ids) \<Longrightarrow> dispatcher_step q d q' d' \<Longrightarrow>
   reachable ops tools n m (desk1 q' d' w cs acc ids)"
  using desk_step.dispatcher[of "desk1 q d w cs acc ids" q' d' ops tools]
  by (auto simp: desk1_def intro: reachable.step)

lemma desk1_worker:
  "reachable ops tools n m (desk1 q d w cs acc ids) \<Longrightarrow> worker_step ops tools q w q' w' \<Longrightarrow>
   reachable ops tools n m (desk1 q' d w' cs acc ids)"
  using desk_step.worker[of "desk1 q d w cs acc ids" "[]" w "[]" ops tools q' w']
  by (auto simp: desk1_def intro: reachable.step)

lemma desk1_arrive:
  "reachable ops tools n m (desk1 q d w cs acc ids) \<Longrightarrow> arrive ops q q' c \<Longrightarrow> set (c_ids c) \<inter> ids = {} \<Longrightarrow>
   reachable ops tools n m (desk1 q' d w (cs @ [c]) acc (ids \<union> set (c_ids c)))"
  using desk_step.arrive[of ops "desk1 q d w cs acc ids" q' c tools]
  by (auto simp: desk1_def intro: reachable.step)

lemma desk1_client:
  "reachable ops tools n m (desk1 q d w (cs @ [c]) acc ids) \<Longrightarrow> client_step ops q c q' c' \<Longrightarrow>
   reachable ops tools n m (desk1 q' d w (cs @ [c']) (acc @ c_new c c') ids)"
  using desk_step.client[of "desk1 q d w (cs @ [c]) acc ids" cs c "[]" ops q' c' tools]
  by (auto simp: desk1_def intro: reachable.step)

definition first_job :: job where
  "first_job = make_job [7] (GTime 2025 1 2 3 4 5 0) sample_exec_tool None None [] []"

definition held_queue :: "job \<Rightarrow> 's queue" where
  "held_queue j = (new_queue 1 None)\<lparr>q_heap := (\<lambda>p. zero_job)(0 := j), q_next := 1,
     q_jobs := [(jb_id first_job, 0)], q_wake := True\<rparr>"

text \<open>Submitted, dispatched and received: the worker has the job in its hand.\<close>

lemma reach_taken:
  "reachable ops tools 1 0 (desk1 (held_queue first_job) DIdle (WTaken 0) [CDone] [0] {jb_id first_job})"
proof -
  let ?q0 = "new_queue 1 None :: 'a queue" and ?j = first_job
  let ?q1 = "?q0\<lparr>q_reserved := 1\<rparr>"
  let ?q2 = "put_job (jb_id ?j) 0 (snd (new_object ?j ?q1))"
  let ?I = "{jb_id first_job}"
  have "reachable ops tools 1 0 (desk1 ?q0 DIdle WIdle [] [] {})"
    using reachable.memory[of 0 ops tools 1] by (simp add: desk1_def fresh_desk_def new_queue_def)
  moreover have "arrive ops ?q0 ?q1 (CInsert ?j)"
    unfolding first_job_def by (rule arrive.submit) (simp add: reserve_def new_queue_def max_pending_def)
  ultimately have r: "reachable ops tools 1 0 (desk1 ?q1 DIdle WIdle ([] @ [CInsert ?j]) [] ?I)"
    using desk1_arrive by fastforce
  have "client_step ops ?q1 (CInsert ?j) ?q1 (CTrack ?j)"
    by (rule client_step.memory) (simp add: new_queue_def)
  from desk1_client[OF r this] have r: "reachable ops tools 1 0 (desk1 ?q1 DIdle WIdle ([] @ [CTrack ?j]) [] ?I)"
    by simp
  have "client_step ops ?q1 (CTrack ?j) ?q2 (CEnqueue 0)"
    by (rule client_step.track) (simp add: new_object_def new_queue_def)
  from desk1_client[OF r this] have r: "reachable ops tools 1 0 (desk1 ?q2 DIdle WIdle ([] @ [CEnqueue 0]) [0] ?I)"
    by simp
  from desk1_client[OF r client_step.enqueue]
  have r: "reachable ops tools 1 0 (desk1 (push_reserved 0 ?q2) DIdle WIdle ([] @ [CSignal]) [0] ?I)"
    by simp
  from desk1_client[OF r client_step.signal]
  have r: "reachable ops tools 1 0 (desk1 (signal_wake (push_reserved 0 ?q2)) DIdle WIdle [CDone] [0] ?I)"
    by simp
  have e: "signal_wake (push_reserved 0 ?q2) = (held_queue ?j)\<lparr>q_pending := [0]\<rparr>"
    by (simp add: push_reserved_def put_job_def new_object_def new_queue_def held_queue_def signal_wake_def Let_def)
  have "dispatcher_step ((held_queue ?j)\<lparr>q_pending := [0]\<rparr>) DIdle (held_queue ?j) (DHand 0)"
    by (rule dispatcher_step.take) (simp add: dispatch_take_def held_queue_def new_queue_def)
  from desk1_dispatcher[OF r[unfolded e] this]
  have r: "reachable ops tools 1 0 (desk1 (held_queue ?j) (DHand 0) WIdle [CDone] [0] ?I)" .
  have "dispatcher_step (held_queue ?j) (DHand 0) ((held_queue ?j)\<lparr>q_ch := [0]\<rparr>) DIdle"
    by (rule dispatcher_step.hand) (simp add: dispatch_send_def held_queue_def new_queue_def ch_capacity_def)
  from desk1_dispatcher[OF r this]
  have r: "reachable ops tools 1 0 (desk1 ((held_queue ?j)\<lparr>q_ch := [0]\<rparr>) DIdle WIdle [CDone] [0] ?I)" .
  have "worker_step ops tools ((held_queue ?j)\<lparr>q_ch := [0]\<rparr>) WIdle (held_queue ?j) (WTaken 0)"
    by (rule worker_step.receive) (simp add: worker_receive_def held_queue_def new_queue_def)
  from desk1_worker[OF r this] show ?thesis .
qed

subsection \<open>Properties\<close>

text \<open>
  C6: No accepted job is lost or run twice. Whatever the handlers, the dispatcher, the workers
  and the recovery do, and in whatever order, a job object is in at most one place of the
  backlog, the channel and the hands of the threads, and only when it was accepted; an accepted
  job is in one of them and is neither done nor failed, or it is in none and is terminal,
  unless the desk is stopping.
\<close>

theorem accepted_job_held_once:
  assumes "reachable sqlite_ops tools n m s"
  shows "(\<forall>p. count (owners s) p \<le> 1) \<and> set_mset (owners s) \<subseteq> set (ds_accepted s)
    \<and> (\<forall>p\<in>set (ds_accepted s).
         p \<in># owners s \<and> \<not> over (q_heap (ds_queue s) p)
       \<or> p \<notin># owners s \<and> (is_terminal (jb_status (q_heap (ds_queue s) p)) \<or> q_stopped (ds_queue s)))"
  using ld.reachable_inv[OF assms] by (auto simp: desk_inv_def)

lemma accepted_job_held_once_witness:
  "count (owners (desk1 (held_queue first_job :: sqlite_db queue) DIdle (WTaken 0) [CDone] [0] {jb_id first_job})) 0 \<le> 1"
  using accepted_job_held_once[OF reach_taken[of sqlite_ops "\<lambda>n. None"]] by blast

lemma arrive_over:
  assumes "arrive ops q q' c" "over (q_heap q p)"
  shows "q_heap q' p = q_heap q p
    \<or> (\<exists>now. q_heap q' p = (q_heap q p)\<lparr>jb_acked := True, jb_acked_at := Some now\<rparr>)"
  using assms(1)
proof cases
  case (submit random now t input meta key batch)
  then show ?thesis using reserve_None[of q q'] by simp
next
  case (cancel i x now j cc)
  then have "x \<noteq> p" using over_terminal[OF assms(2)] by (auto simp: cancel_tracked_def)
  moreover have "\<exists>k. q_heap q' = (q_heap q)(x := k)"
    using cancel(3) by (auto simp: cancel_tracked_def Let_def split: if_splits)
  ultimately show ?thesis by auto
next
  case (ack i x now j)
  then have "q_heap q' = (q_heap q)(x := (q_heap q x)\<lparr>jb_acked := True, jb_acked_at := Some now\<rparr>)"
    by (auto simp: ack_tracked_def Let_def split: if_splits)
  then show ?thesis by (cases "x = p") auto
qed simp_all

text \<open>
  What is done or failed stays so. In every reachable state, no step of any thread changes
  an accepted job that is done or failed, except for its acknowledgment: not its status, its
  result, its error, its attempts or its times.
\<close>

theorem finished_job_is_final:
  assumes "reachable sqlite_ops tools n m s" "desk_step sqlite_ops tools s s'"
    and "p \<in> set (ds_accepted s)" "over (q_heap (ds_queue s) p)"
  shows "\<exists>a t. q_heap (ds_queue s') p = (q_heap (ds_queue s) p)\<lparr>jb_acked := a, jb_acked_at := t\<rparr>"
proof -
  note i = ld.reachable_inv[OF assms(1)]
  have old: "p < q_next (ds_queue s)" using i assms(3) by (simp add: desk_inv_def)
  have free: "p \<notin># owners s" using i assms(4) by (auto simp: desk_inv_def)
  have same: "\<exists>a t. j = j\<lparr>jb_acked := a, jb_acked_at := t\<rparr>" for j :: job
    by (intro exI[of _ "jb_acked j"] exI[of _ "jb_acked_at j"]) simp
  from assms(2) show ?thesis
  proof cases
    case (dispatcher q' d')
    then show ?thesis using dispatcher_step_frame[OF dispatcher(2)] same by simp
  next
    case (worker ws w us q' w')
    then have "p \<notin> set (w_ptr w)" using free held_by_worker[of w s p] by auto
    then show ?thesis using worker_step_frame[OF worker(3)] same worker(1) by simp
  next
    case (arrive q' c)
    from arrive_over[OF arrive(2) assms(4)] show ?thesis using same unfolding arrive(1) by auto
  next
    case (client cs c es q' c')
    then show ?thesis using client_step_frame[OF client(3)] old same by simp
  next
    case (resume j js x q')
    then show ?thesis using old same by (auto simp: new_object_def)
  next
    case stop
    then show ?thesis using same by simp
  qed
qed

text \<open>
  C10: A cancellation reaches the run. While a worker runs a job, its cancel function is
  registered under the id of the job; and once the job is marked canceled, the context of the
  run is done, or the canceling call has yet to make it so, which is its next step.
\<close>

theorem cancel_reaches_run:
  assumes "reachable sqlite_ops tools n m s" "w \<in> set (ds_workers s)" "w_run w = Some (p, ctx)"
  shows "q_cancels (ds_queue s) (jb_id (q_heap (ds_queue s) p)) = Some ctx
    \<and> (jb_status (q_heap (ds_queue s) p) = Canceled \<longrightarrow>
         ctx \<in> q_ctx_done (ds_queue s) \<or> (\<exists>j. CStop (Some ctx) j \<in> set (ds_clients s)))"
  using ld.reachable_cancel_inv[OF assms(1)] assms(2,3) by (auto simp: cancel_inv_def run_ok_def)

text \<open>
  C18: The backlog is bounded, retries and recovery included: it never holds more than the
  admission limit, the capacity of the channel, the dispatcher's hand, one job per worker and
  the jobs resumed at start-up together, although requeuing never asks for room.
\<close>

theorem backlog_bounded:
  assumes "reachable sqlite_ops tools n m s"
  shows "length (q_pending (ds_queue s)) + q_reserved (ds_queue s)
      \<le> max_pending + ch_capacity + 1 + worker_count n + m
    \<and> length (q_ch (ds_queue s)) \<le> ch_capacity"
  using reachable_load[OF assms] by (simp add: load_inv_def load_def load_bound_def)


subsection \<open>Applications\<close>

text \<open>The tool is unknown: the worker fails the job.\<close>

definition failed_job :: job where
  "failed_job = first_job\<lparr>jb_finished := Some (GTime 2025 1 2 3 4 6 0), jb_status := Failed,
     jb_error := ''tool not found''\<rparr>"

lemma reach_failed:
  "reachable ops (\<lambda>n. None) 1 0
     (desk1 (held_queue failed_job) DIdle (WLast failed_job) [CDone] [0] {jb_id first_job})"
proof -
  have "worker_step ops (\<lambda>n. None) (held_queue first_job) (WTaken 0) (held_queue first_job)
      (WFinish 0 GNull (Some ''tool not found''))"
    by (rule worker_step.no_tool) simp
  from desk1_worker[OF reach_taken this]
  have r: "reachable ops (\<lambda>n. None) 1 0 (desk1 (held_queue first_job) DIdle
      (WFinish 0 GNull (Some ''tool not found'')) [CDone] [0] {jb_id first_job})" .
  have "worker_step ops (\<lambda>n. None) (held_queue first_job) (WFinish 0 GNull (Some ''tool not found''))
      (held_queue failed_job) (WLast failed_job)"
    by (rule worker_step.finish[where now = "GTime 2025 1 2 3 4 6 0"])
       (simp add: finish_def held_queue_def failed_job_def Let_def)
  from desk1_worker[OF r this] show ?thesis .
qed

lemma finished_job_is_final_witness:
  "jb_error (q_heap (ds_queue ((desk1 (held_queue failed_job :: sqlite_db queue) DIdle (WLast failed_job)
      [CDone] [0] {jb_id first_job})\<lparr>ds_queue := (held_queue failed_job)\<lparr>q_stopped := True\<rparr>\<rparr>)) 0)
    = ''tool not found''"
proof -
  let ?s = "desk1 (held_queue failed_job :: sqlite_db queue) DIdle (WLast failed_job) [CDone] [0] {jb_id first_job}"
  let ?s' = "?s\<lparr>ds_queue := (ds_queue ?s)\<lparr>q_stopped := True\<rparr>\<rparr>"
  have "0 \<in> set (ds_accepted ?s)" by (simp add: desk1_def)
  moreover have h: "q_heap (ds_queue ?s) 0 = failed_job" by (simp add: desk1_def held_queue_def)
  then have "over (q_heap (ds_queue ?s) 0)" by (simp add: over_def failed_job_def)
  ultimately obtain a t where e: "q_heap (ds_queue ?s') 0 = (q_heap (ds_queue ?s) 0)\<lparr>jb_acked := a, jb_acked_at := t\<rparr>"
    using finished_job_is_final[OF reach_failed desk_step.stop] by blast
  have "jb_error (q_heap (ds_queue ?s') 0) = ''tool not found''"
    unfolding e h by (simp add: failed_job_def)
  then show ?thesis by (simp add: desk1_def)
qed

lemma backlog_bounded_witness:
  "length (q_pending (held_queue failed_job :: sqlite_db queue)) \<le> max_pending + ch_capacity + 1 + worker_count 1 + 0"
  using backlog_bounded[OF reach_failed] by (simp add: desk1_def)

text \<open>The tool is known and running when the operator cancels.\<close>

definition running_job :: job where
  "running_job = first_job\<lparr>jb_status := Running, jb_attempt := 1, jb_started := Some (GTime 2025 1 2 3 4 6 0)\<rparr>"

definition canceled_job :: job where
  "canceled_job = running_job\<lparr>jb_status := Canceled, jb_finished := Some (GTime 2025 1 2 3 4 7 0)\<rparr>"

definition run_queue :: "job \<Rightarrow> 's queue" where
  "run_queue j = (held_queue j)\<lparr>q_cancels := [jb_id first_job \<mapsto> 0], q_next_ctx := 1\<rparr>"

lemma take_started:
  "worker_step ops (\<lambda>n. Some sample_exec_tool) (held_queue first_job) (WTaken 0) (run_queue running_job)
     (WSave 0 0 running_job)"
  by (rule worker_step.start[where now = "GTime 2025 1 2 3 4 6 0"])
     (simp_all add: begin_attempt_def held_queue_def run_queue_def new_queue_def running_job_def first_job_def
        make_job_def zero_job_def Let_def)

lemma reach_canceled:
  "reachable ops (\<lambda>n. Some sample_exec_tool) 1 0
     (desk1 (run_queue canceled_job) DIdle (WSave 0 0 running_job)
        ([CDone] @ [CStop (Some 0) canceled_job]) [0] {jb_id first_job})"
proof -
  let ?T = "\<lambda>n :: string. Some sample_exec_tool"
  from desk1_worker[OF reach_taken take_started]
  have r: "reachable ops ?T 1 0 (desk1 (run_queue running_job) DIdle (WSave 0 0 running_job) [CDone] [0] {jb_id first_job})" .
  have "arrive ops (run_queue running_job) (run_queue canceled_job) (CStop (Some 0) canceled_job)"
    by (rule arrive.cancel[where i = "jb_id first_job" and p = 0 and now = "GTime 2025 1 2 3 4 7 0"])
       (simp_all add: lookup_job_def cancel_tracked_def run_queue_def held_queue_def new_queue_def canceled_job_def
          running_job_def first_job_def make_job_def zero_job_def is_terminal_def Let_def)
  from desk1_arrive[OF r this] show ?thesis by simp
qed

lemma cancel_reaches_run_witness:
  "q_cancels (run_queue canceled_job :: sqlite_db queue) (jb_id canceled_job) = Some 0"
  using cancel_reaches_run[OF reach_canceled, of "WSave 0 0 running_job" 0 0]
  by (simp add: desk1_def run_queue_def held_queue_def)

end
