(* ===== verification/Queue_Life.thy ===== *)
theory Queue_Life
  imports Queue_Steps
begin

text \<open>
  The life of a job under every interleaving of the goroutines: an abstract machine on the status
  and the number of attempts, and that every step of the desk is one of its steps on each accepted
  job. \<open>Queue_Steps\<close> has the threads; the invariant here ties the status of a job to the place it
  is in, and its attempts to its limit.
\<close>

subsection \<open>The abstract machine\<close>

inductive lifecycle :: "job_status \<times> int \<Rightarrow> job_status \<times> int \<Rightarrow> bool" where
  rest: "lifecycle a a"
| start: "lifecycle (Queued, n) (Running, n + 1)"
| retry: "lifecycle (Running, n) (Queued, n)"
| finish: "st = Done \<or> st = Failed \<Longrightarrow> lifecycle (Running, n) (st, n)"
| give_up: "lifecycle (Queued, n) (Failed, n)"
| cancel: "st = Queued \<or> st = Running \<Longrightarrow> lifecycle (st, n) (Canceled, n)"
| overrule: "st = Queued \<or> st = Done \<or> st = Failed \<Longrightarrow> lifecycle (Canceled, n) (st, n)"

inductive_cases lifecycleE: "lifecycle (st, n) (st', n')"

text \<open>Done and failed are final, and attempts are counted at the start alone.\<close>

lemma lifecycle_final: "lifecycle (st, n) (st', n') \<Longrightarrow> st = Done \<or> st = Failed \<Longrightarrow> st' = st \<and> n' = n"
  by (erule lifecycleE) auto

lemma lifecycle_attempts:
  "lifecycle (st, n) (st', n') \<Longrightarrow> n' = (if st = Queued \<and> st' = Running then n + 1 else n)"
  by (erule lifecycleE) auto

definition phase :: "job \<Rightarrow> job_status \<times> int" where
  "phase j = (jb_status j, jb_attempt j)"

subsection \<open>What a place says of the job in it\<close>

text \<open>
  The limit on the attempts: \<open>max_retries\<close>, at least one, and what recovery brought in (\<open>k\<close>) at
  most once more.
\<close>

definition attempt_limit :: "int \<Rightarrow> job \<Rightarrow> int" where
  "attempt_limit k j = max (max 1 k) (jb_max_retries j)"

definition ready :: "int \<Rightarrow> job \<Rightarrow> bool" where
  "ready k j \<longleftrightarrow> (jb_status j = Queued \<or> jb_status j = Canceled) \<and> jb_attempt j < attempt_limit k j"

definition active :: "int \<Rightarrow> job \<Rightarrow> bool" where
  "active k j \<longleftrightarrow> (jb_status j = Running \<or> jb_status j = Canceled) \<and> jb_attempt j \<le> attempt_limit k j"

fun w_due :: "int \<Rightarrow> worker \<Rightarrow> job \<Rightarrow> bool" where
  "w_due k (WTaken p) j = ready k j"
| "w_due k (WSave p ctx cp) j = active k j"
| "w_due k (WRun p ctx) j = active k j"
| "w_due k (WJudge p outcome) j = active k j"
| "w_due k (WRetry p msg cp) j = ready k j"
| "w_due k (WSleep p msg) j = ready k j"
| "w_due k (WRequeue p msg) j = ready k j"
| "w_due k (WFinish p res None) j = active k j"
| "w_due k (WFinish p res (Some e)) j = (ready k j \<or> active k j)"
| "w_due k (WFinishC p) j = (jb_status j = Canceled \<and> jb_attempt j \<le> attempt_limit k j)"
| "w_due k w j = True"

fun c_due :: "client \<Rightarrow> bool" where
  "c_due (CInsert j) = (jb_status j = Queued \<and> jb_attempt j = 0)"
| "c_due (CTrack j) = (jb_status j = Queued \<and> jb_attempt j = 0)"
| "c_due _ = True"

text \<open>The places of the jobs that wait for a worker.\<close>

definition queued_at :: "'s desk_state \<Rightarrow> nat set" where
  "queued_at s = set (q_pending (ds_queue s)) \<union> set (q_ch (ds_queue s)) \<union> set (d_ptr (ds_disp s))
     \<union> (\<Union>c\<in>set (ds_clients s). set (c_ptr c))"

definition life_inv :: "int \<Rightarrow> 's desk_state \<Rightarrow> bool" where
  "life_inv k s \<longleftrightarrow>
     (\<forall>p\<in>queued_at s. ready k (q_heap (ds_queue s) p))
   \<and> (\<forall>w\<in>set (ds_workers s). \<forall>p\<in>set (w_ptr w). w_due k w (q_heap (ds_queue s) p))
   \<and> (\<forall>c\<in>set (ds_clients s). c_due c) \<and> (\<forall>j\<in>set (ds_resume s). jb_attempt j < k)
   \<and> (\<forall>p\<in>set (ds_accepted s). jb_attempt (q_heap (ds_queue s) p) \<le> attempt_limit k (q_heap (ds_queue s) p))"

lemmas due_defs = ready_def active_def attempt_limit_def

subsection \<open>Steps of the threads\<close>

lemma ready_limit: "ready k j \<or> active k j \<Longrightarrow> jb_attempt j \<le> attempt_limit k j"
  by (auto simp: ready_def active_def)

lemma due_limit: "w_due k w j \<Longrightarrow> p \<in> set (w_ptr w) \<Longrightarrow> jb_attempt j \<le> attempt_limit k j"
  by (cases "(k, w, j)" rule: w_due.cases) (auto intro: ready_limit)

lemma due_live: "w_due k w j \<Longrightarrow> p \<in> set (w_ptr w) \<Longrightarrow> \<not> over j"
  by (cases "(k, w, j)" rule: w_due.cases) (auto simp: ready_def active_def over_def)

lemma due_canceled:
  assumes "w_due k w j" "p \<in> set (w_ptr w)" "jb_status j' = Canceled" "jb_attempt j' = jb_attempt j"
    "jb_max_retries j' = jb_max_retries j"
  shows "w_due k w j'"
  using assms by (cases "(k, w, j)" rule: w_due.cases) (auto simp: due_defs)

text \<open>A worker's step on the job it holds: the next place is right for the job, and the step is one of the life.\<close>

lemma worker_step_due:
  assumes "worker_step ops tools q w q' w'" "\<And>p. p \<in> set (w_ptr w) \<Longrightarrow> w_due k w (q_heap q p)"
    and "\<And>p. p \<in> set (q_ch q) \<Longrightarrow> ready k (q_heap q p)" "p \<in> set (w_ptr w')"
  shows "w_due k w' (q_heap q' p)"
  using assms(1)
proof cases
  case (receive x)
  then have "w' = WTaken p" "p \<in> set (q_ch q)" "q_heap q' p = q_heap q p"
    using assms(4) by (auto simp: worker_receive_def split: list.splits)
  with assms(3) show ?thesis by simp
qed (use assms(2,4) in \<open>auto simp: section_defs due_defs judge_def
       split: if_splits option.splits sum.splits prod.splits exec_kind.splits\<close>)

lemma worker_step_lifecycle:
  assumes "worker_step ops tools q w q' w'" "w_due k w (q_heap q p)" "p \<in> set (w_ptr w)"
  shows "lifecycle (phase (q_heap q p)) (phase (q_heap q' p))"
  using assms(1)
proof cases
  case (finish x res err now cp)
  then have x: "x = p" using assms(3) by simp
  show ?thesis
  proof (cases err)
    case None
    then have "phase (q_heap q' p) = (Done, jb_attempt (q_heap q p))"
      using finish(3) by (auto simp: finish_def Let_def phase_def x)
    moreover have "active k (q_heap q p)" using assms(2) finish(1) None by simp
    ultimately show ?thesis
      by (auto simp: active_def phase_def intro: lifecycle.finish lifecycle.overrule)
  next
    case (Some e)
    then have "phase (q_heap q' p) = (Failed, jb_attempt (q_heap q p))"
      using finish(3) by (auto simp: finish_def Let_def phase_def x)
    moreover have "ready k (q_heap q p) \<or> active k (q_heap q p)" using assms(2) finish(1) Some by simp
    ultimately show ?thesis
      by (auto simp: ready_def active_def phase_def intro: lifecycle.finish lifecycle.give_up lifecycle.overrule)
  qed
next
  case (start x t now ctx cp)
  then have "ready k (q_heap q p)" "x = p" using assms(2,3) by simp_all
  with start(4) show ?thesis
    by (auto simp: begin_attempt_def Let_def ready_def phase_def intro: lifecycle.start split: if_splits)
next
  case (again outcome x msg cp)
  then have "active k (q_heap q p)" "x = p" using assms(2,3) by simp_all
  with again(4) show ?thesis
    by (auto simp: mark_retry_def Let_def active_def phase_def intro: lifecycle.retry lifecycle.overrule)
next
  case (finish_canceled x now cp)
  then have "phase (q_heap q' p) = phase (q_heap q p)"
    using assms(3) by (auto simp: finish_canceled_def Let_def phase_def)
  then show ?thesis by (simp add: lifecycle.rest)
qed (use assms(3) in \<open>auto simp: worker_receive_def begin_attempt_def end_attempt_def push_backlog_def Let_def
       intro: lifecycle.rest split: if_splits list.splits\<close>)

lemma worker_step_limit:
  assumes "worker_step ops tools q w q' w'" "w_due k w (q_heap q p)" "p \<in> set (w_ptr w)"
  shows "jb_attempt (q_heap q' p) \<le> attempt_limit k (q_heap q' p)"
  using assms due_limit[OF assms(2,3)]
  by cases (auto simp: section_defs due_defs split: if_splits list.splits option.splits)

lemma worker_step_places:
  assumes "worker_step ops tools q w q' w'" "\<And>p. p \<in> set (w_ptr w) \<Longrightarrow> w_due k w (q_heap q p)"
    "x \<in> set (q_pending q') \<union> set (q_ch q')"
  shows "x \<in> set (q_pending q) \<union> set (q_ch q) \<or> x \<in> set (w_ptr w) \<and> ready k (q_heap q' x)"
  using assms
  by cases (auto simp: section_defs split: if_splits list.splits option.splits)

lemma dispatcher_step_places:
  assumes "dispatcher_step q d q' d'"
  shows "set (q_pending q') \<union> set (q_ch q') \<union> set (d_ptr d') \<subseteq> set (q_pending q) \<union> set (q_ch q) \<union> set (d_ptr d)"
  using assms by cases (auto simp: section_defs split: if_splits list.splits)

text \<open>A call that begins changes a job by canceling or acknowledging it.\<close>

definition touched :: "job \<Rightarrow> job \<Rightarrow> bool" where
  "touched j j' \<longleftrightarrow> jb_attempt j' = jb_attempt j \<and> jb_max_retries j' = jb_max_retries j
     \<and> (jb_status j' = jb_status j \<or> jb_status j' = Canceled \<and> \<not> is_terminal (jb_status j))"

lemma touched_same: "j' = j \<Longrightarrow> touched j j'" by (simp add: touched_def)

lemma touched_ready: "touched j j' \<Longrightarrow> ready k j \<Longrightarrow> ready k j'"
  by (auto simp: touched_def due_defs)

lemma touched_due: "touched j j' \<Longrightarrow> w_due k w j \<Longrightarrow> w_due k w j'"
  by (cases "(k, w, j)" rule: w_due.cases) (auto simp: touched_def due_defs)

lemma touched_limit:
  "touched j j' \<Longrightarrow> jb_attempt j \<le> attempt_limit k j \<Longrightarrow> jb_attempt j' \<le> attempt_limit k j'"
  by (simp add: touched_def attempt_limit_def)

lemma touched_lifecycle: "touched j j' \<Longrightarrow> lifecycle (phase j) (phase j')"
  by (cases "jb_status j") (auto simp: touched_def phase_def intro: lifecycle.rest lifecycle.cancel)

lemma arrive_touches:
  assumes "arrive ops q q' c"
  shows "touched (q_heap q p) (q_heap q' p)"
  using assms
proof cases
  case (submit random now t input meta key batch)
  then show ?thesis using reserve_None[of q q'] by (simp add: touched_def)
qed (auto simp: touched_def cancel_tracked_def ack_tracked_def Let_def split: if_splits)

lemma arrive_c_due: "arrive ops q q' c \<Longrightarrow> c_due c"
  by (erule arrive.cases) (simp_all add: make_job_def zero_job_def)

text \<open>What waits for a worker is in no worker's hand.\<close>

lemma queued_apart:
  assumes "desk_inv s" "w \<in> set (ds_workers s)" "x \<in> set (w_ptr w)"
  shows "x \<notin> queued_at s"
proof
  assume "x \<in> queued_at s"
  then have "0 < count (mset (q_pending (ds_queue s))) x + count (mset (q_ch (ds_queue s))) x
      + count (mset (d_ptr (ds_disp s))) x + count (mset (concat (map c_ptr (ds_clients s)))) x"
    by (auto simp: queued_at_def)
  moreover have "0 < count (mset (concat (map w_ptr (ds_workers s)))) x" using assms(2,3) by auto
  moreover have "count (owners s) x \<le> 1" using assms(1) by (simp add: desk_inv_def)
  ultimately show False unfolding owners_def count_union by linarith
qed

lemma queued_held: "x \<in> queued_at s \<Longrightarrow> x \<in># owners s"
  by (auto simp: queued_at_def owners_def)

subsection \<open>The invariant is kept\<close>

lemma life_inv_dispatcher:
  assumes "life_inv k s" "dispatcher_step (ds_queue s) (ds_disp s) q' d'"
  shows "life_inv k (s\<lparr>ds_queue := q', ds_disp := d'\<rparr>)"
proof -
  have "queued_at (s\<lparr>ds_queue := q', ds_disp := d'\<rparr>) \<subseteq> queued_at s"
    using dispatcher_step_places[OF assms(2)] by (auto simp: queued_at_def)
  then show ?thesis using assms(1) dispatcher_step_frame[OF assms(2)] by (auto simp: life_inv_def)
qed

lemma life_inv_worker:
  assumes i: "desk_inv s" "life_inv k s"
    and w: "ds_workers s = ws @ w # us" "worker_step ops tools (ds_queue s) w q' w'"
  shows "life_inv k (s\<lparr>ds_queue := q', ds_workers := ws @ w' # us\<rparr>)" (is "life_inv k ?s")
proof -
  let ?h = "q_heap (ds_queue s)"
  have frame: "q_heap q' x = ?h x" if "x \<notin> set (w_ptr w)" for x
    using worker_step_frame[OF w(2)] that by blast
  have due: "w_due k w (?h p)" if "p \<in> set (w_ptr w)" for p
    using i(2) w(1) that by (simp add: life_inv_def)
  have rd: "ready k (?h p)" if "p \<in> queued_at s" for p using i(2) that by (simp add: life_inv_def)
  have "ready k (q_heap q' x)" if x: "x \<in> queued_at ?s" for x
  proof (cases "x \<in> queued_at s")
    case True
    then have "x \<notin> set (w_ptr w)" using queued_apart[OF i(1), of w x] w(1) by auto
    with frame rd[OF True] show ?thesis by simp
  next
    case False
    with x have "x \<in> set (q_pending q') \<union> set (q_ch q')" by (auto simp: queued_at_def)
    from worker_step_places[OF w(2) due this] False show ?thesis by (auto simp: queued_at_def)
  qed
  moreover have "w_due k w' (q_heap q' p)" if "p \<in> set (w_ptr w')" for p
    by (rule worker_step_due[OF w(2) due _ that]) (auto simp: queued_at_def intro: rd)
  moreover have "w_due k v (q_heap q' p)" if v: "v \<in> set ws \<union> set us" "p \<in> set (w_ptr v)" for v p
    using frame[OF held_apart[OF i(1) w(1) v]] i(2) w(1) v by (auto simp: life_inv_def)
  moreover have "jb_attempt (q_heap q' p) \<le> attempt_limit k (q_heap q' p)" if "p \<in> set (ds_accepted s)" for p
  proof (cases "p \<in> set (w_ptr w)")
    case True
    with due show ?thesis by (intro worker_step_limit[OF w(2)])
  qed (use frame that i(2) in \<open>simp add: life_inv_def\<close>)
  ultimately show ?thesis using i(2) by (auto simp: life_inv_def)
qed

lemma life_inv_arrive:
  assumes "life_inv k s" "arrive ops (ds_queue s) q' c"
  shows "life_inv k (s\<lparr>ds_queue := q', ds_clients := ds_clients s @ [c], ds_ids := ids\<rparr>)"
proof -
  let ?s = "s\<lparr>ds_queue := q', ds_clients := ds_clients s @ [c], ds_ids := ids\<rparr>"
  have "queued_at ?s = queued_at s" using arrive_frame[OF assms(2)] by (auto simp: queued_at_def)
  then show ?thesis
    using assms(1) arrive_c_due[OF assms(2)]
    by (auto simp: life_inv_def intro: touched_ready[OF arrive_touches[OF assms(2)]]
        touched_due[OF arrive_touches[OF assms(2)]] touched_limit[OF arrive_touches[OF assms(2)]])
qed

text \<open>A step that accepts at most a fresh object, which is ready.\<close>

lemma life_inv_grow:
  assumes i: "desk_inv s" "life_inv k s"
    and "\<forall>x < q_next (ds_queue s). q_heap (ds_queue s') x = q_heap (ds_queue s) x"
    and "queued_at s' \<subseteq> queued_at s \<union> N" "set (ds_accepted s') \<subseteq> set (ds_accepted s) \<union> N"
    and "\<forall>p\<in>N. ready k (q_heap (ds_queue s') p)" "ds_workers s' = ds_workers s"
    and "set (ds_resume s') \<subseteq> set (ds_resume s)" "\<forall>c\<in>set (ds_clients s'). c_due c"
  shows "life_inv k s'"
proof -
  have acc: "p < q_next (ds_queue s)" if "p \<in> set (ds_accepted s)" for p
    using i(1) that by (simp add: desk_inv_def)
  have held: "p < q_next (ds_queue s)" if "p \<in># owners s" for p
    using i(1) that acc by (auto simp: desk_inv_def)
  have "ready k (q_heap (ds_queue s') p)" if "p \<in> queued_at s'" for p
    using that assms(3,4,6) i(2) held[OF queued_held] by (auto simp: life_inv_def)
  moreover have "w_due k w (q_heap (ds_queue s') p)" if "w \<in> set (ds_workers s)" "p \<in> set (w_ptr w)" for w p
    using that assms(3) i(2) held[OF held_by_worker[OF that]] by (simp add: life_inv_def)
  moreover have "jb_attempt (q_heap (ds_queue s') p) \<le> attempt_limit k (q_heap (ds_queue s') p)"
    if "p \<in> set (ds_accepted s')" for p
    using that assms(3,5,6) i(2) acc[of p] ready_limit by (auto simp: life_inv_def)
  ultimately show ?thesis using assms(7-9) i(2) by (auto simp: life_inv_def)
qed

lemma client_step_places:
  assumes "client_step ops q c q' c'"
  shows "set (q_pending q') \<union> set (c_ptr c') \<subseteq> set (q_pending q) \<union> set (c_ptr c) \<union> set (c_new c c')"
  using assms by cases (auto simp: push_backlog_def dedupe_frame new_object_def put_job_def split: if_splits)

lemma client_step_new:
  assumes "client_step ops q c q' c'" "c_due c" "p \<in> set (c_new c c')"
  shows "jb_status (q_heap q' p) = Queued \<and> jb_attempt (q_heap q' p) = 0"
  using assms by cases (auto simp: new_object_def put_job_def)

lemma fresh_ready: "jb_status j = Queued \<Longrightarrow> jb_attempt j < max 1 k \<Longrightarrow> ready k j"
  by (auto simp: ready_def attempt_limit_def)

lemma life_inv_resume:
  assumes i: "desk_inv s" "life_inv k s" "ds_resume s = j # js"
    and r: "new_object (j\<lparr>jb_status := Queued\<rparr>) (ds_queue s) = (p, q')"
  shows "life_inv k (s\<lparr>ds_queue := put_job (jb_id j) p q', ds_resume := js,
    ds_clients := ds_clients s @ [CRequeue p], ds_accepted := ds_accepted s @ [p]\<rparr>)"
proof (rule life_inv_grow[OF i(1,2), where N = "{p}"])
  have "jb_attempt j < k" using i(2,3) by (simp add: life_inv_def)
  then show "\<forall>x\<in>{p}. ready k (q_heap (ds_queue (s\<lparr>ds_queue := put_job (jb_id j) p q', ds_resume := js,
    ds_clients := ds_clients s @ [CRequeue p], ds_accepted := ds_accepted s @ [p]\<rparr>)) x)"
    using r by (auto simp: new_object_def intro!: fresh_ready)
qed (use r i in \<open>auto simp: new_object_def queued_at_def life_inv_def\<close>)

lemma life_inv_fresh:
  assumes "\<forall>j\<in>set js. jb_attempt j < k"
  shows "life_inv k (fresh_desk (new_queue n st) js)"
  using assms by (simp add: life_inv_def fresh_desk_def queued_at_def new_queue_def)

context live_desk
begin

lemma client_step_c_due: "client_step ops q c q' c' \<Longrightarrow> c_due c \<Longrightarrow> c_due c'"
  by (erule client_step.cases) (auto dest: created_keeps)

lemma life_inv_step:
  assumes "desk_step ops tools s s'" "desk_inv s" "life_inv k s"
  shows "life_inv k s'"
  using assms(1)
proof cases
  case (client cs c es q' c')
  then have c: "c_due c" "c_due c'" using assms(3) by (auto simp: life_inv_def intro: client_step_c_due)
  show ?thesis unfolding client(1)
    by (rule life_inv_grow[OF assms(2,3), where N = "set (c_new c c')"])
       (use client_step_frame[OF client(3)] client_step_places[OF client(3)] client_step_new[OF client(3) c(1)]
         c assms(3) client(2) in \<open>auto simp: queued_at_def life_inv_def intro!: fresh_ready\<close>)
next
  case stop
  show ?thesis unfolding stop using assms(3) by (simp add: life_inv_def queued_at_def)
qed (use assms(2,3) in \<open>auto intro: life_inv_dispatcher life_inv_worker life_inv_arrive life_inv_resume\<close>)

lemma reachable_life: "reachable ops tools n m s \<Longrightarrow> \<exists>k. life_inv k s \<and> (m = 0 \<longrightarrow> k = 1)"
proof (induction rule: reachable.induct)
  case memory
  show ?case by (intro exI[of _ 1] conjI life_inv_fresh) simp_all
next
  case (stored st js st')
  let ?k = "Max (insert 1 (set (map (\<lambda>j. jb_attempt j + 1) js)))"
  have "\<forall>j\<in>set js. jb_attempt j < ?k"
  proof
    fix j assume "j \<in> set js"
    then have "jb_attempt j + 1 \<le> ?k" by (intro Max_ge) auto
    then show "jb_attempt j < ?k" by simp
  qed
  then have "life_inv ?k (fresh_desk (new_queue n (Some st')) js)" by (rule life_inv_fresh)
  with stored(3) show ?case by (intro exI[of _ ?k]) auto
next
  case (step s s')
  then show ?case using life_inv_step reachable_inv by blast
qed

end

subsection \<open>Steps of the desk\<close>

text \<open>The places past the worker's check for a cancellation, from which one is overruled.\<close>

fun past_check :: "worker \<Rightarrow> bool" where
  "past_check (WJudge p outcome) = True"
| "past_check (WFinish p res err) = True"
| "past_check w = False"

lemma worker_step_overrules:
  assumes "worker_step ops tools q w q' w'" "jb_status (q_heap q p) = Canceled" "\<not> past_check w"
  shows "jb_status (q_heap q' p) = Canceled"
  using assms by cases (auto simp: section_defs split: if_splits list.splits option.splits)

context live_desk
begin

lemma step_lifecycle:
  assumes "reachable ops tools n m s" "desk_step ops tools s s'" "p \<in> set (ds_accepted s)"
  shows "lifecycle (phase (q_heap (ds_queue s) p)) (phase (q_heap (ds_queue s') p))
    \<and> (jb_status (q_heap (ds_queue s) p) = Canceled \<and> jb_status (q_heap (ds_queue s') p) \<noteq> Canceled \<longrightarrow>
         (\<exists>w\<in>set (ds_workers s). p \<in> set (w_ptr w) \<and> past_check w))"
proof -
  obtain k where k: "life_inv k s" using reachable_life[OF assms(1)] by blast
  have old: "p < q_next (ds_queue s)" using reachable_inv[OF assms(1)] assms(3) by (simp add: desk_inv_def)
  from assms(2) show ?thesis
  proof cases
    case (worker ws w us q' w')
    show ?thesis
    proof (cases "p \<in> set (w_ptr w)")
      case True
      then have "w_due k w (q_heap (ds_queue s) p)" using k worker(2) by (simp add: life_inv_def)
      with worker_step_lifecycle[OF worker(3) _ True] worker_step_overrules[OF worker(3)] True worker(1,2)
      show ?thesis by auto
    next
      case False
      then have "q_heap q' p = q_heap (ds_queue s) p" using worker_step_frame[OF worker(3)] by blast
      with worker(1) show ?thesis by (simp add: lifecycle.rest)
    qed
  next
    case (arrive q' c)
    have "touched (q_heap (ds_queue s) p) (q_heap q' p)" by (rule arrive_touches[OF arrive(2)])
    with arrive(1) show ?thesis by (auto simp: touched_lifecycle) (auto simp: touched_def)
  next
    case (dispatcher q' d')
    then show ?thesis using dispatcher_step_frame[OF dispatcher(2)] by (simp add: lifecycle.rest)
  next
    case (client cs c es q' c')
    then show ?thesis using client_step_frame[OF client(3)] old by (simp add: lifecycle.rest)
  next
    case (resume j js x q')
    then show ?thesis using old by (auto simp: new_object_def lifecycle.rest)
  next
    case stop
    then show ?thesis by (simp add: lifecycle.rest)
  qed
qed

lemma accepted_queued:
  assumes "reachable ops tools n m s" "desk_step ops tools s s'" "p \<in> set (ds_accepted s') - set (ds_accepted s)"
  shows "jb_status (q_heap (ds_queue s') p) = Queued"
proof -
  obtain k where k: "life_inv k s" using reachable_life[OF assms(1)] by blast
  from assms(2) show ?thesis
  proof cases
    case (client cs c es q' c')
    then have "c_due c" "p \<in> set (c_new c c')" using k assms(3) by (auto simp: life_inv_def)
    from client_step_new[OF client(3) this] client(1) show ?thesis by simp
  next
    case (resume j js x q')
    then show ?thesis using assms(3) by (auto simp: new_object_def)
  qed (use assms(3) in auto)
qed

end

subsection \<open>Properties\<close>


text \<open>
  C9: No job is run more often than its tool allows. On a desk that had nothing to resume, in
  every reachable state, the attempts of an accepted job are at most \<^verbatim>\<open>max_retries\<close>, or one when
  that is less, whatever the interleaving of workers, retries and cancellations.
\<close>

theorem attempts_bounded:
  assumes "reachable sqlite_ops tools n 0 s" "p \<in> set (ds_accepted s)"
  shows "jb_attempt (q_heap (ds_queue s) p) \<le> max 1 (jb_max_retries (q_heap (ds_queue s) p))"
  using ld.reachable_life[OF assms(1)] assms(2) by (auto simp: life_inv_def attempt_limit_def)

subsection \<open>Applications\<close>


lemma attempts_bounded_witness:
  "jb_attempt (q_heap (run_queue canceled_job :: sqlite_db queue) 0)
     \<le> max 1 (jb_max_retries (q_heap (run_queue canceled_job :: sqlite_db queue) 0))"
  using attempts_bounded[OF reach_canceled[of sqlite_ops], of 0] by (simp add: desk1_def)

end
