(* ===== verification/Queue_Settle.thy ===== *)
theory Queue_Settle
  imports Queue_Life
begin

text \<open>
  The desk settles. When no new calls come and it is not stopped, the goroutines can take only so
  many steps, and they come to rest only when every accepted job is terminal: none of them blocks
  another, no wake of the dispatcher is lost, and retries end. That the tool's run returns is the
  step \<open>ran\<close> of a worker, which is always possible; the code bounds a run by its timeout.
\<close>

subsection \<open>The steps without new calls\<close>

inductive work_step ::
    "'s store_ops \<Rightarrow> (string \<Rightarrow> tool option) \<Rightarrow> 's desk_state \<Rightarrow> 's desk_state \<Rightarrow> bool"
  for ops :: "'s store_ops" and tools :: "string \<Rightarrow> tool option" where
  dispatcher: "dispatcher_step (ds_queue s) (ds_disp s) q' d' \<Longrightarrow>
    work_step ops tools s (s\<lparr>ds_queue := q', ds_disp := d'\<rparr>)"
| worker: "ds_workers s = ws @ w # us \<Longrightarrow> worker_step ops tools (ds_queue s) w q' w' \<Longrightarrow>
    work_step ops tools s (s\<lparr>ds_queue := q', ds_workers := ws @ w' # us\<rparr>)"
| client: "ds_clients s = cs @ c # es \<Longrightarrow> client_step ops (ds_queue s) c q' c' \<Longrightarrow>
    work_step ops tools s
      (s\<lparr>ds_queue := q', ds_clients := cs @ c' # es, ds_accepted := ds_accepted s @ c_new c c'\<rparr>)"
| resume: "ds_resume s = j # js \<Longrightarrow> new_object (j\<lparr>jb_status := Queued\<rparr>) (ds_queue s) = (p, q') \<Longrightarrow>
    work_step ops tools s
      (s\<lparr>ds_queue := put_job (jb_id j) p q', ds_resume := js, ds_clients := ds_clients s @ [CRequeue p],
         ds_accepted := ds_accepted s @ [p]\<rparr>)"

lemma work_step_desk: "work_step ops tools s s' \<Longrightarrow> desk_step ops tools s s'"
  by (erule work_step.cases) (auto intro: desk_step.intros)

lemma work_step_stopped: "work_step ops tools s s' \<Longrightarrow> q_stopped (ds_queue s') = q_stopped (ds_queue s)"
  by (erule work_step.cases)
     (auto simp: new_object_def dest: dispatcher_step_frame worker_step_frame client_step_frame)

subsection \<open>A measure that every step decreases\<close>

text \<open>
  The runs a job has left, times the length of one turn from the backlog to the backlog, and
  what is left of the turn it is in.
\<close>

definition runs_left :: "int \<Rightarrow> job \<Rightarrow> nat" where
  "runs_left k j = nat (attempt_limit k j - jb_attempt j)"

fun d_wt :: "(nat \<Rightarrow> nat) \<Rightarrow> dispatcher \<Rightarrow> nat" where
  "d_wt a DIdle = 2"
| "d_wt a DWait = 1"
| "d_wt a (DHand p) = 30 * a p + 8"
| "d_wt a DGone = 0"

fun w_wt :: "(nat \<Rightarrow> nat) \<Rightarrow> worker \<Rightarrow> nat" where
  "w_wt a (WTaken p) = 30 * a p + 4"
| "w_wt a (WSave p ctx cp) = 30 * a p + 30"
| "w_wt a (WRun p ctx) = 30 * a p + 29"
| "w_wt a (WJudge p outcome) = 30 * a p + 28"
| "w_wt a (WRetry p msg cp) = 30 * a p + 27"
| "w_wt a (WSleep p msg) = 30 * a p + 26"
| "w_wt a (WRequeue p msg) = 30 * a p + 25"
| "w_wt a (WFinish p res err) = 30 * a p + 3"
| "w_wt a (WFinishC p) = 30 * a p + 3"
| "w_wt a WSignal = 4"
| "w_wt a (WLast cp) = 2"
| "w_wt a WIdle = 1"
| "w_wt a WGone = 0"

fun c_wt :: "int \<Rightarrow> (nat \<Rightarrow> nat) \<Rightarrow> client \<Rightarrow> nat" where
  "c_wt k a (CInsert j) = 30 * runs_left k j + 16"
| "c_wt k a (CTrack j) = 30 * runs_left k j + 15"
| "c_wt k a (CEnqueue p) = 30 * a p + 14"
| "c_wt k a (CRequeue p) = 30 * a p + 14"
| "c_wt k a CSignal = 3"
| "c_wt k a (CStop c j) = 3"
| "c_wt k a (CDup j) = 3"
| "c_wt k a (CDedupe j) = 2"
| "c_wt k a (CSave j) = 2"
| "c_wt k a (CSaveAck j) = 1"
| "c_wt k a (CFound j) = 1"
| "c_wt k a CRelease = 1"
| "c_wt k a CDone = 0"

definition q_wt :: "(nat \<Rightarrow> nat) \<Rightarrow> 's queue \<Rightarrow> nat" where
  "q_wt a q = sum_list (map (\<lambda>p. 30 * a p + 9) (q_pending q)) + sum_list (map (\<lambda>p. 30 * a p + 5) (q_ch q))
     + (if q_wake q then 2 else 0)"

definition left_in :: "int \<Rightarrow> 's queue \<Rightarrow> nat \<Rightarrow> nat" where
  "left_in k q p = runs_left k (q_heap q p)"

definition desk_wt :: "int \<Rightarrow> 's desk_state \<Rightarrow> nat" where
  "desk_wt k s =
     (let a = left_in k (ds_queue s) in
      q_wt a (ds_queue s) + d_wt a (ds_disp s) + sum_list (map (w_wt a) (ds_workers s))
      + sum_list (map (c_wt k a) (ds_clients s)) + sum_list (map (\<lambda>j. 30 * runs_left k j + 15) (ds_resume s)))"

lemma sum_list_le:
  fixes f g :: "'a \<Rightarrow> nat"
  shows "(\<And>x. x \<in> set xs \<Longrightarrow> f x \<le> g x) \<Longrightarrow> sum_list (map f xs) \<le> sum_list (map g xs)"
  by (rule sum_list_mono) simp

lemma q_wt_mono:
  "(\<And>p. p \<in> set (q_pending q) \<union> set (q_ch q) \<Longrightarrow> a' p \<le> a p) \<Longrightarrow> q_wt a' q \<le> q_wt a q"
  unfolding q_wt_def by (intro add_mono sum_list_le) auto

lemma d_wt_mono: "(\<And>p. p \<in> set (d_ptr d) \<Longrightarrow> a' p \<le> a p) \<Longrightarrow> d_wt a' d \<le> d_wt a d"
  by (cases d) auto

lemma w_wt_mono: "(\<And>p. p \<in> set (w_ptr w) \<Longrightarrow> a' p \<le> a p) \<Longrightarrow> w_wt a' w \<le> w_wt a w"
  by (cases w) auto

lemma c_wt_mono: "(\<And>p. p \<in> set (c_ptr c) \<Longrightarrow> a' p \<le> a p) \<Longrightarrow> c_wt k a' c \<le> c_wt k a c"
  by (cases c) auto

lemma dispatcher_step_wt:
  assumes "dispatcher_step q d q' d'"
  shows "q_wt a q' + d_wt a d' < q_wt a q + d_wt a d"
  using assms by cases (auto simp: section_defs q_wt_def split: if_splits list.splits)

lemma worker_step_left:
  assumes "worker_step ops tools q w q' w'"
  shows "left_in k q' p \<le> left_in k q p"
  using assms
  by cases (auto simp: section_defs left_in_def runs_left_def attempt_limit_def split: if_splits list.splits option.splits)

lemma wake_frame [simp]:
  "q_wake (persist ops j q) = q_wake q" "q_wake (persist_ack ops j q) = q_wake q"
  "q_wake (cancel_ctx c q) = q_wake q" "q_wake (release q) = q_wake q"
  by (simp_all add: persist_def persist_ack_def cancel_ctx_def release_def split: option.split)

lemma held_by_client: "c \<in> set (ds_clients s) \<Longrightarrow> p \<in> set (c_ptr c) \<Longrightarrow> p \<in># owners s"
  by (auto simp: owners_def)

lemma nat_diff_Suc: "a < l \<Longrightarrow> nat (l - a) = Suc (nat (l - (a + 1)))"
  for a l :: int
  by simp

lemma worker_step_left_same:
  assumes "worker_step ops tools q w q' w'" "\<And>p ctx cp. w' \<noteq> WSave p ctx cp"
  shows "left_in k q' = left_in k q"
  using assms
  by cases (auto simp: fun_eq_iff section_defs left_in_def runs_left_def attempt_limit_def split: if_splits list.splits option.splits)

lemma worker_step_wt:
  assumes "worker_step ops tools q w q' w'" "\<And>p. p \<in> set (w_ptr w) \<Longrightarrow> w_due k w (q_heap q p)"
  shows "q_wt (left_in k q) q' + w_wt (left_in k q') w' < q_wt (left_in k q) q + w_wt (left_in k q) w"
  using assms(1)
proof cases
  case (start p t now ctx cp)
  then have "ready k (q_heap q p)" using assms(2) by simp
  moreover have "q_heap q' p = (q_heap q p)\<lparr>jb_status := Running, jb_attempt := jb_attempt (q_heap q p) + 1,
      jb_started := Some now\<rparr>" "q_pending q' = q_pending q" "q_ch q' = q_ch q" "q_wake q' = q_wake q"
    using start(4) by (auto simp: begin_attempt_def Let_def split: if_splits)
  ultimately show ?thesis using start(1,2)
    by (simp add: q_wt_def left_in_def runs_left_def ready_def attempt_limit_def nat_diff_Suc)
qed (use worker_step_left_same[OF assms(1), of k] in \<open>auto simp: section_defs q_wt_def split: if_splits list.splits\<close>)

lemma left_old: "q_heap q' p = q_heap q p \<Longrightarrow> left_in k q' p = left_in k q p"
  by (simp add: left_in_def)

lemma q_wt_frame:
  assumes "q_pending q' = q_pending q" "q_ch q' = q_ch q" "q_wake q' = q_wake q"
  shows "q_wt a q' = q_wt a q"
  using assms by (simp add: q_wt_def)

context live_desk
begin

lemma client_step_wt:
  assumes "client_step ops q c q' c'" "\<And>p. p \<in> set (q_pending q) \<union> set (q_ch q) \<union> set (c_ptr c) \<Longrightarrow> p < q_next q"
  shows "q_wt (left_in k q) q' + c_wt k (left_in k q') c' < q_wt (left_in k q) q + c_wt k (left_in k q) c"
  using assms(1)
proof cases
  case (created s j m s')
  then have "runs_left k m = runs_left k j"
    using created_keeps[OF created(5)] by (simp add: runs_left_def attempt_limit_def)
  with created show ?thesis by (simp add: q_wt_def)
next
  case (dedupe m)
  have "q_pending q' = q_pending q" "q_ch q' = q_ch q" "q_wake q' = q_wake q"
    unfolding dedupe by (auto simp: dedupe_def new_object_def put_job_def split: option.splits)
  from q_wt_frame[OF this] dedupe show ?thesis by simp
next
  case (enqueue p)
  then show ?thesis by (simp add: q_wt_def left_in_def)
next
  case (requeue p)
  then show ?thesis by (auto simp: q_wt_def left_in_def push_backlog_def split: if_splits)
next
  case (save j)
  then show ?thesis by (simp add: q_wt_def persist_def split: option.splits)
next
  case (save_ack j)
  then show ?thesis by (simp add: q_wt_def persist_ack_def split: option.splits)
next
  case (release_dup j)
  then show ?thesis by (simp add: q_wt_def release_def)
next
  case release
  then show ?thesis by (simp add: q_wt_def release_def)
qed (auto simp: q_wt_def new_object_def put_job_def left_in_def push_backlog_def cancel_ctx_def signal_wake_def
       split: if_splits option.splits)

lemma desk_wt_less:
  assumes "q_wt a (ds_queue s') + d_wt a (ds_disp s') + sum_list (map (w_wt b) (ds_workers s'))
      + sum_list (map (c_wt k b) (ds_clients s')) + sum_list (map (\<lambda>j. 30 * runs_left k j + 15) (ds_resume s'))
      < desk_wt k s"
    and "b = left_in k (ds_queue s')"
    and "\<And>p. p \<in> set (q_pending (ds_queue s')) \<union> set (q_ch (ds_queue s')) \<union> set (d_ptr (ds_disp s')) \<Longrightarrow> b p \<le> a p"
  shows "desk_wt k s' < desk_wt k s"
proof -
  have "q_wt b (ds_queue s') \<le> q_wt a (ds_queue s')" by (rule q_wt_mono) (use assms(3) in auto)
  moreover have "d_wt b (ds_disp s') \<le> d_wt a (ds_disp s')" by (rule d_wt_mono) (use assms(3) in auto)
  ultimately show ?thesis using assms(1) unfolding desk_wt_def Let_def assms(2) by linarith
qed

lemma desk_inv_held: "desk_inv s \<Longrightarrow> p \<in># owners s \<Longrightarrow> p < q_next (ds_queue s)"
  by (auto simp: desk_inv_def)

lemma dispatcher_desk_wt:
  assumes "dispatcher_step (ds_queue s) (ds_disp s) q' d'"
  shows "desk_wt k (s\<lparr>ds_queue := q', ds_disp := d'\<rparr>) < desk_wt k s"
proof -
  have "left_in k q' = left_in k (ds_queue s)" using dispatcher_step_frame[OF assms] by (auto simp: left_in_def)
  with dispatcher_step_wt[OF assms, of "left_in k (ds_queue s)"] show ?thesis
    unfolding desk_wt_def Let_def by simp
qed

lemma worker_desk_wt:
  assumes "ds_workers s = ws @ w # us" "worker_step ops tools (ds_queue s) w q' w'" "life_inv k s"
  shows "desk_wt k (s\<lparr>ds_queue := q', ds_workers := ws @ w' # us\<rparr>) < desk_wt k s"
proof -
  let ?a = "left_in k (ds_queue s)"
  note le = worker_step_left[OF assms(2), of k]
  have "w_due k w (q_heap (ds_queue s) p)" if "p \<in> set (w_ptr w)" for p
    using assms(1,3) that by (simp add: life_inv_def)
  note lt = worker_step_wt[OF assms(2) this]
  have "sum_list (map (w_wt (left_in k q')) ws) \<le> sum_list (map (w_wt ?a) ws)"
    "sum_list (map (w_wt (left_in k q')) us) \<le> sum_list (map (w_wt ?a) us)"
    "sum_list (map (c_wt k (left_in k q')) (ds_clients s)) \<le> sum_list (map (c_wt k ?a) (ds_clients s))"
    by (intro sum_list_le w_wt_mono c_wt_mono le)+
  with lt assms(1) le show ?thesis
    by (intro desk_wt_less[where a = ?a and b = "left_in k q'"]) (simp_all add: desk_wt_def Let_def)
qed

text \<open>A call or the recovery leaves the jobs that are held alone.\<close>

lemma client_step_held:
  assumes "client_step ops (ds_queue s) c q' c'" "c \<in> set (ds_clients s)" "desk_inv s"
  shows "p \<in># owners s \<Longrightarrow> left_in k q' p = left_in k (ds_queue s) p"
    and "p \<in> set (q_pending q') \<union> set (q_ch q') \<union> set (d_ptr (ds_disp s)) \<Longrightarrow> p \<in># owners s"
proof -
  note held = desk_inv_held[OF assms(3)]
  have in_c: "x \<in># owners s" if "x \<in> set (c_ptr c)" for x using assms(2) that by (auto simp: owners_def)
  have places: "x \<in># owners s \<or> x \<in> set (c_new c c')" if "x \<in> set (q_pending q')" for x
    using client_step_places[OF assms(1)] that in_c by (auto simp: owners_def)
  have new: "x \<notin> set (q_pending q')" if "x \<in> set (c_new c c')" for x
    using assms(1) that held[of x] by cases (auto simp: new_object_def put_job_def owners_def)
  show "p \<in># owners s \<Longrightarrow> left_in k q' p = left_in k (ds_queue s) p"
    by (rule left_old) (use client_step_frame[OF assms(1)] held[of p] in auto)
  show "p \<in> set (q_pending q') \<union> set (q_ch q') \<union> set (d_ptr (ds_disp s)) \<Longrightarrow> p \<in># owners s"
    using places new client_step_frame[OF assms(1)] by (auto simp: owners_def)
qed

lemma client_desk_wt:
  assumes "ds_clients s = cs @ c # es" "client_step ops (ds_queue s) c q' c'" "desk_inv s"
  shows "desk_wt k (s\<lparr>ds_queue := q', ds_clients := cs @ c' # es, ds_accepted := ds_accepted s @ c_new c c'\<rparr>) < desk_wt k s"
proof -
  let ?a = "left_in k (ds_queue s)" and ?b = "left_in k q'"
  have "c \<in> set (ds_clients s)" using assms(1) by simp
  note old = client_step_held[OF assms(2) this assms(3)]
  have "p < q_next (ds_queue s)" if "p \<in> set (q_pending (ds_queue s)) \<union> set (q_ch (ds_queue s)) \<union> set (c_ptr c)" for p
    using desk_inv_held[OF assms(3), of p] assms(1) that by (auto simp: owners_def)
  note lt = client_step_wt[OF assms(2) this, of k]
  have "sum_list (map (w_wt ?b) (ds_workers s)) \<le> sum_list (map (w_wt ?a) (ds_workers s))"
    by (intro sum_list_le w_wt_mono eq_refl[OF old(1)] held_by_worker)
  moreover have "sum_list (map (c_wt k ?b) xs) \<le> sum_list (map (c_wt k ?a) xs)"
    if "set xs \<subseteq> set (ds_clients s)" for xs
    by (intro sum_list_le c_wt_mono eq_refl[OF old(1)] held_by_client[of _ s]) (use that in auto)
  then have "sum_list (map (c_wt k ?b) cs) \<le> sum_list (map (c_wt k ?a) cs)"
    "sum_list (map (c_wt k ?b) es) \<le> sum_list (map (c_wt k ?a) es)"
    using assms(1) by auto
  moreover have "?b p \<le> ?a p" if "p \<in> set (q_pending q') \<union> set (q_ch q') \<union> set (d_ptr (ds_disp s))" for p
    using old(1)[OF old(2)[OF that]] by simp
  ultimately show ?thesis using lt assms(1)
    by (intro desk_wt_less[where a = ?a and b = ?b]) (simp_all add: desk_wt_def Let_def)
qed

lemma resume_desk_wt:
  assumes "ds_resume s = j # js" "new_object (j\<lparr>jb_status := Queued\<rparr>) (ds_queue s) = (p, q')" "desk_inv s"
  shows "desk_wt k (s\<lparr>ds_queue := put_job (jb_id j) p q', ds_resume := js,
    ds_clients := ds_clients s @ [CRequeue p], ds_accepted := ds_accepted s @ [p]\<rparr>) < desk_wt k s"
proof -
  let ?q = "ds_queue s" and ?q' = "put_job (jb_id j) p q'"
  let ?a = "left_in k ?q" and ?b = "left_in k ?q'"
  have p: "p = q_next ?q" "q_heap ?q' = (q_heap ?q)(p := j\<lparr>jb_status := Queued\<rparr>)" "q_pending ?q' = q_pending ?q"
    "q_ch ?q' = q_ch ?q" "q_wake ?q' = q_wake ?q"
    using assms(2) by (auto simp: new_object_def put_job_def)
  have old: "?b x = ?a x" if "x \<in># owners s" for x
    by (rule left_old) (use p(1,2) desk_inv_held[OF assms(3) that] in auto)
  have "sum_list (map (w_wt ?b) (ds_workers s)) \<le> sum_list (map (w_wt ?a) (ds_workers s))"
    by (intro sum_list_le w_wt_mono eq_refl[OF old] held_by_worker)
  moreover have "sum_list (map (c_wt k ?b) (ds_clients s)) \<le> sum_list (map (c_wt k ?a) (ds_clients s))"
    by (intro sum_list_le c_wt_mono eq_refl[OF old] held_by_client)
  moreover have "q_heap q' p = j\<lparr>jb_status := Queued\<rparr>" using assms(2) by (auto simp: new_object_def)
  then have "?b p = runs_left k j" by (simp add: left_in_def runs_left_def attempt_limit_def)
  moreover have "?b x \<le> ?a x" if "x \<in> set (q_pending ?q') \<union> set (q_ch ?q') \<union> set (d_ptr (ds_disp s))" for x
    using old[of x] that p(3,4) by (auto simp: owners_def)
  ultimately show ?thesis using assms(1) q_wt_frame[OF p(3-5), of ?a]
    by (intro desk_wt_less[where a = ?a and b = ?b]) (simp_all add: desk_wt_def Let_def)
qed

lemma work_step_wt:
  assumes "work_step ops tools s s'" "desk_inv s" "life_inv k s"
  shows "desk_wt k s' < desk_wt k s"
  using assms(1)
  by cases (auto intro: dispatcher_desk_wt worker_desk_wt[OF _ _ assms(3)] client_desk_wt[OF _ _ assms(2)]
    resume_desk_wt[OF _ _ assms(2)])

end

subsection \<open>Where the desk comes to rest\<close>

text \<open>
  Threads end only when the desk is stopped, and a dispatcher that waits for a wake while the
  backlog has a job has one coming: it is in the channel, or the thread that appended the job has
  still to send it.
\<close>

definition wake_inv :: "'s desk_state \<Rightarrow> bool" where
  "wake_inv s \<longleftrightarrow>
     (\<not> q_stopped (ds_queue s) \<longrightarrow> ds_disp s \<noteq> DGone \<and> WGone \<notin> set (ds_workers s))
   \<and> (ds_disp s = DWait \<and> q_pending (ds_queue s) \<noteq> [] \<longrightarrow>
        q_wake (ds_queue s) \<or> WSignal \<in> set (ds_workers s) \<or> CSignal \<in> set (ds_clients s))"

lemma dispatcher_step_wake:
  assumes "dispatcher_step q d q' d'"
  shows "(d' = DGone \<longrightarrow> q_stopped q) \<and> (d' = DWait \<longrightarrow> q_pending q' = [])"
  using assms by cases (auto simp: dispatch_take_def split: list.splits)

lemma worker_step_wake:
  assumes "worker_step ops tools q w q' w'"
  shows "(w' = WGone \<longrightarrow> q_stopped q) \<and> (q_wake q \<or> w = WSignal \<longrightarrow> q_wake q')
    \<and> (q_pending q' = q_pending q \<or> w' = WSignal)"
  using assms by cases (auto simp: section_defs split: if_splits list.splits option.splits)

lemma client_step_wake:
  assumes "client_step ops q c q' c'"
  shows "(q_wake q \<or> c = CSignal \<longrightarrow> q_wake q') \<and> (q_pending q' = q_pending q \<or> c' = CSignal)"
  using assms
  by cases (auto simp: dedupe_def push_backlog_def push_reserved_def new_object_def put_job_def Let_def
      split: if_splits option.splits)

lemma arrive_wake:
  assumes "arrive ops q q' c"
  shows "q_wake q' = q_wake q"
  using assms
  by cases (auto simp: cancel_tracked_def ack_tracked_def reserve_def Let_def split: if_splits)

lemma wake_inv_step:
  assumes "desk_step ops tools s s'" "wake_inv s"
  shows "wake_inv s'"
  using assms(1)
proof cases
  case (dispatcher q' d')
  with assms(2) dispatcher_step_wake[OF dispatcher(2)] dispatcher_step_frame[OF dispatcher(2)]
  show ?thesis by (auto simp: wake_inv_def)
next
  case (worker ws w us q' w')
  with assms(2) worker_step_wake[OF worker(3)] worker_step_frame[OF worker(3)]
  show ?thesis by (auto simp: wake_inv_def)
next
  case (arrive q' c)
  with assms(2) arrive_wake[OF arrive(2)] arrive_frame[OF arrive(2)]
  show ?thesis by (auto simp: wake_inv_def)
next
  case (client cs c es q' c')
  with assms(2) client_step_wake[OF client(3)] client_step_frame[OF client(3)]
  show ?thesis by (auto simp: wake_inv_def)
next
  case (resume j js p q')
  with assms(2) show ?thesis by (auto simp: wake_inv_def new_object_def put_job_def)
next
  case stop
  with assms(2) show ?thesis by (auto simp: wake_inv_def)
qed

lemma wake_inv_fresh: "wake_inv (fresh_desk (new_queue n st) js)"
  by (simp add: wake_inv_def fresh_desk_def new_queue_def)

lemma reachable_wake: "reachable ops tools n m s \<Longrightarrow> wake_inv s"
proof (induction rule: reachable.induct)
  case (step s s')
  show ?case by (rule wake_inv_step[OF step.hyps(2) step.IH])
qed (rule wake_inv_fresh)+

text \<open>What can always be done.\<close>

lemma client_can:
  assumes "c \<noteq> CDone"
  shows "\<exists>q' c'. client_step ops q c q' c'"
proof (cases c)
  case (CInsert j)
  show ?thesis
  proof (cases "q_store q")
    case None
    with CInsert show ?thesis by (blast intro: client_step.memory)
  next
    case (Some s)
    obtain r s' where r: "so_insert ops s j (jb_key j) = (r, s')" by (cases "so_insert ops s j (jb_key j)")
    show ?thesis
    proof (cases r)
      case (Inl e)
      with r Some CInsert show ?thesis by (blast intro: client_step.failed)
    next
      case (Inr kb)
      then obtain m b where m: "so_insert ops s j (jb_key j) = (Inr (m, b), s')" using r by (cases kb) simp
      show ?thesis
      proof (cases b)
        case True
        with client_step.created[OF Some] m CInsert show ?thesis by fastforce
      next
        case False
        with client_step.duplicate[OF Some] m CInsert show ?thesis by fastforce
      qed
    qed
  qed
next
  case (CRequeue p)
  then show ?thesis
    by (cases "push_backlog p q"; cases "fst (push_backlog p q)")
       (auto intro: client_step.requeue client_step.refused)
next
  case (CTrack j)
  obtain p q' where "new_object j q = (p, q')" by fastforce
  with CTrack show ?thesis by (blast intro: client_step.track)
next
  case (CFound j)
  obtain p q' where "new_object j q = (p, q')" by fastforce
  with CFound show ?thesis by (blast intro: client_step.found)
qed (use assms in \<open>auto simp: new_object_def intro: client_step.intros\<close>)

lemma worker_can:
  assumes "w \<noteq> WIdle" "w \<noteq> WGone"
  shows "\<exists>q' w'. worker_step ops tools q w q' w'"
proof (cases w)
  case (WTaken p)
  show ?thesis
  proof (cases "tools (jb_tool (q_heap q p))")
    case None
    with WTaken show ?thesis by (blast intro: worker_step.no_tool)
  next
    case (Some t)
    obtain r q' where r: "begin_attempt p (GTime 1 1 1 0 0 0 0) q = (r, q')" by fastforce
    show ?thesis
    proof (cases r)
      case None
      with r Some WTaken show ?thesis by (blast intro: worker_step.start_canceled)
    next
      case (Some x)
      then obtain ctx cp where "r = Some (ctx, cp)" by (cases x) simp
      with r \<open>tools (jb_tool (q_heap q p)) = Some t\<close> WTaken show ?thesis by (blast intro: worker_step.start)
    qed
  qed
next
  case (WRun p ctx)
  obtain c q' where "end_attempt p q = (c, q')" by fastforce
  with WRun show ?thesis by (blast intro: worker_step.ran)
next
  case (WJudge p outcome)
  show ?thesis
  proof (cases "judge outcome (q_heap q p)")
    case (VFinish res err)
    with WJudge show ?thesis by (blast intro: worker_step.verdict)
  next
    case (VRetry msg)
    obtain cp q' where "mark_retry p msg q = (cp, q')" by fastforce
    with VRetry WJudge show ?thesis by (blast intro: worker_step.again)
  qed
next
  case (WRequeue p msg)
  obtain r q' where r: "push_backlog p q = (r, q')" by fastforce
  with WRequeue show ?thesis by (cases r) (blast intro: worker_step.requeue worker_step.refused)+
next
  case (WFinish p res err)
  obtain cp q' where "finish p res err (GTime 1 1 1 0 0 0 0) q = (cp, q')" by fastforce
  with WFinish show ?thesis by (blast intro: worker_step.finish)
next
  case (WFinishC p)
  obtain cp q' where "finish_canceled p (GTime 1 1 1 0 0 0 0) q = (cp, q')" by fastforce
  with WFinishC show ?thesis by (blast intro: worker_step.finish_canceled)
qed (use assms in \<open>auto intro: worker_step.save worker_step.save_retry worker_step.wake worker_step.signal worker_step.save_last\<close>)

definition at_rest :: "'s desk_state \<Rightarrow> bool" where
  "at_rest s \<longleftrightarrow> q_pending (ds_queue s) = [] \<and> q_ch (ds_queue s) = [] \<and> ds_disp s = DWait
     \<and> set (ds_workers s) = {WIdle} \<and> set (ds_clients s) \<subseteq> {CDone} \<and> ds_resume s = []"

text \<open>A desk without a step: no call can go on, no worker has anything to do, and the dispatcher waits.\<close>

lemma stuck_clients:
  assumes "\<And>s'. \<not> work_step ops tools s s'"
  shows "set (ds_clients s) \<subseteq> {CDone}" "ds_resume s = []"
proof -
  have "c = CDone" if "c \<in> set (ds_clients s)" for c
  proof (rule ccontr)
    assume "c \<noteq> CDone"
    then obtain q' c' where "client_step ops (ds_queue s) c q' c'" using client_can by blast
    moreover obtain cs es where "ds_clients s = cs @ c # es"
      using split_list[OF \<open>c \<in> set (ds_clients s)\<close>] by blast
    ultimately show False using assms work_step.client by blast
  qed
  then show "set (ds_clients s) \<subseteq> {CDone}" by blast
  show "ds_resume s = []"
  proof (cases "ds_resume s")
    case (Cons j js)
    obtain p q' where "new_object (j\<lparr>jb_status := Queued\<rparr>) (ds_queue s) = (p, q')" by fastforce
    from work_step.resume[OF Cons this] assms show ?thesis by blast
  qed
qed

lemma stuck_workers:
  assumes "\<And>s'. \<not> work_step ops tools s s'" "\<not> q_stopped (ds_queue s)" "wake_inv s"
    and "w \<in> set (ds_workers s)"
  shows "w = WIdle" "q_ch (ds_queue s) = []"
proof -
  have no: "\<not> worker_step ops tools (ds_queue s) w q' w'" for q' w'
    using assms(1,4) work_step.worker by (blast dest: split_list)
  then show idle: "w = WIdle" using worker_can[of w ops tools "ds_queue s"] assms(2-4) by (auto simp: wake_inv_def)
  show "q_ch (ds_queue s) = []"
  proof (cases "q_ch (ds_queue s)")
    case (Cons p ps)
    then have "worker_receive (ds_queue s) = Some (p, (ds_queue s)\<lparr>q_ch := ps\<rparr>)" by (simp add: worker_receive_def)
    with no idle show ?thesis by (blast intro: worker_step.receive)
  qed
qed

lemma stuck_dispatcher:
  assumes "\<And>s'. \<not> work_step ops tools s s'" "\<not> q_stopped (ds_queue s)" "wake_inv s" "q_ch (ds_queue s) = []"
  shows "ds_disp s = DWait" "\<not> q_wake (ds_queue s)"
proof -
  let ?q = "ds_queue s"
  have no: "\<not> dispatcher_step ?q (ds_disp s) q' d'" for q' d' using assms(1) work_step.dispatcher by blast
  show wait: "ds_disp s = DWait"
  proof (cases "ds_disp s")
    case DIdle
    obtain r q' where r: "dispatch_take ?q = (r, q')" by fastforce
    with no DIdle show ?thesis by (cases r) (auto intro: dispatcher_step.take dispatcher_step.park)
  next
    case (DHand p)
    have "dispatch_send p ?q = Some (?q\<lparr>q_ch := q_ch ?q @ [p]\<rparr>)"
      by (simp add: dispatch_send_def assms(4) ch_capacity_def)
    with no DHand show ?thesis by (auto intro: dispatcher_step.hand)
  next
    case DGone
    with assms(2,3) show ?thesis by (simp add: wake_inv_def)
  qed simp
  show "\<not> q_wake ?q"
  proof
    assume "q_wake ?q"
    then have "take_wake ?q = Some (?q\<lparr>q_wake := False\<rparr>)" by (simp add: take_wake_def)
    with no wait show False by (auto intro: dispatcher_step.woken)
  qed
qed

lemma stuck_at_rest:
  assumes "reachable ops tools n m s" "\<not> q_stopped (ds_queue s)" "\<And>s'. \<not> work_step ops tools s s'"
  shows "at_rest s"
proof -
  note wk = reachable_wake[OF assms(1)] and cl = stuck_clients[OF assms(3)]
  note workers = stuck_workers[OF assms(3,2) wk]
  have "ds_workers s \<noteq> []"
    using reachable_load[OF assms(1)] by (auto simp: load_inv_def worker_count_def split: if_splits)
  then obtain w where w: "w \<in> set (ds_workers s)" by (meson last_in_set)
  note disp = stuck_dispatcher[OF assms(3,2) wk workers(2)[OF w]]
  have "q_pending (ds_queue s) = []" using wk disp workers(1) cl(1) by (auto simp: wake_inv_def)
  moreover have "set (ds_workers s) = {WIdle}" using workers(1) w by blast
  ultimately show ?thesis unfolding at_rest_def using disp(1) workers(2)[OF w] cl by (intro conjI)
qed

lemma rest_holds_nothing:
  assumes "at_rest s"
  shows "owners s = {#}"
proof -
  have "w_ptr w = []" if "w \<in> set (ds_workers s)" for w
    using assms that unfolding at_rest_def by simp
  moreover have "c_ptr c = []" if "c \<in> set (ds_clients s)" for c
    using assms that unfolding at_rest_def by fastforce
  ultimately have "concat (map w_ptr (ds_workers s)) = []" "concat (map c_ptr (ds_clients s)) = []" by simp_all
  then show ?thesis using assms unfolding at_rest_def owners_def by (simp only: d_ptr.simps) simp
qed

subsection \<open>Bounded runs\<close>

lemma measured_bound:
  fixes m :: "'a \<Rightarrow> nat"
  assumes "\<And>x y. P x \<Longrightarrow> R x y \<Longrightarrow> P y \<and> m y < m x" "P x" "(R ^^ i) x y"
  shows "P y \<and> i + m y \<le> m x"
  using assms(3)
proof (induction i arbitrary: y)
  case (Suc i)
  then obtain z where z: "(R ^^ i) x z" "R z y" by auto
  from Suc.IH[OF z(1)] assms(1)[OF _ z(2)] show ?case by linarith
qed (use assms(2) in simp)

lemma bounded_stops:
  assumes "\<And>i y. (R ^^ i) x y \<Longrightarrow> i \<le> b"
  shows "\<exists>y. R\<^sup>*\<^sup>* x y \<and> (\<forall>z. \<not> R y z)"
proof (rule ccontr)
  assume "\<not> ?thesis"
  then have go: "\<exists>z. R y z" if "R\<^sup>*\<^sup>* x y" for y using that by blast
  have "\<exists>y. (R ^^ i) x y" for i
  proof (induction i)
    case (Suc i)
    then obtain y where "(R ^^ i) x y" by blast
    moreover from this have "R\<^sup>*\<^sup>* x y" by (rule relpowp_imp_rtranclp)
    ultimately show ?case using go by (meson relpowp_Suc_I)
  qed simp
  then obtain y where "(R ^^ Suc b) x y" by blast
  from assms[OF this] show False by simp
qed

context live_desk
begin

lemma work_bounded:
  assumes "reachable ops tools n m s"
  shows "\<exists>b. \<forall>i s'. (work_step ops tools ^^ i) s s' \<longrightarrow> i \<le> b"
proof -
  obtain k where k: "life_inv k s" using reachable_life[OF assms] by blast
  have "reachable ops tools n m t' \<and> life_inv k t' \<and> desk_wt k t' < desk_wt k t"
    if "reachable ops tools n m t \<and> life_inv k t" "work_step ops tools t t'" for t t'
    using that reachable.step[OF _ work_step_desk] life_inv_step[OF work_step_desk] work_step_wt reachable_inv
    by metis
  then have "i + desk_wt k s' \<le> desk_wt k s" if "(work_step ops tools ^^ i) s s'" for i s'
    using measured_bound[where P = "\<lambda>t. reachable ops tools n m t \<and> life_inv k t" and m = "desk_wt k"
        and R = "work_step ops tools", OF _ conjI[OF assms k] that] by blast
  then show ?thesis by (intro exI[of _ "desk_wt k s"]) (metis add_leD1)
qed

lemma work_reachable:
  assumes "(work_step ops tools)\<^sup>*\<^sup>* s s'" "reachable ops tools n m s"
  shows "reachable ops tools n m s' \<and> q_stopped (ds_queue s') = q_stopped (ds_queue s)"
  using assms
proof (induction rule: rtranclp_induct)
  case (step t t')
  then show ?case using reachable.step[OF _ work_step_desk[OF step.hyps(2)]] work_step_stopped[OF step.hyps(2)] by blast
qed simp

lemma rest_settled:
  assumes "reachable ops tools n m s" "\<not> q_stopped (ds_queue s)" "at_rest s" "p \<in> set (ds_accepted s)"
  shows "is_terminal (jb_status (q_heap (ds_queue s) p))"
  using reachable_inv[OF assms(1)] rest_holds_nothing[OF assms(3)] assms(2,4) by (auto simp: desk_inv_def)

end

subsection \<open>Properties\<close>

text \<open>
  C7: The desk settles. From every reachable state that is not stopped the goroutines, without new
  calls, take a bounded number of steps, whatever the interleaving, so they come to rest; and
  wherever they do, the backlog, the channel and the hands are empty, the dispatcher waits for a
  wake and the workers for a job, every call has returned, the recovery is through, and every
  accepted job is done, failed or canceled.
\<close>

theorem desk_settles:
  assumes "reachable sqlite_ops tools n m s" "\<not> q_stopped (ds_queue s)"
  shows "(\<exists>b. \<forall>i s'. (work_step sqlite_ops tools ^^ i) s s' \<longrightarrow> i \<le> b)
    \<and> (\<exists>s'. (work_step sqlite_ops tools)\<^sup>*\<^sup>* s s' \<and> at_rest s')
    \<and> (\<forall>s'. (work_step sqlite_ops tools)\<^sup>*\<^sup>* s s' \<and> (\<forall>s''. \<not> work_step sqlite_ops tools s' s'') \<longrightarrow>
          at_rest s' \<and> owners s' = {#}
        \<and> (\<forall>p\<in>set (ds_accepted s'). is_terminal (jb_status (q_heap (ds_queue s') p))))"
proof -
  have rest: "at_rest s' \<and> owners s' = {#}
      \<and> (\<forall>p\<in>set (ds_accepted s'). is_terminal (jb_status (q_heap (ds_queue s') p)))"
    if w: "(work_step sqlite_ops tools)\<^sup>*\<^sup>* s s'" and stuck: "\<And>s''. \<not> work_step sqlite_ops tools s' s''" for s'
  proof -
    from ld.work_reachable[OF w assms(1)] assms(2)
    have r: "reachable sqlite_ops tools n m s'" "\<not> q_stopped (ds_queue s')" by simp_all
    from stuck_at_rest[OF r stuck] have "at_rest s'" .
    with rest_holds_nothing ld.rest_settled[OF r] show ?thesis by blast
  qed
  obtain b where b: "\<forall>i s'. (work_step sqlite_ops tools ^^ i) s s' \<longrightarrow> i \<le> b"
    using ld.work_bounded[OF assms(1)] by blast
  then obtain s' where "(work_step sqlite_ops tools)\<^sup>*\<^sup>* s s'" "\<forall>s''. \<not> work_step sqlite_ops tools s' s''"
    using bounded_stops[of "work_step sqlite_ops tools" s b] by blast
  with rest b show ?thesis by blast
qed

lemma desk_settles_witness:
  "\<exists>s'. (work_step sqlite_ops (\<lambda>n. None))\<^sup>*\<^sup>*
      (desk1 (held_queue first_job) DIdle (WTaken 0) [CDone] [0] {jb_id first_job}) s' \<and> at_rest s'"
proof -
  have "\<not> q_stopped (ds_queue (desk1 (held_queue first_job :: sqlite_db queue) DIdle (WTaken 0) [CDone] [0] {jb_id first_job}))"
    by (simp add: desk1_def held_queue_def new_queue_def)
  from desk_settles[OF reach_taken this] show ?thesis by blast
qed

end
