(* ===== verification/Capped.thy ===== *)
theory Capped
  imports Go_Strings
begin

text \<open>
  What the program promises of a buffer with a limit, which it has twice: \<^verbatim>\<open>cappedBuffer\<close> in
  \<^verbatim>\<open>cmd/agent-desk/executor.go\<close> and \<^verbatim>\<open>capWriter\<close> in \<^verbatim>\<open>cmd/tcs-shim/main.go\<close>. A write always
  reports success for all its bytes; the buffer keeps the first bytes up to its limit and
  remembers whether any were dropped. The lemmas are proved once from the law of one write and
  hold for both implementations.
\<close>

locale capped_sink =
  fixes put :: "string \<Rightarrow> 'b \<Rightarrow> nat \<times> 'b"
    and content :: "'b \<Rightarrow> string"
    and limit :: "'b \<Rightarrow> nat"
    and over :: "'b \<Rightarrow> bool"
  assumes put_ok: "length (content b) \<le> limit b \<Longrightarrow> over b \<longrightarrow> length (content b) = limit b \<Longrightarrow>
      put p b = (n, b') \<Longrightarrow>
      n = length p \<and> limit b' = limit b \<and> content b' = take (limit b) (content b @ p)
      \<and> (over b' \<longleftrightarrow> over b \<or> limit b < length (content b) + length p)"
begin

definition sound :: "'b \<Rightarrow> bool" where
  "sound b \<longleftrightarrow> length (content b) \<le> limit b \<and> (over b \<longrightarrow> length (content b) = limit b)"

lemma put_sound:
  assumes "sound b"
  shows "sound (snd (put p b)) \<and> fst (put p b) = length p \<and> limit (snd (put p b)) = limit b
    \<and> content (snd (put p b)) = take (limit b) (content b @ p)
    \<and> (over (snd (put p b)) \<longleftrightarrow> over b \<or> limit b < length (content b) + length p)"
  using put_ok[of b p "fst (put p b)" "snd (put p b)"] assms by (auto simp: sound_def)

text \<open>Any sequence of writes to a fresh buffer.\<close>

lemma puts_content:
  assumes "sound b" "\<not> over b"
  shows "content (foldl (\<lambda>b p. snd (put p b)) b ps) = take (limit b) (content b @ concat ps)
    \<and> limit (foldl (\<lambda>b p. snd (put p b)) b ps) = limit b
    \<and> (over (foldl (\<lambda>b p. snd (put p b)) b ps) \<longleftrightarrow> limit b < length (content b @ concat ps))
    \<and> sound (foldl (\<lambda>b p. snd (put p b)) b ps)"
proof (induction ps rule: rev_induct)
  case Nil
  from assms show ?case by (simp add: sound_def)
next
  case (snoc p ps)
  let ?b = "foldl (\<lambda>b p. snd (put p b)) b ps"
  from snoc have ih: "content ?b = take (limit b) (content b @ concat ps)" "limit ?b = limit b"
    "over ?b \<longleftrightarrow> limit b < length (content b @ concat ps)" "sound ?b" by blast+
  from put_sound[OF ih(4), of p] ih show ?case
    by (auto simp: min_def take_append)
qed

end

end
