(* ===== verification/Settings.thy ===== *)
theory Settings
  imports Go_Paths
begin

text \<open>
  How a desk is configured: \<^verbatim>\<open>cmd/agent-desk/settings.go\<close> (the \<^verbatim>\<open>.env\<close> file and the
  environment variables), \<^verbatim>\<open>config.go\<close> (the store section of \<^verbatim>\<open>deskbox.yaml\<close>) and the
  choice of the store in \<^verbatim>\<open>main.go\<close>. The process environment is a function from names to
  values; the YAML decoder is an argument.
\<close>

subsection \<open>The environment\<close>

type_synonym environ = "string \<Rightarrow> string option"

definition getenv :: "environ \<Rightarrow> string \<Rightarrow> string" where
  "getenv e k = (case e k of None \<Rightarrow> [] | Some v \<Rightarrow> v)"

text \<open>
  \<^verbatim>\<open>os.Setenv\<close> refuses an empty name, a name with an equals sign or a NUL byte and a value with
  a NUL byte; the program ignores the error.
\<close>

definition settable :: "string \<Rightarrow> string \<Rightarrow> bool" where
  "settable k v \<longleftrightarrow> k \<noteq> [] \<and> CHR ''='' \<notin> set k \<and> CHR 0x00 \<notin> set k \<and> CHR 0x00 \<notin> set v"

definition setenv :: "string \<Rightarrow> string \<Rightarrow> environ \<Rightarrow> environ" where
  "setenv k v e = (if settable k v then e(k \<mapsto> v) else e)"

subsection \<open>The dotenv file\<close>

text \<open>
  \<^verbatim>\<open>bufio.Scanner\<close>: the lines of the file without their line ends (a final carriage return is
  dropped too) up to the first that does not fit its 64 KiB buffer, at which it stops with an
  error.
\<close>

definition max_token :: nat where
  "max_token = 65536"

definition drop_cr :: "string \<Rightarrow> string" where
  "drop_cr l = (if l \<noteq> [] \<and> last l = CHR 0x0D then butlast l else l)"

definition raw_lines :: "string \<Rightarrow> string list" where
  "raw_lines s = (let ls = split_on (CHR 0x0A) s in if last ls = [] then butlast ls else ls)"

definition scan_lines :: "string \<Rightarrow> string list \<times> bool" where
  "scan_lines s =
     (let ls = raw_lines s; fits = takeWhile (\<lambda>l. length l < max_token) ls
      in (map drop_cr fits, length fits < length ls))"

definition dotenv_pair :: "string \<Rightarrow> (string \<times> string) option" where
  "dotenv_pair raw =
     (let line = trim_space raw in
      if line = [] \<or> has_prefix line ''#'' then None
      else (case cut_char line (CHR ''='') of
              None \<Rightarrow> None
            | Some (k, v) \<Rightarrow>
                Some (trim_space k, trim_by (\<lambda>c. c = CHR 0x22 \<or> c = CHR 0x27) (trim_space v))))"

definition dotenv_line :: "string \<Rightarrow> environ \<Rightarrow> environ" where
  "dotenv_line raw e =
     (case dotenv_pair raw of
        None \<Rightarrow> e
      | Some (k, v) \<Rightarrow> if e k = None then setenv k v e else e)"

datatype file_read = FileMissing | FileError | FileText string

datatype dotenv_error = DotenvUnreadable | DotenvLineTooLong

definition load_dotenv :: "file_read \<Rightarrow> environ \<Rightarrow> dotenv_error option \<times> environ" where
  "load_dotenv f e =
     (case f of
        FileMissing \<Rightarrow> (None, e)
      | FileError \<Rightarrow> (Some DotenvUnreadable, e)
      | FileText s \<Rightarrow>
          (case scan_lines s of
             (ls, too_long) \<Rightarrow>
               (if too_long then Some DotenvLineTooLong else None, foldl (\<lambda>e l. dotenv_line l e) e ls)))"

subsection \<open>Settings\<close>

record settings =
  se_auth_enabled :: bool
  se_auth_token :: string
  se_strict :: bool
  se_listen_addr :: string
  se_store_kind :: string
  se_sqlite_path :: string
  se_postgres_dsn :: string
  se_job_memory_max :: string
  se_job_tasks_max :: int

datatype settings_error = BadBoolean string string | BadTasksMax string

definition bool_var :: "environ \<Rightarrow> string \<Rightarrow> (settings_error, bool) result" where
  "bool_var e name =
     (let v = getenv e name in
      if v = [] then Inr False
      else (case parse_bool v of None \<Rightarrow> Inl (BadBoolean name v) | Some b \<Rightarrow> Inr b))"

definition tasks_max :: "environ \<Rightarrow> (settings_error, int) result" where
  "tasks_max e =
     (let v = getenv e ''DESKBOX_JOB_TASKS_MAX'' in
      if v = [] then Inr 64
      else (case atoi v of
              None \<Rightarrow> Inl (BadTasksMax v)
            | Some n \<Rightarrow> if n \<le> 0 then Inl (BadTasksMax v) else Inr n))"

definition memory_max :: "environ \<Rightarrow> string" where
  "memory_max e = (let v = getenv e ''DESKBOX_JOB_MEMORY_MAX'' in if v = [] then ''512M'' else v)"

definition load_settings :: "environ \<Rightarrow> (settings_error, settings) result" where
  "load_settings e =
     (case bool_var e ''DESKBOX_AUTH_ENABLED'' of
        Inl x \<Rightarrow> Inl x
      | Inr auth \<Rightarrow>
          (case bool_var e ''DESKBOX_STRICT'' of
             Inl x \<Rightarrow> Inl x
           | Inr strict \<Rightarrow>
               (case tasks_max e of
                  Inl x \<Rightarrow> Inl x
                | Inr n \<Rightarrow>
                    Inr \<lparr>se_auth_enabled = auth, se_auth_token = getenv e ''DESKBOX_AUTH_TOKEN'',
                         se_strict = strict, se_listen_addr = [],
                         se_store_kind = getenv e ''DESKBOX_STORE'',
                         se_sqlite_path = getenv e ''DESKBOX_SQLITE_PATH'',
                         se_postgres_dsn = getenv e ''DESKBOX_POSTGRES_DSN'',
                         se_job_memory_max = memory_max e, se_job_tasks_max = n\<rparr>)))"

subsection \<open>The structural configuration and the choice of the store\<close>

record config =
  cf_store_kind :: string
  cf_sqlite_path :: string

datatype config_error = ConfigUnreadable | ConfigInvalid

definition load_config :: "(string \<Rightarrow> config option) \<Rightarrow> file_read \<Rightarrow> (config_error, config) result" where
  "load_config yaml f =
     (case f of
        FileMissing \<Rightarrow> Inr \<lparr>cf_store_kind = [], cf_sqlite_path = []\<rparr>
      | FileError \<Rightarrow> Inl ConfigUnreadable
      | FileText s \<Rightarrow> (case yaml s of None \<Rightarrow> Inl ConfigInvalid | Some c \<Rightarrow> Inr c))"

text \<open>The defaults of the \<^verbatim>\<open>-store\<close> and \<^verbatim>\<open>-sqlite-path\<close> flags; a flag given wins over them.\<close>

definition store_kind_default :: "settings \<Rightarrow> config \<Rightarrow> string" where
  "store_kind_default s c =
     (let k = se_store_kind s; k = (if k = [] then cf_store_kind c else k)
      in if k = [] then ''sqlite'' else k)"

definition sqlite_path_default :: "settings \<Rightarrow> config \<Rightarrow> string" where
  "sqlite_path_default s c = (if se_sqlite_path s = [] then cf_sqlite_path c else se_sqlite_path s)"

definition flag_value :: "'a option \<Rightarrow> 'a \<Rightarrow> 'a" where
  "flag_value given dflt = (case given of None \<Rightarrow> dflt | Some v \<Rightarrow> v)"

datatype store_choice = MemoryStore | PostgresStore string | SqliteStore string

datatype store_choice_error = NoPostgresDSN | UnknownStore string

definition choose_store ::
    "string \<Rightarrow> string \<Rightarrow> string \<Rightarrow> string \<Rightarrow> (store_choice_error, store_choice) result" where
  "choose_store kind sqlite_path dsn data_dir =
     (let k = to_lower kind in
      if k = ''memory'' then Inr MemoryStore
      else if k = ''postgres'' then (if dsn = [] then Inl NoPostgresDSN else Inr (PostgresStore dsn))
      else if k = ''sqlite'' \<or> k = [] then
        Inr (SqliteStore (if sqlite_path = [] then join_path [data_dir, ''deskbox.db''] else sqlite_path))
      else Inl (UnknownStore kind))"

text \<open>\<^verbatim>\<open>defaultDataDir\<close>; \<open>None\<close> is a failing \<^verbatim>\<open>os.UserHomeDir\<close>.\<close>

definition default_data_dir :: "string option \<Rightarrow> string \<Rightarrow> string" where
  "default_data_dir home tmp =
     (case home of
        None \<Rightarrow> join_path [tmp, ''deskbox-data'']
      | Some h \<Rightarrow> join_path [h, ''.local'', ''share'', ''deskbox''])"

subsection \<open>What a dotenv file does\<close>

text \<open>The assignments of a file, in order: those of its readable lines that can be set.\<close>

definition dotenv_pairs :: "string list \<Rightarrow> (string \<times> string) list" where
  "dotenv_pairs ls = filter (\<lambda>(k, v). settable k v) (List.map_filter dotenv_pair ls)"

lemma dotenv_pairs_Cons:
  "dotenv_pairs (l # ls) =
     (case dotenv_pair l of
        None \<Rightarrow> dotenv_pairs ls
      | Some (k, v) \<Rightarrow> if settable k v then (k, v) # dotenv_pairs ls else dotenv_pairs ls)"
  by (simp add: dotenv_pairs_def map_filter_simps split: option.split prod.split)

lemma dotenv_lines_env:
  "foldl (\<lambda>e l. dotenv_line l e) e ls k = (case e k of None \<Rightarrow> map_of (dotenv_pairs ls) k | Some v \<Rightarrow> Some v)"
proof (induction ls arbitrary: e)
  case Nil
  show ?case by (simp add: dotenv_pairs_def map_filter_simps split: option.split)
next
  case (Cons l ls)
  have "dotenv_line l e k = (case e k of Some v \<Rightarrow> Some v
      | None \<Rightarrow> (case dotenv_pair l of None \<Rightarrow> None
                | Some (a, v) \<Rightarrow> if settable a v \<and> a = k then Some v else None))"
    by (cases "dotenv_pair l") (auto simp: dotenv_line_def setenv_def split: option.split)
  then show ?case
    unfolding foldl.simps Cons.IH
    by (cases "dotenv_pair l"; cases "e k") (auto simp: dotenv_pairs_Cons)
qed

text \<open>
  What loading a \<^verbatim>\<open>.env\<close> file does to the environment, against its reference meaning: a
  variable that was set keeps its value, whatever the file says; any other takes the value of
  the first line that assigns it; all else stays unset. A missing or unreadable file changes
  nothing.
\<close>

theorem load_dotenv_first_wins:
  "snd (load_dotenv f e) k =
     (case e k of
        Some v \<Rightarrow> Some v
      | None \<Rightarrow> (case f of FileText s \<Rightarrow> map_of (dotenv_pairs (fst (scan_lines s))) k | _ \<Rightarrow> None))"
  by (cases f) (auto simp: load_dotenv_def dotenv_lines_env split: prod.split option.split)

text \<open>
  Strictness set in the environment cannot be dropped by the \<^verbatim>\<open>.env\<close> file: when the
  process was started with \<^verbatim>\<open>DESKBOX_STRICT\<close> true, the settings loaded after any file are
  strict or there are none.
\<close>

theorem environment_strict_wins:
  assumes "e ''DESKBOX_STRICT'' = Some v" "parse_bool v = Some True"
    and "load_settings (snd (load_dotenv f e)) = Inr s"
  shows "se_strict s"
proof -
  have "v \<noteq> []" using assms(2) by (auto simp: parse_bool_def)
  moreover have "snd (load_dotenv f e) ''DESKBOX_STRICT'' = Some v"
    using assms(1) by (cases f) (simp_all add: load_dotenv_def dotenv_lines_env split: prod.split)
  ultimately have "bool_var (snd (load_dotenv f e)) ''DESKBOX_STRICT'' = Inr True"
    using assms(2) by (simp add: bool_var_def getenv_def)
  with assms(3) show ?thesis by (auto simp: load_settings_def split: sum.splits)
qed

lemma environment_strict_wins_witness:
  "\<exists>s. load_settings (snd (load_dotenv (FileText ''DESKBOX_STRICT=0'')
          (\<lambda>k. if k = ''DESKBOX_STRICT'' then Some ''1'' else None))) = Inr s \<and> se_strict s"
proof -
  let ?e = "\<lambda>k. if k = ''DESKBOX_STRICT'' then Some ''1'' else None"
  let ?f = "FileText ''DESKBOX_STRICT=0''"
  have "raw_lines ''DESKBOX_STRICT=0'' = [''DESKBOX_STRICT=0'']" by code_simp
  then have "scan_lines ''DESKBOX_STRICT=0'' = ([''DESKBOX_STRICT=0''], False)"
    by (simp add: scan_lines_def max_token_def drop_cr_def)
  moreover have "dotenv_pair ''DESKBOX_STRICT=0'' = Some (''DESKBOX_STRICT'', ''0'')"
    by code_simp
  ultimately have l: "snd (load_dotenv ?f ?e) = ?e"
    by (simp add: load_dotenv_def dotenv_line_def)
  have p: "parse_bool ''1'' = Some True" by code_simp
  have "\<exists>s. load_settings ?e = Inr s"
    using p by (simp add: load_settings_def bool_var_def tasks_max_def getenv_def)
  then obtain s where s: "load_settings (snd (load_dotenv ?f ?e)) = Inr s" using l by auto
  have "se_strict s"
    by (rule environment_strict_wins[OF _ p s]) simp
  with s show ?thesis by blast
qed

end
