(* ===== verification/Executor.thy ===== *)
theory Executor
  imports Integrity Queue Capped Settings
begin

text \<open>
  Running one job, \<^verbatim>\<open>cmd/agent-desk/executor.go\<close>: the bubblewrap command line, the caps on
  what a tool hands back, the audit of its output directory and \<^verbatim>\<open>Execute\<close> itself, from the
  enforcement checks to the schema gate on the result.

  What the operating system and the libraries do is in a record \<open>exec_env\<close> of the answers of
  one execution: the file system before and after the run, program look-ups, the outcome of
  each directory and file creation, the run of the command, JSON decoding. The atomic flag for
  the resource limits may change between its reads, so each read has its own value there.
\<close>

subsection \<open>Capped output\<close>

definition max_tool_output :: nat where
  "max_tool_output = 32 * 2 ^ 20"

definition max_tool_stderr :: nat where
  "max_tool_stderr = 64 * 2 ^ 10"

record capped_buffer =
  cb_buf :: string
  cb_max :: nat
  cb_overflow :: bool

definition new_capped :: "nat \<Rightarrow> capped_buffer" where
  "new_capped n = \<lparr>cb_buf = [], cb_max = n, cb_overflow = False\<rparr>"

definition capped_write :: "string \<Rightarrow> capped_buffer \<Rightarrow> nat \<times> capped_buffer" where
  "capped_write p b =
     (length p,
      if cb_overflow b then b
      else let remaining = int (cb_max b) - int (length (cb_buf b)) in
        if int (length p) > remaining
        then b\<lparr>cb_buf := cb_buf b @ take (nat remaining) p, cb_overflow := True\<rparr>
        else b\<lparr>cb_buf := cb_buf b @ p\<rparr>)"

interpretation cb: capped_sink capped_write cb_buf cb_max cb_overflow
  by unfold_locales (auto simp: capped_write_def Let_def nat_diff_distrib split: if_splits)

definition capture :: "nat \<Rightarrow> string list \<Rightarrow> capped_buffer" where
  "capture n ps = foldl (\<lambda>b p. snd (capped_write p b)) (new_capped n) ps"

lemma capture_content:
  "cb_buf (capture n ps) = take n (concat ps) \<and> (cb_overflow (capture n ps) \<longleftrightarrow> n < length (concat ps))"
  using cb.puts_content[of "new_capped n" ps] by (simp add: capture_def new_capped_def cb.sound_def)

definition truncate_str :: "string \<Rightarrow> nat \<Rightarrow> string" where
  "truncate_str s n = (if length s \<le> n then s else take n s @ ''...'')"

subsection \<open>Paths of a contract\<close>

definition path_traverses :: "string \<Rightarrow> bool" where
  "path_traverses p \<longleftrightarrow> p = [] \<or> is_abs p \<or> contains p ''..''"

definition declared_in :: "tool \<Rightarrow> string list" where
  "declared_in t = (if sb_in (tl_sandbox t) = [] then [''input.json''] else sb_in (tl_sandbox t))"

subsection \<open>Failures\<close>

datatype exec_fail =
    EnforceLimits
  | EnforceSeccomp string
  | EnforceSandbox string
  | IntegrityFail integrity_error
  | WorkspaceFail string
  | EncodeInputFail string
  | WriteInputFail string
  | ReadEscapes string
  | ExecCanceled string
  | ExecTimeout string
  | ExitedWithError string
  | UnexpectedWrites "string list"
  | OutNotRegular string
  | OutTooLarge string nat
  | OutNotProduced "string list"
  | OutFileNotJson string
  | StdoutTooLarge
  | StdoutEmpty
  | StdoutNotJson string
  | OutputViolation "violation list"

text \<open>The sentinel error each failure wraps.\<close>

fun fail_kind :: "exec_fail \<Rightarrow> exec_kind" where
  "fail_kind EnforceLimits = ErrEnforcement"
| "fail_kind (EnforceSeccomp e) = ErrEnforcement"
| "fail_kind (EnforceSandbox e) = ErrEnforcement"
| "fail_kind (IntegrityFail e) = ErrIntegrity"
| "fail_kind (WorkspaceFail e) = ErrTool"
| "fail_kind (EncodeInputFail e) = ErrTool"
| "fail_kind (WriteInputFail e) = ErrTool"
| "fail_kind (ReadEscapes f) = ErrContract"
| "fail_kind (ExecCanceled e) = ErrTool"
| "fail_kind (ExecTimeout e) = ErrTool"
| "fail_kind (ExitedWithError m) = ErrTool"
| "fail_kind (UnexpectedWrites ps) = ErrContract"
| "fail_kind (OutNotRegular f) = ErrContract"
| "fail_kind (OutTooLarge f n) = ErrContract"
| "fail_kind (OutNotProduced fs) = ErrContract"
| "fail_kind (OutFileNotJson e) = ErrContract"
| "fail_kind StdoutTooLarge = ErrContract"
| "fail_kind StdoutEmpty = ErrContract"
| "fail_kind (StdoutNotJson e) = ErrContract"
| "fail_kind (OutputViolation vs) = ErrContract"

subsection \<open>The sandbox command line\<close>

text \<open>\<open>has\<close> and \<open>has_link\<close> say whether \<^verbatim>\<open>os.Stat\<close> and \<^verbatim>\<open>os.Lstat\<close> find a path.\<close>

definition base_binds :: "string list" where
  "base_binds = [''/usr'', ''/bin'', ''/sbin'', ''/lib'', ''/lib64'', ''/etc/passwd'', ''/etc/group'',
     ''/etc/hosts'', ''/etc/nsswitch.conf'', ''/etc/ld.so.cache'']"

definition network_binds :: "string list" where
  "network_binds = [''/etc/resolv.conf'', ''/etc/ssl'', ''/etc/pki'', ''/etc/crypto-policies'',
     ''/run/systemd/resolve'']"

definition ro_bind :: "string \<Rightarrow> string \<Rightarrow> string list" where
  "ro_bind src dst = [''--ro-bind'', src, dst]"

definition setenv_args :: "string list \<Rightarrow> string list" where
  "setenv_args kvs = concat (map (\<lambda>kv. case cut_char kv (CHR ''='') of
     None \<Rightarrow> [] | Some (k, v) \<Rightarrow> [''--setenv'', k, v]) kvs)"

fun input_binds :: "string \<Rightarrow> string list \<Rightarrow> (exec_fail, string list) result" where
  "input_binds in_dir [] = Inr []"
| "input_binds in_dir (f # fs) =
     (if path_traverses f then Inl (ReadEscapes f)
      else case input_binds in_dir fs of
             Inl e \<Rightarrow> Inl e
           | Inr bs \<Rightarrow>
               Inr (ro_bind (join_path [in_dir, clean f]) (join_path [''/deskbox/in'', clean f]) @ bs))"

definition sandbox_args ::
    "os_env \<Rightarrow> string \<Rightarrow> tool \<Rightarrow> string \<Rightarrow> string \<Rightarrow> string \<Rightarrow> string list \<Rightarrow> (exec_fail, string list) result" where
  "sandbox_args env bw t in_dir out_dir tool_dir tool_env =
     (case input_binds in_dir (declared_in t) of
        Inl e \<Rightarrow> Inl e
      | Inr ins \<Rightarrow>
          Inr ([bw, ''--die-with-parent'', ''--unshare-pid'', ''--unshare-uts'', ''--unshare-ipc'',
                ''--new-session'', ''--clearenv'']
               @ setenv_args tool_env
               @ concat (map (\<lambda>p. if os_stat env p \<noteq> None then ro_bind p p else []) base_binds)
               @ (if se_network (tl_effects t)
                  then concat (map (\<lambda>p. if os_lstat env p \<noteq> None then ro_bind p p else []) network_binds)
                  else [''--unshare-net''])
               @ [''--dev'', ''/dev'', ''--proc'', ''/proc'', ''--tmpfs'', ''/tmp'']
               @ ins
               @ [''--bind'', out_dir, ''/deskbox/out'']
               @ ro_bind tool_dir ''/deskbox/tool''
               @ [''--chdir'', ''/deskbox'']))"

text \<open>\<^verbatim>\<open>bakeSandbox\<close>: bubblewrap is looked up on the desk's own path first.\<close>

datatype sandbox_fail = NoBubblewrap string | BadContract exec_fail

definition bake_sandbox ::
    "os_env \<Rightarrow> (string \<Rightarrow> (string, string) result) \<Rightarrow> tool \<Rightarrow> string \<Rightarrow> string \<Rightarrow> string \<Rightarrow> string list
     \<Rightarrow> (sandbox_fail, string list) result" where
  "bake_sandbox env look t in_dir out_dir tool_dir tool_env =
     (case look ''bwrap'' of
        Inl e \<Rightarrow> Inl (NoBubblewrap e)
      | Inr bw \<Rightarrow>
          (case sandbox_args env bw t in_dir out_dir tool_dir tool_env of
             Inl e \<Rightarrow> Inl (BadContract e) | Inr args \<Rightarrow> Inr args))"

text \<open>\<^verbatim>\<open>withSeccompFlag\<close>, and the prefix that caps memory and tasks.\<close>

definition with_seccomp_flag :: "string list \<Rightarrow> nat \<Rightarrow> string list" where
  "with_seccomp_flag args fd = hd args # ''--seccomp'' # nat_str fd # tl args"

definition wrap_with_resource_limits ::
    "(string \<Rightarrow> (string, string) result) \<Rightarrow> string list \<Rightarrow> settings \<Rightarrow> bool \<Rightarrow> string list" where
  "wrap_with_resource_limits look args s available =
     (if \<not> available then args
      else case look ''systemd-run'' of
             Inl e \<Rightarrow> args
           | Inr sr \<Rightarrow>
               [sr, ''--user'', ''--scope'', ''--quiet'',
                ''-p'', ''MemoryMax='' @ se_job_memory_max s,
                ''-p'', ''MemorySwapMax=0'',
                ''-p'', ''TasksMax='' @ int_str (se_job_tasks_max s)] @ args)"

subsection \<open>The audit of the output directory\<close>

text \<open>
  The entries below the output directory as \<^verbatim>\<open>filepath.WalkDir\<close> visits them without an error:
  the path relative to it and the kind of the entry.
\<close>

definition audit_entry :: "string list \<Rightarrow> string \<times> fkind \<Rightarrow> string option" where
  "audit_entry declared e =
     (case e of (rel, k) \<Rightarrow>
        if k = KSymlink then Some (rel @ '' (symlink, not allowed)'')
        else if k = KDir then None
        else if rel \<in> clean ` set declared then None
        else Some rel)"

definition audit_out_dir :: "(string \<times> fkind) list \<Rightarrow> string list \<Rightarrow> string list" where
  "audit_out_dir entries declared = sort (List.map_filter (audit_entry declared) entries)"

subsection \<open>The declared output file\<close>

text \<open>The bytes of the first declared file that can be read; nothing readable is no bytes.\<close>

fun read_declared :: "os_env \<Rightarrow> string \<Rightarrow> string list \<Rightarrow> (exec_fail, string) result" where
  "read_declared env out_dir [] = Inr []"
| "read_declared env out_dir (f # fs) =
     (if path_traverses f then read_declared env out_dir fs
      else let p = join_path [out_dir, clean f] in
        case os_lstat env p of
          None \<Rightarrow> read_declared env out_dir fs
        | Some fi \<Rightarrow>
            if fi_kind fi \<noteq> KRegular then Inl (OutNotRegular f)
            else if fi_size fi > max_tool_output then Inl (OutTooLarge f (fi_size fi))
            else case os_read env p of
                   None \<Rightarrow> read_declared env out_dir fs
                 | Some b \<Rightarrow> Inr b)"

subsection \<open>Execute\<close>

datatype ctx_state = CtxLive | CtxCanceled | CtxDeadline

record command =
  cmd_args :: "string list"
  cmd_env :: "string list"
  cmd_dir :: string
  cmd_stdin :: string
  cmd_filter :: bool

record run_outcome =
  ro_ctx :: ctx_state
  ro_elapsed :: string
  ro_err :: "string option"
  ro_stdout :: "string list"
  ro_stderr :: "string list"

record exec_env =
  xe_os :: os_env
  xe_look :: "string \<Rightarrow> (string, string) result"
  xe_mkdir :: "string \<Rightarrow> string option"
  xe_write :: "string \<Rightarrow> string option"
  xe_marshal :: "gmap \<Rightarrow> (string, string) result"
  xe_pipe :: "string option"
  xe_limits_start :: bool
  xe_limits_wrap :: bool
  xe_limits_cas :: bool
  xe_environ :: "string list"
  xe_run :: "command \<Rightarrow> run_outcome"
  xe_after :: os_env
  xe_entries :: "(string \<times> fkind) list"
  xe_parse :: "string \<Rightarrow> (string, gval) result"

record exec_desk =
  xd_data_dir :: string
  xd_settings :: settings
  xd_seccomp_ok :: bool
  xd_seccomp_prog :: "8 word list"

text \<open>What an execution changes: directories and files it makes, the limits flag, warnings.\<close>

datatype fs_action = MakeDir string | WriteFile string string

record exec_effects =
  ef_fs :: "fs_action list"
  ef_ran :: "command option"
  ef_limits_off :: bool
  ef_warned :: bool

definition no_effects :: exec_effects where
  "no_effects = \<lparr>ef_fs = [], ef_ran = None, ef_limits_off = False, ef_warned = False\<rparr>"

text \<open>The checks before anything is touched.\<close>

definition admit :: "exec_desk \<Rightarrow> exec_env \<Rightarrow> tool \<Rightarrow> exec_fail option" where
  "admit d x t =
     (if se_strict (xd_settings d) \<and> \<not> xe_limits_start x then Some EnforceLimits
      else map_option IntegrityFail (verify_integrity (xe_os x) t))"

text \<open>The workspace: its directories, then the input document under every declared name.\<close>

fun make_dirs :: "exec_env \<Rightarrow> string list \<Rightarrow> exec_fail option \<times> fs_action list" where
  "make_dirs x [] = (None, [])"
| "make_dirs x (p # ps) =
     (case xe_mkdir x p of
        Some e \<Rightarrow> (Some (WorkspaceFail e), [])
      | None \<Rightarrow> (case make_dirs x ps of (e, as) \<Rightarrow> (e, MakeDir p # as)))"

fun write_inputs :: "exec_env \<Rightarrow> string \<Rightarrow> string \<Rightarrow> string list \<Rightarrow> exec_fail option \<times> fs_action list" where
  "write_inputs x in_dir doc [] = (None, [])"
| "write_inputs x in_dir doc (f # fs) =
     (if path_traverses f then (Some (ReadEscapes f), [])
      else let host = join_path [in_dir, clean f]; dir = path_dir host;
               mk = (if dir = in_dir then [] else [MakeDir dir]) in
        if dir \<noteq> in_dir \<and> xe_mkdir x dir \<noteq> None then (map_option WriteInputFail (xe_mkdir x dir), [])
        else case xe_write x host of
               Some e \<Rightarrow> (Some (WriteInputFail e), mk)
             | None \<Rightarrow> (case write_inputs x in_dir doc fs of
                         (e, as) \<Rightarrow> (e, mk @ WriteFile host doc # as)))"

definition job_dir :: "exec_desk \<Rightarrow> job \<Rightarrow> string" where
  "job_dir d j = join_path [xd_data_dir d, ''jobs'', jb_id j]"

definition tool_environ :: "tool \<Rightarrow> job \<Rightarrow> string list" where
  "tool_environ t j =
     [''PATH='' @ sandbox_path, ''HOME=/tmp'', ''LANG=C.UTF-8'', ''TERM=dumb'',
      ''DESKBOX_JOB_ID='' @ jb_id j, ''DESKBOX_TOOL='' @ tl_name t,
      ''DESKBOX_ATTEMPT='' @ int_str (jb_attempt j)]"

text \<open>
  The command of the job: sandboxed and wrapped, refused, or plain when the sandbox cannot be
  built and the desk is not strict. With it, whether it runs in a scope of its own and whether
  a warning was logged. The first inherited descriptor is 3.
\<close>

definition inner_args :: "tool \<Rightarrow> string list \<Rightarrow> bool \<Rightarrow> string list" where
  "inner_args t args filt =
     (if filt then with_seccomp_flag args 3 else args)
     @ [join_path [''/deskbox/tool'', path_base (tl_run_path t)]]"

definition sandboxed_command ::
    "exec_desk \<Rightarrow> exec_env \<Rightarrow> tool \<Rightarrow> string \<Rightarrow> string \<Rightarrow> string list \<Rightarrow> bool \<Rightarrow> command \<times> bool" where
  "sandboxed_command d x t jd doc args filt =
     (let inner = inner_args t args filt;
          wrapped = wrap_with_resource_limits (xe_look x) inner (xd_settings d) (xe_limits_wrap x)
      in (\<lparr>cmd_args = wrapped, cmd_env = xe_environ x, cmd_dir = jd, cmd_stdin = doc, cmd_filter = filt\<rparr>,
          length inner < length wrapped))"

definition build_command ::
    "exec_desk \<Rightarrow> exec_env \<Rightarrow> tool \<Rightarrow> job \<Rightarrow> string \<Rightarrow> (exec_fail, (command \<times> bool) \<times> bool) result" where
  "build_command d x t j doc =
     (let jd = job_dir d j; in_dir = join_path [jd, ''in'']; out_dir = join_path [jd, ''out''];
          tool_dir = path_dir (tl_run_path t); env = tool_environ t j;
          strict = se_strict (xd_settings d) in
      case bake_sandbox (xe_os x) (xe_look x) t in_dir out_dir tool_dir
             (env @ [''DESKBOX_TOOL_DIR=/deskbox/tool'']) of
        Inr args \<Rightarrow>
          (let want = xd_seccomp_ok d \<and> xd_seccomp_prog d \<noteq> [] in
           case (if want then xe_pipe x else None) of
             None \<Rightarrow> Inr (sandboxed_command d x t jd doc args want, False)
           | Some e \<Rightarrow>
               if strict then Inl (EnforceSeccomp e)
               else Inr (sandboxed_command d x t jd doc args False, True))
      | Inl (BadContract e) \<Rightarrow> Inl e
      | Inl (NoBubblewrap e) \<Rightarrow>
          if strict then Inl (EnforceSandbox e)
          else Inr ((\<lparr>cmd_args = [tl_run_path t], cmd_env = env @ [''DESKBOX_TOOL_DIR='' @ tool_dir],
                      cmd_dir = jd, cmd_stdin = doc, cmd_filter = False\<rparr>, False), True))"

text \<open>The result of a run that succeeded: the audit, the document, the schema gate.\<close>

definition read_result :: "exec_env \<Rightarrow> tool \<Rightarrow> string \<Rightarrow> string list \<Rightarrow> (exec_fail, gval) result" where
  "read_result x t out_dir stdout =
     (if sb_out (tl_sandbox t) \<noteq> [] then
        (case read_declared (xe_after x) out_dir (sb_out (tl_sandbox t)) of
           Inl e \<Rightarrow> Inl e
         | Inr raw \<Rightarrow>
             if raw = [] then Inl (OutNotProduced (sb_out (tl_sandbox t)))
             else map_sum OutFileNotJson id (xe_parse x raw))
      else let b = capture max_tool_output stdout in
        if cb_overflow b then Inl StdoutTooLarge
        else let out = trim_space (cb_buf b) in
          if out = [] then Inl StdoutEmpty else map_sum StdoutNotJson id (xe_parse x out))"

definition collect :: "exec_env \<Rightarrow> tool \<Rightarrow> string \<Rightarrow> string list \<Rightarrow> (exec_fail, gval) result" where
  "collect x t out_dir stdout =
     (let viol = audit_out_dir (xe_entries x) (sb_out (tl_sandbox t)) in
      if viol \<noteq> [] then Inl (UnexpectedWrites viol)
      else case read_result x t out_dir stdout of
             Inl e \<Rightarrow> Inl e
           | Inr v \<Rightarrow>
               (let vs = validate (tl_output t) v in if vs \<noteq> [] then Inl (OutputViolation vs) else Inr v))"

definition error_text :: "run_outcome \<Rightarrow> string \<Rightarrow> string" where
  "error_text r e =
     (let msg = trim_space (cb_buf (capture max_tool_stderr (ro_stderr r))) in if msg = [] then e else msg)"

text \<open>What the run came to; \<^verbatim>\<open>Some\<close> of the second component switches the limits off.\<close>

definition bus_failure :: string where
  "bus_failure = ''Failed to connect to bus''"

definition after_run ::
    "exec_env \<Rightarrow> tool \<Rightarrow> string \<Rightarrow> bool \<Rightarrow> run_outcome \<Rightarrow> (exec_fail, gval) result \<times> bool" where
  "after_run x t out_dir scoped r =
     (if ro_ctx r = CtxCanceled then (Inl (ExecCanceled (ro_elapsed r)), False)
      else if ro_ctx r = CtxDeadline then (Inl (ExecTimeout (ro_elapsed r)), False)
      else case ro_err r of
             Some e \<Rightarrow>
               (Inl (ExitedWithError (truncate_str (error_text r e) 500)),
                scoped \<and> contains (error_text r e) bus_failure \<and> xe_limits_cas x)
           | None \<Rightarrow> (collect x t out_dir (ro_stdout r), False))"

definition execute ::
    "exec_desk \<Rightarrow> exec_env \<Rightarrow> tool \<Rightarrow> job \<Rightarrow> (exec_fail, gval) result \<times> exec_effects" where
  "execute d x t j =
     (case admit d x t of
        Some e \<Rightarrow> (Inl e, no_effects)
      | None \<Rightarrow>
          (let jd = job_dir d j; in_dir = join_path [jd, ''in'']; out_dir = join_path [jd, ''out''] in
           case make_dirs x [in_dir, out_dir] of
             (Some e, as) \<Rightarrow> (Inl e, no_effects\<lparr>ef_fs := as\<rparr>)
           | (None, as) \<Rightarrow>
               (case xe_marshal x (jb_input j) of
                  Inl e \<Rightarrow> (Inl (EncodeInputFail e), no_effects\<lparr>ef_fs := as\<rparr>)
                | Inr doc \<Rightarrow>
                    (case write_inputs x in_dir doc (declared_in t) of
                       (Some e, ws) \<Rightarrow> (Inl e, no_effects\<lparr>ef_fs := as @ ws\<rparr>)
                     | (None, ws) \<Rightarrow>
                         (case build_command d x t j doc of
                            Inl e \<Rightarrow> (Inl e, no_effects\<lparr>ef_fs := as @ ws\<rparr>)
                          | Inr ((cmd, scoped), warned) \<Rightarrow>
                              (case after_run x t out_dir scoped (xe_run x cmd) of
                                 (r, off) \<Rightarrow>
                                   (r, \<lparr>ef_fs = as @ ws, ef_ran = Some cmd, ef_limits_off = off,
                                       ef_warned = warned\<rparr>)))))))"

text \<open>
  What the queue sees of it: the sentinel and the text of a failure. How a failure is worded
  is the argument \<open>words\<close>.
\<close>

definition exec_outcome :: "(exec_fail \<Rightarrow> string) \<Rightarrow> (exec_fail, gval) result \<Rightarrow> exec_result" where
  "exec_outcome words r = map_sum (\<lambda>e. (fail_kind e, words e)) id r"

end
