(* ===== verification/Executor_Props.thy ===== *)
theory Executor_Props
  imports Executor
begin

text \<open>
  What an execution guarantees: what it touches on disk, how the command is sandboxed and
  capped, what a result went through, and which failures the queue may retry.
\<close>

subsection \<open>The stages of an execution\<close>

lemma map_sum_Inr: "map_sum f id r = Inr v \<longleftrightarrow> r = Inr v"
  by (cases r) auto

lemma no_effects_simps [simp]:
  "ef_fs no_effects = []" "ef_ran no_effects = None" "ef_limits_off no_effects = False"
  "ef_warned no_effects = False"
  by (simp_all add: no_effects_def)

abbreviation out_dir_of :: "exec_desk \<Rightarrow> job \<Rightarrow> string" where
  "out_dir_of d j \<equiv> join_path [job_dir d j, ''out'']"

lemma execute_ran:
  assumes "ef_ran (snd (execute d x t j)) = Some cmd"
  obtains doc scoped warned where "admit d x t = None"
    "build_command d x t j doc = Inr ((cmd, scoped), warned)"
    "fst (execute d x t j) = fst (after_run x t (out_dir_of d j) scoped (xe_run x cmd))"
    "ef_warned (snd (execute d x t j)) = warned"
  using assms
  by (auto simp: execute_def Let_def split: option.splits prod.splits sum.splits)

lemma execute_ok_ran:
  assumes "fst (execute d x t j) = Inr v"
  obtains cmd where "ef_ran (snd (execute d x t j)) = Some cmd"
  using assms
  by (auto simp: execute_def Let_def split: option.splits prod.splits sum.splits)

subsection \<open>What an execution writes\<close>

text \<open>
  The bound on captured output. Whatever a tool prints and in whatever pieces, every write
  is reported as complete, the buffer holds exactly the first bytes up to its limit, and it
  knows whether anything was dropped.
\<close>

theorem capped_output_bounded:
  "cb_buf (foldl (\<lambda>b p. snd (capped_write p b)) (new_capped n) ps) = take n (concat ps)
   \<and> (cb_overflow (foldl (\<lambda>b p. snd (capped_write p b)) (new_capped n) ps) \<longleftrightarrow> n < length (concat ps))
   \<and> fst (capped_write p b) = length p"
  using capture_content[of n ps] by (simp add: capture_def capped_write_def)

fun action_path :: "fs_action \<Rightarrow> string" where
  "action_path (MakeDir p) = p"
| "action_path (WriteFile p c) = p"

lemma make_dirs_paths: "a \<in> set (snd (make_dirs x ps)) \<Longrightarrow> action_path a \<in> set ps"
  by (induction ps) (auto split: option.splits prod.splits)

lemma write_inputs_paths:
  "a \<in> set (snd (write_inputs x dir doc fs)) \<Longrightarrow>
   \<exists>f\<in>set fs. \<not> path_traverses f
     \<and> action_path a \<in> {join_path [dir, clean f], path_dir (join_path [dir, clean f])}"
  by (induction fs) (auto simp: Let_def split: option.splits prod.splits if_splits)

lemma execute_fs:
  assumes "a \<in> set (ef_fs (snd (execute d x t j)))"
  shows "a \<in> set (snd (make_dirs x [join_path [job_dir d j, ''in''], out_dir_of d j]))
    \<or> (\<exists>doc. a \<in> set (snd (write_inputs x (join_path [job_dir d j, ''in'']) doc (declared_in t))))"
proof -
  obtain e as where m: "make_dirs x [join_path [job_dir d j, ''in''], out_dir_of d j] = (e, as)"
    by fastforce
  have "a \<in> set as \<or> a \<in> set (snd (write_inputs x (join_path [job_dir d j, ''in'']) doc (declared_in t)))"
    if "xe_marshal x (jb_input j) = Inr doc" for doc
    using assms m that unfolding execute_def Let_def
    by (cases "write_inputs x (join_path [job_dir d j, ''in'']) doc (declared_in t)")
       (auto simp del: make_dirs.simps split: option.splits prod.splits sum.splits)
  moreover have "a \<in> set as" if "xe_marshal x (jb_input j) = Inl er" for er
    using assms m that unfolding execute_def Let_def
    by (auto simp del: make_dirs.simps split: option.splits prod.splits sum.splits)
  ultimately show ?thesis unfolding m by (cases "xe_marshal x (jb_input j)") auto
qed

lemma job_dir_rooted:
  assumes "\<forall>c\<in>set ds. plain_comp c" "xd_data_dir d = ''/'' @ join_with ''/'' ds" "plain_comp (jb_id j)"
  shows "job_dir d j = ''/'' @ join_with ''/'' (ds @ [''jobs'', jb_id j])"
proof -
  have p: "plain_comp ''jobs''" by (simp add: plain_comp_def dotdot_def)
  show ?thesis
    unfolding job_dir_def assms(2)
    by (rule join_path_rooted[OF assms(1)]) (use assms(3) p in auto)
qed

text \<open>A desk and an environment in which everything works, for the witnesses.\<close>

definition sample_desk :: exec_desk where
  "sample_desk =
     \<lparr>xd_data_dir = ''/data'',
      xd_settings = \<lparr>se_auth_enabled = False, se_auth_token = [], se_strict = True, se_listen_addr = [],
        se_store_kind = [], se_sqlite_path = [], se_postgres_dsn = [], se_job_memory_max = ''512M'',
        se_job_tasks_max = 64\<rparr>,
      xd_seccomp_ok = True, xd_seccomp_prog = [1]\<rparr>"

definition sample_env :: exec_env where
  "sample_env =
     \<lparr>xe_os = one_file_env ''/t/run'' ''x'', xe_look = (\<lambda>n. Inr (''/usr/bin/'' @ n)),
      xe_mkdir = (\<lambda>p. None), xe_write = (\<lambda>p. None), xe_marshal = (\<lambda>m. Inr ''{}''), xe_pipe = None,
      xe_limits_start = True, xe_limits_wrap = True, xe_limits_cas = True, xe_environ = [],
      xe_run = (\<lambda>c. \<lparr>ro_ctx = CtxLive, ro_elapsed = [], ro_err = None, ro_stdout = [''null''], ro_stderr = []\<rparr>),
      xe_after = one_file_env ''/data/jobs/ab/out/r.json'' ''null'', xe_entries = [],
      xe_parse = (\<lambda>s. Inr GNull)\<rparr>"



subsection \<open>How a job is run\<close>

text \<open>
  The shape of a sandboxed command: the program of the sandbox at some place in it, its
  isolating options after it, the script last.
\<close>

definition sandboxed_by :: "string \<Rightarrow> tool \<Rightarrow> string list \<Rightarrow> bool" where
  "sandboxed_by bw t args \<longleftrightarrow>
     (\<exists>pre opts. args = pre @ bw # opts @ [join_path [''/deskbox/tool'', path_base (tl_run_path t)]]
        \<and> {''--die-with-parent'', ''--unshare-pid'', ''--new-session'', ''--clearenv''} \<subseteq> set opts
        \<and> (\<not> se_network (tl_effects t) \<longrightarrow> ''--unshare-net'' \<in> set opts))"

lemma bake_sandbox_shape:
  assumes "bake_sandbox env look t i out_d dir tenv = Inr args"
  obtains bw opts where "look ''bwrap'' = Inr bw" "args = bw # opts"
    "{''--die-with-parent'', ''--unshare-pid'', ''--new-session'', ''--clearenv''} \<subseteq> set opts"
    "\<not> se_network (tl_effects t) \<longrightarrow> ''--unshare-net'' \<in> set opts"
  using assms by (auto simp: bake_sandbox_def sandbox_args_def split: sum.splits)

lemma wrap_shape: "\<exists>pre. wrap_with_resource_limits look args s a = pre @ args"
  by (auto simp: wrap_with_resource_limits_def split: sum.split)

lemma sandboxed_command_by:
  assumes "bake_sandbox env look t i out_d dir tenv = Inr args" "look ''bwrap'' = Inr bw"
  shows "sandboxed_by bw t (cmd_args (fst (sandboxed_command d x t jd doc args f)))"
proof -
  obtain opts where o: "args = bw # opts"
    "{''--die-with-parent'', ''--unshare-pid'', ''--new-session'', ''--clearenv''} \<subseteq> set opts"
    "\<not> se_network (tl_effects t) \<longrightarrow> ''--unshare-net'' \<in> set opts"
    using bake_sandbox_shape[OF assms(1)] assms(2) by (metis sum.inject(2))
  define opts' where "opts' = (if f then [''--seccomp'', nat_str 3] @ opts else opts)"
  have "set opts \<subseteq> set opts'" by (auto simp: opts'_def)
  moreover have "inner_args t args f = bw # opts' @ [join_path [''/deskbox/tool'', path_base (tl_run_path t)]]"
    by (simp add: inner_args_def with_seccomp_flag_def o(1) opts'_def)
  moreover obtain pre where "cmd_args (fst (sandboxed_command d x t jd doc args f)) = pre @ inner_args t args f"
    using wrap_shape[of "xe_look x" "inner_args t args f" "xd_settings d" "xe_limits_wrap x"]
    by (auto simp: sandboxed_command_def Let_def)
  ultimately show ?thesis
    unfolding sandboxed_by_def using o(2,3) by (intro exI[of _ pre] exI[of _ opts']) auto
qed

lemma ran_enforced:
  assumes "ef_ran (snd (execute d x t j)) = Some cmd"
  shows "verify_integrity (xe_os x) t = None
    \<and> (case xe_look x ''bwrap'' of
         Inr bw \<Rightarrow> sandboxed_by bw t (cmd_args cmd)
       | Inl e \<Rightarrow> \<not> se_strict (xd_settings d) \<and> ef_warned (snd (execute d x t j)))
    \<and> (se_strict (xd_settings d) \<longrightarrow> xe_limits_start x
        \<and> (cmd_filter cmd \<longleftrightarrow> xd_seccomp_ok d \<and> xd_seccomp_prog d \<noteq> []))"
proof -
  obtain doc scoped w where c: "admit d x t = None" "build_command d x t j doc = Inr ((cmd, scoped), w)"
    "ef_warned (snd (execute d x t j)) = w"
    using execute_ran[OF assms] by metis
  have a: "verify_integrity (xe_os x) t = None" "se_strict (xd_settings d) \<longrightarrow> xe_limits_start x"
    using c(1) by (auto simp: admit_def split: if_splits)
  let ?b = "bake_sandbox (xe_os x) (xe_look x) t (join_path [job_dir d j, ''in'']) (out_dir_of d j)
    (path_dir (tl_run_path t)) (tool_environ t j @ [''DESKBOX_TOOL_DIR=/deskbox/tool''])"
  show ?thesis
  proof (cases ?b)
    case (Inl e)
    then show ?thesis using c(2,3) a
      by (cases e) (auto simp: build_command_def Let_def bake_sandbox_def split: sum.splits if_splits)
  next
    case (Inr args)
    then obtain bw where bw: "xe_look x ''bwrap'' = Inr bw" by (rule bake_sandbox_shape)
    define f where "f \<longleftrightarrow> xd_seccomp_ok d \<and> xd_seccomp_prog d \<noteq> [] \<and> xe_pipe x = None"
    have f: "sandboxed_command d x t (job_dir d j) doc args f = (cmd, scoped)"
      "se_strict (xd_settings d) \<longrightarrow> (f \<longleftrightarrow> xd_seccomp_ok d \<and> xd_seccomp_prog d \<noteq> [])"
      using c(2) Inr by (auto simp: f_def build_command_def Let_def split: option.splits if_splits)
    have "sandboxed_by bw t (cmd_args cmd)"
      using sandboxed_command_by[OF Inr bw, of d x "job_dir d j" doc f] f(1) by (metis fst_conv)
    moreover have "cmd_filter cmd = f"
      using f(1) by (auto simp: sandboxed_command_def Let_def)
    ultimately show ?thesis using a bw f(2) by simp
  qed
qed


lemma execute_success:
  assumes "admit d x t = None" "\<And>p. xe_mkdir x p = None" "xe_marshal x (jb_input j) = Inr doc"
    "\<And>p. xe_write x p = None" "\<forall>f\<in>set (declared_in t). \<not> path_traverses f"
    "xe_look x ''bwrap'' = Inr bw" "xe_pipe x = None"
    "\<And>c. ro_ctx (xe_run x c) = CtxLive" "\<And>c. ro_err (xe_run x c) = None"
  shows "\<exists>cmd. ef_ran (snd (execute d x t j)) = Some cmd
    \<and> fst (execute d x t j) = collect x t (out_dir_of d j) (ro_stdout (xe_run x cmd))"
proof -
  have m: "fst (make_dirs x ps) = None" for ps
    by (induction ps) (auto simp: assms(2) split: prod.split)
  have w: "fst (write_inputs x dir doc fs) = None" if "\<forall>f\<in>set fs. \<not> path_traverses f" for dir fs
    using that by (induction fs) (auto simp: assms(2,4) Let_def split: prod.split)
  have i: "\<exists>bs. input_binds dir fs = Inr bs" if "\<forall>f\<in>set fs. \<not> path_traverses f" for dir fs
    using that by (induction fs) auto
  have "\<exists>args. bake_sandbox (xe_os x) (xe_look x) t in_d b c e = Inr args" for in_d b c e
    using i[OF assms(5), of in_d] by (auto simp: bake_sandbox_def sandbox_args_def assms(6))
  then obtain args where args: "bake_sandbox (xe_os x) (xe_look x) t (join_path [job_dir d j, ''in''])
      (out_dir_of d j) (path_dir (tl_run_path t)) (tool_environ t j @ [''DESKBOX_TOOL_DIR=/deskbox/tool''])
    = Inr args" by blast
  define want where "want = (xd_seccomp_ok d \<and> xd_seccomp_prog d \<noteq> [])"
  obtain cmd sc where sc: "sandboxed_command d x t (job_dir d j) doc args want = (cmd, sc)"
    by fastforce
  have b: "build_command d x t j doc = Inr ((cmd, sc), False)"
    unfolding build_command_def Let_def want_def[symmetric] using args assms(7) sc by (cases want) simp_all
  have "after_run x t od sc (xe_run x cmd) = (collect x t od (ro_stdout (xe_run x cmd)), False)" for od
    by (simp add: after_run_def assms(8,9))
  moreover obtain as where "make_dirs x [join_path [job_dir d j, ''in''], out_dir_of d j] = (None, as)"
    using m by (metis prod.collapse)
  moreover obtain ws where "write_inputs x (join_path [job_dir d j, ''in'']) doc (declared_in t) = (None, ws)"
    using w[OF assms(5)] by (metis prod.collapse)
  ultimately show ?thesis
    using b assms(1,3) by (simp add: execute_def Let_def del: make_dirs.simps write_inputs.simps)
qed

lemma sample_env_works:
  "admit sample_desk sample_env (sample_tool ''/t/run'') = None" "xe_mkdir sample_env p = None"
  "xe_marshal sample_env m = Inr ''{}''" "xe_write sample_env p = None"
  "\<forall>f\<in>set (declared_in (sample_tool ''/t/run'')). \<not> path_traverses f"
  "xe_look sample_env n = Inr (''/usr/bin/'' @ n)" "xe_pipe sample_env = None"
  "ro_ctx (xe_run sample_env c) = CtxLive" "ro_err (xe_run sample_env c) = None"
  "ro_stdout (xe_run sample_env c) = [''null'']"
  by (simp_all add: sample_env_def admit_def verify_integrity_def verify_run_def verify_interpreter_def
      run_pinned_def interp_pinned_def sample_tool_def declared_in_def path_traverses_def is_abs_def
      has_prefix_def)

lemma sample_ran:
  "\<exists>cmd. ef_ran (snd (execute sample_desk sample_env (sample_tool ''/t/run'') (sample_job ''ab'' [] [] 0))) = Some cmd
     \<and> fst (execute sample_desk sample_env (sample_tool ''/t/run'') (sample_job ''ab'' [] [] 0)) = Inr GNull"
proof -
  let ?t = "sample_tool ''/t/run''"
  have c: "capture max_tool_output [''null''] = \<lparr>cb_buf = ''null'', cb_max = max_tool_output, cb_overflow = False\<rparr>"
    by (simp add: capture_def new_capped_def capped_write_def max_tool_output_def)
  have "trim_space ''null'' = ''null''" by code_simp
  then have "collect sample_env ?t od [''null''] = Inr GNull" for od
    by (simp add: collect_def audit_out_dir_def sample_env_def sample_tool_def read_result_def c
        validate_def map_filter_simps)
  with execute_success[OF sample_env_works(1-4) sample_env_works(5,6) sample_env_works(7-9)]
  show ?thesis by (simp add: sample_env_works(10))
qed


text \<open>
  The window in which a strict desk runs a job without its caps. The limits flag is read
  once for the refusal and once for the command line; when another job's failure turns it off
  in between, the strict desk runs this job without the prefix that caps it.
\<close>

theorem strict_uncapped_window:
  assumes "ef_ran (snd (execute d x t j)) = Some cmd" "se_strict (xd_settings d)"
    and "xe_look x ''bwrap'' = Inr bw" "\<not> xe_limits_wrap x"
  shows "xe_limits_start x \<and> hd (cmd_args cmd) = bw"
proof -
  obtain doc scoped w where c: "admit d x t = None" "build_command d x t j doc = Inr ((cmd, scoped), w)"
    using execute_ran[OF assms(1)] by metis
  have "xe_limits_start x" using c(1) assms(2) by (auto simp: admit_def split: if_splits)
  let ?b = "bake_sandbox (xe_os x) (xe_look x) t (join_path [job_dir d j, ''in'']) (out_dir_of d j)
    (path_dir (tl_run_path t)) (tool_environ t j @ [''DESKBOX_TOOL_DIR=/deskbox/tool''])"
  from c(2) assms(2,3) obtain args f where a: "?b = Inr args"
    "sandboxed_command d x t (job_dir d j) doc args f = (cmd, scoped)"
    by (auto simp: build_command_def Let_def split: option.splits if_splits sum.splits sandbox_fail.splits)
  from a(1) obtain bw' opts where o: "xe_look x ''bwrap'' = Inr bw'" "args = bw' # opts"
    by (rule bake_sandbox_shape)
  have "cmd_args cmd = inner_args t args f"
    using a(2) assms(4) by (auto simp: sandboxed_command_def Let_def wrap_with_resource_limits_def)
  then have "hd (cmd_args cmd) = bw'" by (simp add: inner_args_def o(2) with_seccomp_flag_def)
  with o(1) assms(3) \<open>xe_limits_start x\<close> show ?thesis by simp
qed

lemma strict_uncapped_window_witness:
  "\<exists>cmd. ef_ran (snd (execute sample_desk (sample_env\<lparr>xe_limits_wrap := False\<rparr>) (sample_tool ''/t/run'')
        (sample_job ''ab'' [] [] 0))) = Some cmd
     \<and> xe_limits_start sample_env \<and> hd (cmd_args cmd) = ''/usr/bin/bwrap''"
proof -
  let ?x = "sample_env\<lparr>xe_limits_wrap := False\<rparr>" and ?t = "sample_tool ''/t/run''"
  have a: "admit sample_desk ?x ?t = None"
    using sample_env_works(1) by (simp add: admit_def split: if_splits)
  obtain cmd where cmd: "ef_ran (snd (execute sample_desk ?x ?t (sample_job ''ab'' [] [] 0))) = Some cmd"
    using execute_success[OF a _ _ _ sample_env_works(5), where j = "sample_job ''ab'' [] [] 0"]
    by (auto simp: sample_env_works)
  have "xe_look ?x ''bwrap'' = Inr ''/usr/bin/bwrap''" "se_strict (xd_settings sample_desk)"
    by (simp_all add: sample_env_works sample_desk_def)
  from strict_uncapped_window[OF cmd this(2,1)] cmd show ?thesis by simp
qed

subsection \<open>What a result went through\<close>

lemma map_filter_Nil: "List.map_filter f xs = [] \<longleftrightarrow> (\<forall>x\<in>set xs. f x = None)"
  by (induction xs) (auto simp: map_filter_simps split: option.splits)

lemma audit_clean:
  "audit_out_dir entries declared = [] \<longleftrightarrow>
     (\<forall>(rel, k)\<in>set entries. k \<noteq> KSymlink \<and> (k = KDir \<or> rel \<in> clean ` set declared))"
proof -
  have "audit_out_dir entries declared = [] \<longleftrightarrow> (\<forall>e\<in>set entries. audit_entry declared e = None)"
    unfolding audit_out_dir_def map_filter_Nil[symmetric]
    by (metis length_0_conv length_sort)
  then show ?thesis by (auto simp: audit_entry_def split: if_splits)
qed

lemma read_declared_ok:
  assumes "read_declared env out_d fs = Inr raw" "raw \<noteq> []"
  shows "\<exists>f\<in>set fs. \<exists>fi. \<not> path_traverses f \<and> os_lstat env (join_path [out_d, clean f]) = Some fi
    \<and> fi_kind fi = KRegular \<and> fi_size fi \<le> max_tool_output
    \<and> os_read env (join_path [out_d, clean f]) = Some raw"
  using assms
  by (induction fs) (auto simp: Let_def not_less split: if_splits option.splits)

text \<open>
  C28: What a result has been through. When an execution returns a document, the tool ran to
  its end in time and without an error, nothing but declared regular files and directories
  lies in its output directory, and the document satisfies the contract's output schema. It
  was decoded from a declared, regular file inside the output directory that is within the
  size limit, or, for a contract without output files, from all of the tool's standard output,
  within the limit.
\<close>

theorem executed_result_sound:
  assumes "fst (execute d x t j) = Inr v"
  shows "validate (tl_output t) v = []
    \<and> (\<forall>(rel, k)\<in>set (xe_entries x). k \<noteq> KSymlink \<and> (k = KDir \<or> rel \<in> clean ` set (sb_out (tl_sandbox t))))
    \<and> (\<exists>cmd. ef_ran (snd (execute d x t j)) = Some cmd
        \<and> ro_ctx (xe_run x cmd) = CtxLive \<and> ro_err (xe_run x cmd) = None
        \<and> (if sb_out (tl_sandbox t) = [] then
             length (concat (ro_stdout (xe_run x cmd))) \<le> max_tool_output
             \<and> xe_parse x (trim_space (concat (ro_stdout (xe_run x cmd)))) = Inr v
           else \<exists>f\<in>set (sb_out (tl_sandbox t)). \<exists>fi raw. \<not> path_traverses f
             \<and> os_lstat (xe_after x) (join_path [out_dir_of d j, clean f]) = Some fi
             \<and> fi_kind fi = KRegular \<and> fi_size fi \<le> max_tool_output
             \<and> os_read (xe_after x) (join_path [out_dir_of d j, clean f]) = Some raw
             \<and> xe_parse x raw = Inr v))"
proof -
  obtain cmd where cmd: "ef_ran (snd (execute d x t j)) = Some cmd"
    by (rule execute_ok_ran[OF assms])
  obtain scoped where r: "fst (execute d x t j) = fst (after_run x t (out_dir_of d j) scoped (xe_run x cmd))"
    using execute_ran[OF cmd] by metis
  let ?r = "xe_run x cmd"
  have ok: "ro_ctx ?r = CtxLive" "ro_err ?r = None" "collect x t (out_dir_of d j) (ro_stdout ?r) = Inr v"
    using r assms by (cases "ro_ctx ?r"; auto simp: after_run_def split: option.splits)+
  then have a: "audit_out_dir (xe_entries x) (sb_out (tl_sandbox t)) = []" "validate (tl_output t) v = []"
    "read_result x t (out_dir_of d j) (ro_stdout ?r) = Inr v"
    by (auto simp: collect_def Let_def split: if_splits sum.splits)
  show ?thesis
  proof (cases "sb_out (tl_sandbox t) = []")
    case True
    then have "length (concat (ro_stdout ?r)) \<le> max_tool_output"
      "xe_parse x (trim_space (concat (ro_stdout ?r))) = Inr v"
      using a(3) capture_content[of max_tool_output "ro_stdout ?r"]
      by (auto simp: read_result_def Let_def map_sum_Inr split: if_splits)
    with True ok a cmd show ?thesis unfolding audit_clean by auto
  next
    case False
    then obtain raw where raw: "read_declared (xe_after x) (out_dir_of d j) (sb_out (tl_sandbox t)) = Inr raw"
      "raw \<noteq> []" "xe_parse x raw = Inr v"
      using a(3) by (auto simp: read_result_def map_sum_Inr split: sum.splits if_splits)
    from read_declared_ok[OF raw(1,2)] raw(3) False ok a cmd show ?thesis
      unfolding audit_clean by auto
  qed
qed

lemma executed_result_sound_witness:
  "\<exists>cmd. ef_ran (snd (execute sample_desk sample_env (sample_tool ''/t/run'') (sample_job ''ab'' [] [] 0))) = Some cmd
     \<and> xe_parse sample_env (trim_space (concat (ro_stdout (xe_run sample_env cmd)))) = Inr GNull"
proof -
  have r: "fst (execute sample_desk sample_env (sample_tool ''/t/run'') (sample_job ''ab'' [] [] 0)) = Inr GNull"
    using sample_ran by blast
  have "sb_out (tl_sandbox (sample_tool ''/t/run'')) = []" by (simp add: sample_tool_def)
  with executed_result_sound[OF r] show ?thesis by auto
qed

text \<open>
  Which failures cost another attempt, across the executor and the queue. For a job whose
  tool was started, the queue's verdict is a retry exactly when attempts are left and the run
  was canceled, timed out or ended with an error: a run that ended well is final, whatever its
  output turned out to be.
\<close>

theorem executed_retry_iff:
  assumes "ef_ran (snd (execute d x t j)) = Some cmd"
  shows "(\<exists>m. judge (exec_outcome words (fst (execute d x t j))) j' = VRetry m) \<longleftrightarrow>
    jb_attempt j' < jb_max_retries j'
    \<and> (ro_ctx (xe_run x cmd) \<noteq> CtxLive \<or> ro_err (xe_run x cmd) \<noteq> None)"
proof -
  obtain scoped where r: "fst (execute d x t j) = fst (after_run x t (out_dir_of d j) scoped (xe_run x cmd))"
    using execute_ran[OF assms] by metis
  let ?r = "xe_run x cmd"
  show ?thesis
  proof (cases "ro_ctx ?r = CtxLive \<and> ro_err ?r = None")
    case False
    then have "\<exists>e. fst (execute d x t j) = Inl e \<and> fail_kind e = ErrTool"
      unfolding r by (cases "ro_ctx ?r") (auto simp: after_run_def split: option.splits)
    with False show ?thesis by (auto simp: exec_outcome_def judge_def split: if_splits)
  next
    case True
    then have c: "fst (execute d x t j) = collect x t (out_dir_of d j) (ro_stdout ?r)"
      unfolding r by (simp add: after_run_def)
    have d: "fail_kind e = ErrContract" if "read_declared env od fs = Inl e" for env od fs e
      using that by (induction fs) (auto simp: Let_def split: if_splits option.splits)
    have "fail_kind e = ErrContract" if "fst (execute d x t j) = Inl e" for e
      using that d unfolding c
      by (auto simp: collect_def read_result_def Let_def map_sum_def split: if_splits sum.splits)
    with True show ?thesis
      by (cases "fst (execute d x t j)") (auto simp: exec_outcome_def judge_def)
  qed
qed

lemma executed_retry_iff_witness:
  "\<not> (\<exists>m. judge (exec_outcome (\<lambda>e. []) (fst (execute sample_desk sample_env (sample_tool ''/t/run'')
        (sample_job ''ab'' [] [] 0)))) (sample_job ''ab'' [] [] 0) = VRetry m)"
proof -
  obtain cmd where r: "ef_ran (snd (execute sample_desk sample_env (sample_tool ''/t/run'') (sample_job ''ab'' [] [] 0))) = Some cmd"
    using sample_ran by blast
  show ?thesis
    using executed_retry_iff[OF r, of "\<lambda>e. []" "sample_job ''ab'' [] [] 0"] sample_env_works(8,9) by simp
qed

text \<open>
  A declared output file need not come from the run it is taken from. The output directory
  belongs to the job and is not emptied between attempts: when a run ends well without writing
  anything, the file an earlier attempt left there is returned as this run's result.
\<close>

theorem leftover_output_accepted:
  assumes "ef_ran (snd (execute d x t j)) = Some cmd"
    and "ro_ctx (xe_run x cmd) = CtxLive" "ro_err (xe_run x cmd) = None"
    and "xe_after x = xe_os x" "sb_out (tl_sandbox t) = f # fs" "\<not> path_traverses f"
    and "os_lstat (xe_os x) (join_path [out_dir_of d j, clean f]) = Some fi"
    and "fi_kind fi = KRegular" "fi_size fi \<le> max_tool_output"
    and "os_read (xe_os x) (join_path [out_dir_of d j, clean f]) = Some raw" "raw \<noteq> []"
    and "audit_out_dir (xe_entries x) (sb_out (tl_sandbox t)) = []"
    and "xe_parse x raw = Inr v" "validate (tl_output t) v = []"
  shows "fst (execute d x t j) = Inr v"
proof -
  obtain scoped where r: "fst (execute d x t j) = fst (after_run x t (out_dir_of d j) scoped (xe_run x cmd))"
    using execute_ran[OF assms(1)] by metis
  have "read_declared (xe_after x) (out_dir_of d j) (f # fs) = Inr raw"
    using assms(4,6-10) by (simp add: Let_def)
  then have "collect x t (out_dir_of d j) (ro_stdout (xe_run x cmd)) = Inr v"
    using assms(5,11-14) by (simp add: collect_def read_result_def)
  with assms(2,3) show ?thesis unfolding r by (simp add: after_run_def)
qed

definition leftover_env :: exec_env where
  "leftover_env = sample_env\<lparr>xe_os := one_file_env ''/data/jobs/ab/out/r.json'' ''null'',
     xe_entries := [(''r.json'', KRegular)]\<rparr>"

definition leftover_tool :: tool where
  "leftover_tool = (sample_tool ''/t/run'')\<lparr>tl_sandbox := \<lparr>sb_in = [], sb_out = [''r.json'']\<rparr>\<rparr>"

lemma leftover_output_accepted_witness:
  "fst (execute sample_desk leftover_env leftover_tool (sample_job ''ab'' [] [] 0)) = Inr GNull"
proof -
  let ?j = "sample_job ''ab'' [] [] 0"
  have "join_path [join_path [join_path [''/data'', ''jobs'', ''ab''], ''out''], clean ''r.json'']
      = ''/data/jobs/ab/out/r.json''" by code_simp
  then have p: "join_path [out_dir_of sample_desk ?j, clean ''r.json''] = ''/data/jobs/ab/out/r.json''"
    by (simp add: job_dir_def sample_desk_def)
  have a: "admit sample_desk leftover_env leftover_tool = None"
    by (simp add: leftover_env_def leftover_tool_def sample_env_def admit_def verify_integrity_def
        verify_run_def verify_interpreter_def run_pinned_def interp_pinned_def sample_tool_def)
  have i: "\<forall>f\<in>set (declared_in leftover_tool). \<not> path_traverses f"
    by (simp add: declared_in_def leftover_tool_def path_traverses_def is_abs_def has_prefix_def)
  have x: "xe_mkdir leftover_env q = None" "xe_marshal leftover_env m = Inr ''{}''"
    "xe_write leftover_env q = None" "xe_look leftover_env n = Inr (''/usr/bin/'' @ n)"
    "xe_pipe leftover_env = None" "ro_ctx (xe_run leftover_env c) = CtxLive"
    "ro_err (xe_run leftover_env c) = None" "xe_parse leftover_env s = Inr GNull"
    "xe_after leftover_env = xe_os leftover_env" for q m n c s
    by (simp_all add: leftover_env_def sample_env_def)
  obtain cmd where cmd: "ef_ran (snd (execute sample_desk leftover_env leftover_tool ?j)) = Some cmd"
    using execute_success[OF a x(1,2,3) i x(4,5,6,7)] by blast
  have "clean ''r.json'' = ''r.json''" by code_simp
  then have "audit_out_dir (xe_entries leftover_env) (sb_out (tl_sandbox leftover_tool)) = []"
    by (simp add: audit_clean leftover_env_def leftover_tool_def)
  then show ?thesis
    by (intro leftover_output_accepted[OF cmd x(6,7,9), where f = "''r.json''" and fs = "[]"])
       (simp_all add: p x(8), auto simp: leftover_env_def leftover_tool_def one_file_env_def
          path_traverses_def is_abs_def has_prefix_def max_tool_output_def sample_tool_def validate_def)
qed

end
