(* ===== verification/Posture.thy ===== *)
theory Posture
  imports Settings Tcs_Interp
begin

text \<open>
  How a desk is exposed: \<^verbatim>\<open>cmd/agent-desk/posture.go\<close>, and from \<^verbatim>\<open>main.go\<close> the report of
  what is enforced (\<^verbatim>\<open>enforcement\<close>) and the start-up refusals of \<^verbatim>\<open>-strict\<close>. The parsing of
  addresses (\<^verbatim>\<open>net.SplitHostPort\<close>, \<^verbatim>\<open>net.ParseIP\<close>) is the standard library's; an address is
  its sixteen bytes, an IPv4 address in the mapped form.
\<close>

subsection \<open>Accounts\<close>

definition running_as_root :: "int \<Rightarrow> int \<Rightarrow> bool" where
  "running_as_root uid euid \<longleftrightarrow> uid = 0 \<or> euid = 0"

text \<open>The user name is \<open>None\<close> when the account has no entry.\<close>

definition describe_user :: "int \<Rightarrow> int \<Rightarrow> string option \<Rightarrow> string" where
  "describe_user uid euid name =
     (case name of
        None \<Rightarrow> ''uid '' @ int_str uid
      | Some n \<Rightarrow> if n = [] then ''uid '' @ int_str uid else n @ '' (uid '' @ int_str uid @ '')'')
     @ (if euid \<noteq> uid then '', effective uid '' @ int_str euid else [])"

subsection \<open>Addresses\<close>

definition is_unix_socket :: "string \<Rightarrow> bool" where
  "is_unix_socket addr \<longleftrightarrow> contains addr ''/''"

text \<open>The text before and after the last colon.\<close>

definition cut_last_colon :: "string \<Rightarrow> (string \<times> string) option" where
  "cut_last_colon s =
     map_option (\<lambda>(b, a). (rev a, rev b)) (cut_char (rev s) (CHR '':''))"

definition split_host_port :: "string \<Rightarrow> (string \<times> string) option" where
  "split_host_port s =
     (case cut_last_colon s of
        None \<Rightarrow> None
      | Some (a, port) \<Rightarrow>
          if has_prefix s ''['' then
            (case cut_char s (CHR '']'') of
               None \<Rightarrow> None
             | Some (b, _) \<Rightarrow>
                 if Suc (length b) \<noteq> length a \<or> CHR ''['' \<in> set (tl s) \<or> CHR '']'' \<in> set (drop (Suc (length b)) s)
                 then None else Some (tl b, port))
          else if CHR '':'' \<in> set a \<or> CHR ''['' \<in> set s \<or> CHR '']'' \<in> set s then None
          else Some (a, port))"

definition octet_ok :: "string \<Rightarrow> bool" where
  "octet_ok d \<longleftrightarrow> d \<noteq> [] \<and> list_all is_digit d \<and> (d = ''0'' \<or> hd d \<noteq> CHR ''0'') \<and> digits_nat d \<le> 255"

definition parse_ipv4 :: "string \<Rightarrow> nat list option" where
  "parse_ipv4 s =
     (let ds = split_on (CHR ''.'') s
      in if length ds = 4 \<and> list_all octet_ok ds then Some (map digits_nat ds) else None)"

definition hex_val :: "char \<Rightarrow> nat option" where
  "hex_val c =
     (let n = (of_char c :: nat) in
      if 48 \<le> n \<and> n \<le> 57 then Some (n - 48)
      else if 97 \<le> n \<and> n \<le> 102 then Some (n - 87)
      else if 65 \<le> n \<and> n \<le> 70 then Some (n - 55)
      else None)"

definition hex_nat :: "string \<Rightarrow> nat" where
  "hex_nat s = foldl (\<lambda>n c. 16 * n + (case hex_val c of None \<Rightarrow> 0 | Some d \<Rightarrow> d)) 0 s"

text \<open>
  The groups of an IPv6 address: the bytes read so far and the place of the ellipsis; the
  first argument counts the groups that still fit.
\<close>

fun ipv6_groups :: "nat \<Rightarrow> string \<Rightarrow> nat list \<Rightarrow> nat option \<Rightarrow> (nat list \<times> nat option) option" where
  "ipv6_groups 0 s ip ell = (if s = [] then Some (ip, ell) else None)"
| "ipv6_groups (Suc n) s ip ell =
     (let hs = takeWhile (\<lambda>c. hex_val c \<noteq> None) s;
          rest = dropWhile (\<lambda>c. hex_val c \<noteq> None) s;
          ip' = ip @ [hex_nat hs div 256, hex_nat hs mod 256]
      in if hs = [] \<or> length hs > 4 then None
         else (case rest of
                 [] \<Rightarrow> Some (ip', ell)
               | c # t \<Rightarrow>
                   if c = CHR ''.'' then
                     (if (ell = None \<and> length ip \<noteq> 12) \<or> length ip + 4 > 16 then None
                      else map_option (\<lambda>f. (ip @ f, ell)) (parse_ipv4 s))
                   else if c \<noteq> CHR '':'' then None
                   else (case t of
                           [] \<Rightarrow> None
                         | d # u \<Rightarrow>
                             if d \<noteq> CHR '':'' then ipv6_groups n t ip' ell
                             else if ell \<noteq> None then None
                             else if u = [] then Some (ip', Some (length ip'))
                             else ipv6_groups n u ip' (Some (length ip')))))"

definition expand_ellipsis :: "nat list \<times> nat option \<Rightarrow> nat list option" where
  "expand_ellipsis r =
     (case r of (ip, ell) \<Rightarrow>
        if length ip < 16 then
          (case ell of None \<Rightarrow> None
           | Some e \<Rightarrow> Some (take e ip @ replicate (16 - length ip) 0 @ drop e ip))
        else if ell \<noteq> None then None else Some ip)"

definition parse_ipv6 :: "string \<Rightarrow> nat list option" where
  "parse_ipv6 s =
     (if has_prefix s ''::'' then
        (if s = ''::'' then Some (replicate 16 0)
         else Option.bind (ipv6_groups 8 (drop 2 s) [] (Some 0)) expand_ellipsis)
      else Option.bind (ipv6_groups 8 s [] None) expand_ellipsis)"

definition ipv4_mapped :: "nat list \<Rightarrow> nat list" where
  "ipv4_mapped f = replicate 10 0 @ [255, 255] @ f"

text \<open>The first dot or colon decides the family; an address with a zone is no IP here.\<close>

definition parse_ip :: "string \<Rightarrow> nat list option" where
  "parse_ip s =
     (if CHR ''%'' \<in> set s then None
      else case dropWhile (\<lambda>c. c \<noteq> CHR ''.'' \<and> c \<noteq> CHR '':'') s of
             [] \<Rightarrow> None
           | c # _ \<Rightarrow> if c = CHR ''.'' then map_option ipv4_mapped (parse_ipv4 s) else parse_ipv6 s)"

definition is_unspecified :: "nat list \<Rightarrow> bool" where
  "is_unspecified ip \<longleftrightarrow> ip = ipv4_mapped [0, 0, 0, 0] \<or> ip = replicate 16 0"

definition is_loopback :: "nat list \<Rightarrow> bool" where
  "is_loopback ip \<longleftrightarrow>
     (if take 12 ip = replicate 10 0 @ [255, 255] then ip ! 12 = 127
      else ip = replicate 15 0 @ [1])"

definition listens_beyond_loopback :: "string \<Rightarrow> bool" where
  "listens_beyond_loopback addr \<longleftrightarrow>
     (if is_unix_socket addr then False
      else let host = (case split_host_port addr of None \<Rightarrow> addr | Some (h, _) \<Rightarrow> h) in
        if host = [] then True
        else if host = ''localhost'' then False
        else (case parse_ip host of
                None \<Rightarrow> True
              | Some ip \<Rightarrow> if is_unspecified ip then True else \<not> is_loopback ip))"

subsection \<open>Opening the socket\<close>

text \<open>
  The part of the file system a listener touches: what each path names and the mode of the
  sockets. The faults of the calls are arguments: removing a path fails, binding fails, the
  mode change fails, and whether the kernel applies the umask to a new socket.
\<close>

record sock_fs =
  fs_kind :: "string \<Rightarrow> fkind option"
  fs_mode :: "string \<Rightarrow> 9 word"
  fs_umask :: "9 word"

record sock_faults =
  sf_remove_fails :: bool
  sf_bind_fails :: bool
  sf_chmod_fails :: bool
  sf_umask_honoured :: bool

datatype listener = TcpListener string | UnixListener string

datatype listen_error = NotASocket string | RemoveFailed string | BindFailed string | ChmodFailed string

definition bind_socket :: "sock_faults \<Rightarrow> string \<Rightarrow> sock_fs \<Rightarrow> bool \<times> sock_fs" where
  "bind_socket sf addr fs =
     (if sf_bind_fails sf \<or> fs_kind fs addr \<noteq> None then (False, fs)
      else (True, fs\<lparr>fs_kind := (fs_kind fs)(addr \<mapsto> KSocket),
                     fs_mode := (fs_mode fs)(addr := if sf_umask_honoured sf then 511 AND NOT (fs_umask fs) else 511)\<rparr>))"

definition remove_stale :: "sock_faults \<Rightarrow> string \<Rightarrow> sock_fs \<Rightarrow> (listen_error, sock_fs) result" where
  "remove_stale sf addr fs =
     (case fs_kind fs addr of
        None \<Rightarrow> Inr fs
      | Some k \<Rightarrow>
          if k \<noteq> KSocket then Inl (NotASocket addr)
          else if sf_remove_fails sf then Inl (RemoveFailed addr)
          else Inr (fs\<lparr>fs_kind := (fs_kind fs)(addr := None)\<rparr>))"

text \<open>Closing a unix listener unlinks its path.\<close>

definition listen :: "sock_faults \<Rightarrow> string \<Rightarrow> sock_fs \<Rightarrow> (listen_error, listener) result \<times> sock_fs" where
  "listen sf addr fs =
     (if \<not> is_unix_socket addr then
        (if sf_bind_fails sf then Inl (BindFailed addr) else Inr (TcpListener addr), fs)
      else case remove_stale sf addr fs of
             Inl e \<Rightarrow> (Inl e, fs)
           | Inr fs1 \<Rightarrow>
               let old = fs_umask fs1;
                   (bound, fs2) = bind_socket sf addr (fs1\<lparr>fs_umask := 127\<rparr>);
                   fs3 = fs2\<lparr>fs_umask := old\<rparr>
               in if \<not> bound then (Inl (BindFailed addr), fs3)
                  else if sf_chmod_fails sf
                  then (Inl (ChmodFailed addr), fs3\<lparr>fs_kind := (fs_kind fs3)(addr := None)\<rparr>)
                  else (Inr (UnixListener addr), fs3\<lparr>fs_mode := (fs_mode fs3)(addr := 384)\<rparr>))"

subsection \<open>What is enforced\<close>

record posture =
  po_sandbox :: bool
  po_seccomp :: bool
  po_limits :: bool
  po_settings :: settings
  po_uid :: int
  po_euid :: int
  po_user :: "string option"

datatype warning =
    WNoSandbox
  | WNoSeccomp
  | WNoLimits
  | WAuthOffRoutable string
  | WAuthOffLocal string
  | WRoot

record enforcement_report =
  er_strict :: bool
  er_sandbox :: bool
  er_seccomp :: bool
  er_limits :: bool
  er_auth :: bool
  er_listen :: string
  er_user_scoped :: bool
  er_user :: string
  er_root :: bool
  er_degraded :: bool
  er_warnings :: "warning list"

definition enforcement :: "posture \<Rightarrow> enforcement_report" where
  "enforcement p =
     (let s = po_settings p; addr = se_listen_addr s; socket = is_unix_socket addr;
          user = describe_user (po_uid p) (po_euid p) (po_user p);
          root = running_as_root (po_uid p) (po_euid p)
      in \<lparr>er_strict = se_strict s, er_sandbox = po_sandbox p, er_seccomp = po_seccomp p,
          er_limits = po_limits p, er_auth = se_auth_enabled s, er_listen = addr,
          er_user_scoped = socket, er_user = user, er_root = root,
          er_degraded = (\<not> po_sandbox p \<or> \<not> po_limits p \<or> root \<or> (po_sandbox p \<and> \<not> po_seccomp p)),
          er_warnings =
            (if \<not> po_sandbox p then [WNoSandbox] else [])
            @ (if po_sandbox p \<and> \<not> po_seccomp p then [WNoSeccomp] else [])
            @ (if \<not> po_limits p then [WNoLimits] else [])
            @ (if \<not> se_auth_enabled s \<and> \<not> socket
               then (if listens_beyond_loopback addr then [WAuthOffRoutable addr] else [WAuthOffLocal user])
               else [])
            @ (if root then [WRoot] else [])\<rparr>)"

datatype missing_mechanism =
    MBubblewrap
  | MSeccomp
  | MResourceLimits
  | MUnprivilegedUser
  | MAuthOrLoopback string

text \<open>What \<^verbatim>\<open>-strict\<close> finds missing at start; the desk starts when the list is empty.\<close>

definition strict_missing :: "posture \<Rightarrow> missing_mechanism list" where
  "strict_missing p =
     (if \<not> po_sandbox p then [MBubblewrap] else [])
     @ (if po_sandbox p \<and> \<not> po_seccomp p then [MSeccomp] else [])
     @ (if \<not> po_limits p then [MResourceLimits] else [])
     @ (if running_as_root (po_uid p) (po_euid p) then [MUnprivilegedUser] else [])
     @ (if listens_beyond_loopback (se_listen_addr (po_settings p)) \<and> \<not> se_auth_enabled (po_settings p)
        then [MAuthOrLoopback (se_listen_addr (po_settings p))] else [])"

datatype startup_refusal = RNoToken | RStrict "missing_mechanism list"

definition startup_check :: "posture \<Rightarrow> startup_refusal option" where
  "startup_check p =
     (if se_auth_enabled (po_settings p) \<and> se_auth_token (po_settings p) = [] then Some RNoToken
      else if se_strict (po_settings p) \<and> strict_missing p \<noteq> [] then Some (RStrict (strict_missing p))
      else None)"

subsection \<open>Properties\<close>

text \<open>
  A strict desk that starts enforces everything it reports. When the start-up check passes
  under \<^verbatim>\<open>-strict\<close>, the sandbox, the syscall filter and the caps are on, tools do not run as
  root, the report is not degraded, no one reaches the desk from another machine without the
  token, and the only warning the report can hold is that local accounts may submit. Without
  strictness the check only insists on a non-empty token when authentication is on.
\<close>

theorem strict_start_is_enforced:
  "startup_check p = None \<longleftrightarrow>
     (se_auth_enabled (po_settings p) \<longrightarrow> se_auth_token (po_settings p) \<noteq> [])
   \<and> (se_strict (po_settings p) \<longrightarrow>
        \<not> er_degraded (enforcement p) \<and> po_sandbox p \<and> po_seccomp p \<and> po_limits p
        \<and> set (er_warnings (enforcement p)) \<subseteq> {WAuthOffLocal (er_user (enforcement p))}
        \<and> (se_auth_enabled (po_settings p) \<or> \<not> listens_beyond_loopback (er_listen (enforcement p))))"
  by (auto simp: startup_check_def strict_missing_def enforcement_def Let_def)

lemma strict_start_is_enforced_witness:
  "startup_check \<lparr>po_sandbox = True, po_seccomp = True, po_limits = True,
     po_settings = \<lparr>se_auth_enabled = False, se_auth_token = [], se_strict = True,
       se_listen_addr = ''/run/desk.sock'', se_store_kind = [], se_sqlite_path = [],
       se_postgres_dsn = [], se_job_memory_max = ''512M'', se_job_tasks_max = 64\<rparr>,
     po_uid = 1000, po_euid = 1000, po_user = Some ''op''\<rparr> = None"
  by (subst strict_start_is_enforced)
     (simp add: enforcement_def Let_def running_as_root_def is_unix_socket_def
        listens_beyond_loopback_def has_prefix_def)

text \<open>
  Opening a unix socket is safe for everything else on disk and leaves it private. A
  listener that is returned has mode 0600, whatever the kernel does with the umask; an error
  leaves no socket of this call behind; in both cases the umask is restored, no other path
  changes, and a path that names anything but a socket is refused and stays as it was.
\<close>

theorem listen_private_and_safe:
  assumes "is_unix_socket addr" "listen sf addr fs = (r, fs')"
  shows "fs_umask fs' = fs_umask fs
    \<and> (\<forall>p. p \<noteq> addr \<longrightarrow> fs_kind fs' p = fs_kind fs p \<and> fs_mode fs' p = fs_mode fs p)
    \<and> (case r of
         Inr l \<Rightarrow> l = UnixListener addr \<and> fs_kind fs' addr = Some KSocket \<and> fs_mode fs' addr = 384
       | Inl e \<Rightarrow> fs_kind fs' addr = fs_kind fs addr \<or> fs_kind fs' addr = None)
    \<and> (\<forall>k. fs_kind fs addr = Some k \<longrightarrow> k \<noteq> KSocket \<longrightarrow> r = Inl (NotASocket addr) \<and> fs' = fs)"
proof (cases "remove_stale sf addr fs")
  case (Inl e)
  then show ?thesis using assms
    by (auto simp: listen_def remove_stale_def split: option.splits if_splits)
next
  case (Inr fs1)
  then have f: "fs_umask fs1 = fs_umask fs" "fs_mode fs1 = fs_mode fs" "fs_kind fs1 addr = None"
    "\<And>p. p \<noteq> addr \<Longrightarrow> fs_kind fs1 p = fs_kind fs p"
    "fs_kind fs addr = None \<or> fs_kind fs addr = Some KSocket"
    by (auto simp: remove_stale_def split: option.splits if_splits)
  show ?thesis
    using assms f by (auto simp: listen_def Inr bind_socket_def Let_def split: if_splits)
qed

lemma listen_private_and_safe_witness:
  "fs_mode (snd (listen \<lparr>sf_remove_fails = False, sf_bind_fails = False, sf_chmod_fails = False,
       sf_umask_honoured = False\<rparr> ''/run/desk.sock''
       \<lparr>fs_kind = (\<lambda>p. None), fs_mode = (\<lambda>p. 0), fs_umask = 18\<rparr>)) ''/run/desk.sock'' = 384"
proof -
  let ?sf = "\<lparr>sf_remove_fails = False, sf_bind_fails = False, sf_chmod_fails = False,
       sf_umask_honoured = False\<rparr>"
  let ?fs = "\<lparr>fs_kind = (\<lambda>p. None), fs_mode = (\<lambda>p. 0), fs_umask = 18\<rparr>"
  have u: "is_unix_socket ''/run/desk.sock''" by (simp add: is_unix_socket_def has_prefix_def)
  obtain r fs' where l: "listen ?sf ''/run/desk.sock'' ?fs = (r, fs')" by fastforce
  have "\<exists>x. r = Inr x"
    using l u by (auto simp: listen_def remove_stale_def bind_socket_def split: if_splits)
  with listen_private_and_safe[OF u l] l show ?thesis by auto
qed

subsection \<open>Loopback addresses\<close>

lemma contains_char: "contains s [c] \<longleftrightarrow> c \<in> set s"
  by (simp add: contains_iff in_set_conv_decomp)

lemma has_prefix_char: "has_prefix s [c] \<Longrightarrow> c \<in> set s"
  by (auto simp: has_prefix_iff)

lemma nat_str_first:
  assumes "10 \<le> n"
  shows "hd (nat_str n) \<noteq> CHR ''0''"
  using assms
proof (induction n rule: less_induct)
  case (less n)
  have s: "nat_str n = nat_str (n div 10) @ [digit_char (n mod 10)]"
    using less.prems by (simp add: nat_str.simps[of n])
  have h: "hd (nat_str n) = hd (nat_str (n div 10))"
    using nat_str_digits[of "n div 10"] unfolding s by simp
  show ?case
  proof (cases "n div 10 < 10")
    case True
    have "0 < n div 10" using less.prems by simp
    moreover have "nat_str (n div 10) = [digit_char (n div 10)]"
      using True by (simp add: nat_str.simps[of "n div 10"])
    moreover have "digit_val (digit_char (n div 10)) = n div 10" using True by simp
    moreover have "digit_val (CHR ''0'') = 0" by (simp add: digit_val_def)
    ultimately show ?thesis unfolding h by auto
  next
    case False
    with less show ?thesis unfolding h by simp
  qed
qed

lemma octet_nat_str: "n \<le> 255 \<Longrightarrow> octet_ok (nat_str n)"
proof (cases "n < 10")
  case True
  have "nat_str n = ''0'' \<or> hd (nat_str n) \<noteq> CHR ''0''"
  proof (cases "n = 0")
    case True
    then show ?thesis by (simp add: nat_str.simps[of 0] digit_char_def)
  next
    case False
    have "digit_val (digit_char n) = n" using True by simp
    moreover have "digit_val (CHR ''0'') = 0" by (simp add: digit_val_def)
    ultimately have "digit_char n \<noteq> CHR ''0''" using False by auto
    then show ?thesis using True by (simp add: nat_str.simps[of n])
  qed
  moreover assume "n \<le> 255"
  ultimately show ?thesis using nat_str_digits[of n] by (simp add: octet_ok_def)
next
  case False
  moreover assume "n \<le> 255"
  ultimately show ?thesis using nat_str_digits[of n] nat_str_first[of n] by (simp add: octet_ok_def)
qed

definition dotted :: "nat \<Rightarrow> nat \<Rightarrow> nat \<Rightarrow> nat \<Rightarrow> string" where
  "dotted a b c d = join_with ''.'' [nat_str a, nat_str b, nat_str c, nat_str d]"

lemma digits_no: "c \<in> set (nat_str n) \<Longrightarrow> is_digit c"
  using nat_str_digits[of n] by (simp add: list_all_iff)

lemma dotted_chars: "x \<in> set (dotted a b c d) \<Longrightarrow> is_digit x \<or> x = CHR ''.''"
  by (auto simp: dotted_def dest: digits_no)

lemma parse_dotted:
  assumes "a \<le> 255" "b \<le> 255" "c \<le> 255" "d \<le> 255"
  shows "parse_ip (dotted a b c d) = Some (ipv4_mapped [a, b, c, d])"
proof -
  have "split_on (CHR ''.'') (dotted a b c d) = [nat_str a, nat_str b, nat_str c, nat_str d]"
    unfolding dotted_def by (rule split_join_on) (auto dest!: digits_no simp: is_digit_def)
  then have 4: "parse_ipv4 (dotted a b c d) = Some [a, b, c, d]"
    using assms nat_str_digits by (simp add: parse_ipv4_def octet_nat_str)
  have "CHR ''%'' \<notin> set (dotted a b c d)" "CHR '':'' \<notin> set (dotted a b c d)"
    by (auto dest!: dotted_chars simp: is_digit_def)
  moreover have "\<exists>r. dropWhile (\<lambda>x. x \<noteq> CHR ''.'' \<and> x \<noteq> CHR '':'') (dotted a b c d) = CHR ''.'' # r"
  proof -
    have "\<forall>x\<in>set (nat_str a). x \<noteq> CHR ''.'' \<and> x \<noteq> CHR '':''"
      by (auto dest!: digits_no simp: is_digit_def)
    then show ?thesis by (simp add: dotted_def dropWhile_append2)
  qed
  ultimately show ?thesis using 4 by (auto simp: parse_ip_def)
qed

text \<open>
  Whether an IPv4 listen address is taken as reachable from other machines: for every
  address of four octets and every port text, exactly when the first octet is not 127.
\<close>

theorem ipv4_beyond_loopback_iff:
  assumes "a \<le> 255" "b \<le> 255" "c \<le> 255" "d \<le> 255" "list_all is_digit port"
  shows "listens_beyond_loopback (dotted a b c d @ '':'' @ port) \<longleftrightarrow> a \<noteq> 127"
proof -
  let ?s = "dotted a b c d @ '':'' @ port"
  have chars: "x \<in> set ?s \<Longrightarrow> is_digit x \<or> x = CHR ''.'' \<or> x = CHR '':''" for x
    using assms(5) by (auto simp: list_all_iff dest: dotted_chars)
  have colon: "CHR '':'' \<notin> set (dotted a b c d)" "CHR '':'' \<notin> set port"
    using assms(5) by (auto simp: list_all_iff is_digit_def dest!: dotted_chars)
  have no: "CHR ''['' \<notin> set ?s" "CHR '']'' \<notin> set ?s" "CHR ''/'' \<notin> set ?s"
    using chars[of "CHR ''[''"] chars[of "CHR '']''"] chars[of "CHR ''/''"]
    by (auto simp: is_digit_def)
  have u: "\<not> is_unix_socket ?s" using no(3) by (simp add: is_unix_socket_def contains_char)
  have p: "\<not> has_prefix ?s ''[''" using no(1) has_prefix_char by blast
  have "cut_char (rev ?s) (CHR '':'') = Some (rev port, rev (dotted a b c d))"
    using cut_char_append[of "CHR '':''" "rev port" "rev (dotted a b c d)"] colon(2) by simp
  then have sp: "split_host_port ?s = Some (dotted a b c d, port)"
    using colon no p by (simp add: split_host_port_def cut_last_colon_def)
  have "dotted a b c d \<noteq> []" by (simp add: dotted_def)
  moreover have "dotted a b c d \<noteq> ''localhost''"
  proof
    assume "dotted a b c d = ''localhost''"
    then have "CHR ''l'' \<in> set (dotted a b c d)" by simp
    from dotted_chars[OF this] show False by (simp add: is_digit_def)
  qed
  ultimately show ?thesis
    using parse_dotted[OF assms(1-4)] u sp
    by (auto simp: listens_beyond_loopback_def is_unspecified_def is_loopback_def ipv4_mapped_def
        numeral_eq_Suc)
qed

lemma ipv4_beyond_loopback_iff_witness:
  "\<not> listens_beyond_loopback (dotted 127 0 0 1 @ '':'' @ ''8080'')"
  using ipv4_beyond_loopback_iff[of 127 0 0 1 "''8080''"] by (simp add: is_digit_def)

end
