(* ===== verification/Seccomp.thy ===== *)
theory Seccomp
  imports Executor Posture
begin

text \<open>
  The syscall filter, \<^verbatim>\<open>cmd/agent-desk/seccomp.go\<close>, and the start-up probes that decide the
  posture of a desk (\<^verbatim>\<open>hasBwrap\<close>, \<^verbatim>\<open>canScopeJobs\<close> in \<^verbatim>\<open>executor.go\<close>, \<^verbatim>\<open>probeSeccomp\<close>, and their
  order in \<^verbatim>\<open>main\<close>). The assembler of the filter is third-party code: it stands as a function
  from a policy to raw instructions, next to the table of system calls of the architecture.
\<close>

subsection \<open>The denied system calls\<close>

definition denied_syscalls :: "string list" where
  "denied_syscalls =
     [''ptrace'', ''process_vm_readv'', ''process_vm_writev'', ''kcmp'',
      ''bpf'', ''perf_event_open'', ''init_module'', ''finit_module'', ''delete_module'',
      ''keyctl'', ''add_key'', ''request_key'',
      ''mount'', ''umount'', ''umount2'', ''pivot_root'', ''chroot'',
      ''move_mount'', ''open_tree'', ''fsopen'', ''fsconfig'', ''fsmount'', ''mount_setattr'',
      ''swapon'', ''swapoff'',
      ''reboot'', ''kexec_load'', ''kexec_file_load'',
      ''clock_settime'', ''clock_settime64'', ''clock_adjtime'', ''clock_adjtime64'',
      ''settimeofday'', ''adjtimex'', ''sethostname'', ''setdomainname'',
      ''acct'', ''quotactl'', ''_sysctl'', ''setns'']"

datatype seccomp_action = ActAllow | ActErrno

record policy =
  pl_default :: seccomp_action
  pl_groups :: "(string list \<times> seccomp_action) list"

text \<open>What a policy makes of a call: the action of the first group that names it.\<close>

definition policy_action :: "policy \<Rightarrow> string \<Rightarrow> seccomp_action" where
  "policy_action p c =
     (case find (\<lambda>(ns, a). c \<in> set ns) (pl_groups p) of None \<Rightarrow> pl_default p | Some (ns, a) \<Rightarrow> a)"

subsection \<open>The wire format\<close>

record raw_ins =
  ri_op :: "16 word"
  ri_jt :: "8 word"
  ri_jf :: "8 word"
  ri_k :: "32 word"

text \<open>The bytes of a number, lowest first; a machine stores them so or in reverse.\<close>

definition bytes16 :: "16 word \<Rightarrow> 8 word list" where
  "bytes16 w = [ucast w, ucast (drop_bit 8 w)]"

definition bytes32 :: "32 word \<Rightarrow> 8 word list" where
  "bytes32 w = [ucast w, ucast (drop_bit 8 w), ucast (drop_bit 16 w), ucast (drop_bit 24 w)]"

definition native :: "bool \<Rightarrow> 8 word list \<Rightarrow> 8 word list" where
  "native little bs = (if little then bs else rev bs)"

definition serialize_ins :: "bool \<Rightarrow> raw_ins \<Rightarrow> 8 word list" where
  "serialize_ins little i =
     native little (bytes16 (ri_op i)) @ [ri_jt i, ri_jf i] @ native little (bytes32 (ri_k i))"

definition serialize_filter :: "bool \<Rightarrow> raw_ins list \<Rightarrow> 8 word list" where
  "serialize_filter little is = concat (map (serialize_ins little) is)"

text \<open>How the kernel of that machine reads an array of \<^verbatim>\<open>struct sock_filter\<close>.\<close>

definition word16_of :: "8 word list \<Rightarrow> 16 word" where
  "word16_of bs = ucast (bs ! 0) OR push_bit 8 (ucast (bs ! 1))"

definition word32_of :: "8 word list \<Rightarrow> 32 word" where
  "word32_of bs = ucast (bs ! 0) OR push_bit 8 (ucast (bs ! 1))
     OR push_bit 16 (ucast (bs ! 2)) OR push_bit 24 (ucast (bs ! 3))"

definition read_ins :: "bool \<Rightarrow> 8 word list \<Rightarrow> raw_ins" where
  "read_ins little bs =
     \<lparr>ri_op = word16_of (native little (take 2 bs)), ri_jt = bs ! 2, ri_jf = bs ! 3,
      ri_k = word32_of (native little (take 4 (drop 4 bs)))\<rparr>"

fun read_filter :: "bool \<Rightarrow> nat \<Rightarrow> 8 word list \<Rightarrow> raw_ins list option" where
  "read_filter little 0 bs = (if bs = [] then Some [] else None)"
| "read_filter little (Suc n) bs =
     (if length bs < 8 then None
      else map_option (\<lambda>is. read_ins little (take 8 bs) # is) (read_filter little n (drop 8 bs)))"

subsection \<open>Building the filter\<close>

datatype filter_error = UnknownArch | NoDeniedSyscall | AssembleFailed

definition present_syscalls :: "(string \<Rightarrow> bool) \<Rightarrow> string list" where
  "present_syscalls known = filter known denied_syscalls"

definition desk_policy :: "string list \<Rightarrow> policy" where
  "desk_policy names = \<lparr>pl_default = ActAllow, pl_groups = [(names, ActErrno)]\<rparr>"

definition build_seccomp_program ::
    "(string \<Rightarrow> bool) option \<Rightarrow> (policy \<Rightarrow> raw_ins list option) \<Rightarrow> bool
     \<Rightarrow> (filter_error, 8 word list) result" where
  "build_seccomp_program arch assemble little =
     (case arch of
        None \<Rightarrow> Inl UnknownArch
      | Some known \<Rightarrow>
          if present_syscalls known = [] then Inl NoDeniedSyscall
          else case assemble (desk_policy (present_syscalls known)) of
                 None \<Rightarrow> Inl AssembleFailed
               | Some raw \<Rightarrow> Inr (serialize_filter little raw))"

subsection \<open>Start-up probes\<close>

definition has_bwrap :: "(string \<Rightarrow> (string, string) result) \<Rightarrow> bool" where
  "has_bwrap look = is_ok (look ''bwrap'')"

text \<open>\<open>runs\<close> says whether a command line ran and exited with zero.\<close>

definition can_scope_jobs ::
    "(string \<Rightarrow> (string, string) result) \<Rightarrow> (string list \<Rightarrow> bool) \<Rightarrow> bool" where
  "can_scope_jobs look runs =
     (is_ok (look ''systemd-run'')
      \<and> runs [''systemd-run'', ''--user'', ''--scope'', ''--quiet'', ''-p'', ''MemoryMax=16M'', ''--'', ''/bin/true''])"

definition empty_tool :: tool where
  "empty_tool =
     \<lparr>tl_name = [], tl_summary = [], tl_input = None, tl_output = [],
      tl_effects = \<lparr>se_files = None, se_network = False\<rparr>, tl_sandbox = \<lparr>sb_in = [], sb_out = []\<rparr>,
      tl_integrity = \<lparr>run_sha256 = [], interpreter_sha256 = []\<rparr>,
      tl_exec = \<lparr>ex_mode = [], ex_max_retries = 0, ex_timeout_ms = 0\<rparr>,
      tl_dir = [], tl_run_path = [], tl_raw = []\<rparr>"

text \<open>
  \<^verbatim>\<open>seccompPipe\<close>: what the read end that is handed on will give, and how many ends stay open. Each
  call may fail, and then both ends are closed.
\<close>

record pipe_faults =
  pp_open :: bool
  pp_write :: bool
  pp_close :: bool

definition seccomp_pipe :: "pipe_faults \<Rightarrow> 8 word list \<Rightarrow> 8 word list option \<times> nat" where
  "seccomp_pipe pp program =
     (if pp_open pp then (None, 0)
      else if pp_write pp then (None, 0)
      else if pp_close pp then (None, 0)
      else (Some program, 1))"

text \<open>
  The probe of the filter: the two temporary directories and the input file it makes may fail,
  as may the pipe; then the real command line is run on \<^verbatim>\<open>/bin/true\<close>.
\<close>

definition probe_args ::
    "os_env \<Rightarrow> (string \<Rightarrow> (string, string) result) \<Rightarrow> settings \<Rightarrow> bool \<Rightarrow> string \<Rightarrow> string \<Rightarrow> string \<Rightarrow> string list option" where
  "probe_args env look s limits bw in_dir out_dir =
     (case sandbox_args env bw empty_tool in_dir out_dir in_dir [] of
        Inl e \<Rightarrow> None
      | Inr args \<Rightarrow>
          Some (wrap_with_resource_limits look (with_seccomp_flag args 3 @ [''/bin/true'']) s limits))"

definition probe_seccomp ::
    "os_env \<Rightarrow> (string \<Rightarrow> (string, string) result) \<Rightarrow> (string list \<Rightarrow> bool) \<Rightarrow> settings \<Rightarrow> bool
     \<Rightarrow> string option \<Rightarrow> string option \<Rightarrow> bool \<Rightarrow> bool \<Rightarrow> bool" where
  "probe_seccomp env look runs s limits in_dir out_dir input_ok pipe_ok =
     (case (look ''bwrap'', in_dir, out_dir) of
        (Inr bw, Some i, Some out) \<Rightarrow>
          input_ok \<and> (case probe_args env look s limits bw i out of None \<Rightarrow> False
                      | Some args \<Rightarrow> pipe_ok \<and> runs args)
      | _ \<Rightarrow> False)"

text \<open>The order in \<^verbatim>\<open>main\<close>: the filter is only built and probed when there is a sandbox.\<close>

definition startup_posture ::
    "(string \<Rightarrow> (string, string) result) \<Rightarrow> bool \<Rightarrow> (filter_error, 8 word list) result
     \<Rightarrow> (8 word list \<Rightarrow> bool) \<Rightarrow> settings \<Rightarrow> int \<Rightarrow> int \<Rightarrow> string option \<Rightarrow> posture \<times> 8 word list" where
  "startup_posture look limits prog probe s uid euid name =
     (let sandbox = has_bwrap look;
          (seccomp, bytes) =
            (if \<not> sandbox then (False, [])
             else case prog of Inl e \<Rightarrow> (False, []) | Inr b \<Rightarrow> if probe b then (True, b) else (False, []))
      in (\<lparr>po_sandbox = sandbox, po_seccomp = seccomp, po_limits = limits, po_settings = s,
           po_uid = uid, po_euid = euid, po_user = name\<rparr>, bytes))"

subsection \<open>Properties\<close>

lemma word16_bytes: "word16_of (bytes16 w) = w"
  by (rule bit_word_eqI) (auto simp: word16_of_def bytes16_def bit_simps)

lemma word32_bytes: "word32_of (bytes32 w) = w"
proof (rule bit_word_eqI)
  fix n assume n: "n < LENGTH(32)"
  consider "n < 8" | "8 \<le> n" "n < 16" | "16 \<le> n" "n < 24" | "24 \<le> n" by linarith
  then show "bit (word32_of (bytes32 w)) n = bit w n"
    using n by cases (auto simp: word32_of_def bytes32_def bit_simps)
qed

lemma native_native: "native l (native l bs) = bs"
  by (simp add: native_def)

lemma serialize_ins_length: "length (serialize_ins l i) = 8"
  by (simp add: serialize_ins_def native_def bytes16_def bytes32_def)

lemma read_serialize_ins: "read_ins l (serialize_ins l i) = i"
proof -
  have n: "length (native l (bytes16 w)) = 2" "length (native l (bytes32 v)) = 4" for w v
    by (simp_all add: native_def bytes16_def bytes32_def)
  then have "take 2 (serialize_ins l i) = native l (bytes16 (ri_op i))"
    "take 4 (drop 4 (serialize_ins l i)) = native l (bytes32 (ri_k i))"
    "serialize_ins l i ! 2 = ri_jt i" "serialize_ins l i ! 3 = ri_jf i"
    by (simp_all add: serialize_ins_def nth_append)
  then show ?thesis by (simp add: read_ins_def native_native word16_bytes word32_bytes)
qed

lemma read_serialize_filter: "read_filter l (length is) (serialize_filter l is) = Some is"
proof (induction "is")
  case Nil
  show ?case by (simp add: serialize_filter_def)
next
  case (Cons i js)
  have "serialize_filter l (i # js) = serialize_ins l i @ serialize_filter l js"
    by (simp add: serialize_filter_def)
  with Cons.IH show ?case by (simp add: serialize_ins_length read_serialize_ins)
qed

text \<open>
  C30: The filter that reaches bubblewrap is the assembled denylist. When a program is built, it
  is read back by the kernel of the same machine, as eight-byte records, as exactly the
  instructions the assembler made of a policy; that policy refuses every denied call that the
  architecture has, allows every other call and names none the architecture lacks.
\<close>

theorem seccomp_program_is_denylist:
  assumes "build_seccomp_program (Some known) assemble little = Inr bytes"
  shows "\<exists>p raw. assemble p = Some raw \<and> length bytes = 8 * length raw
    \<and> read_filter little (length raw) bytes = Some raw
    \<and> (\<forall>c. policy_action p c = (if c \<in> set denied_syscalls \<and> known c then ActErrno else ActAllow))
    \<and> (\<forall>(ns, a)\<in>set (pl_groups p). ns \<noteq> [] \<and> (\<forall>c\<in>set ns. known c))"
proof -
  let ?p = "desk_policy (present_syscalls known)"
  from assms obtain raw where raw: "assemble ?p = Some raw" "bytes = serialize_filter little raw"
    "present_syscalls known \<noteq> []"
    by (auto simp: build_seccomp_program_def split: if_splits option.splits)
  have "length (serialize_filter little raw) = 8 * length raw"
    by (induction raw) (simp_all add: serialize_filter_def serialize_ins_length)
  with raw read_serialize_filter[of little raw] show ?thesis
    by (intro exI[of _ ?p] exI[of _ raw])
       (auto simp: desk_policy_def policy_action_def present_syscalls_def)
qed

lemma seccomp_program_is_denylist_witness:
  "\<exists>p raw. read_filter True (length raw) (serialize_ins True \<lparr>ri_op = 6, ri_jt = 0, ri_jf = 0, ri_k = 2147418112\<rparr>)
       = Some raw \<and> policy_action p ''ptrace'' = ActErrno \<and> policy_action p ''mount'' = ActAllow"
proof -
  let ?i = "\<lparr>ri_op = 6, ri_jt = 0, ri_jf = 0, ri_k = 2147418112\<rparr> :: raw_ins"
  have p: "present_syscalls (\<lambda>n. n = ''ptrace'') = [''ptrace'']"
    by (simp add: present_syscalls_def denied_syscalls_def)
  have "build_seccomp_program (Some (\<lambda>n. n = ''ptrace'')) (\<lambda>p. Some [?i]) True = Inr (serialize_ins True ?i)"
    by (simp add: build_seccomp_program_def p serialize_filter_def)
  from seccomp_program_is_denylist[OF this] obtain p raw where
    "read_filter True (length raw) (serialize_ins True ?i) = Some raw"
    "\<forall>c. policy_action p c = (if c \<in> set denied_syscalls \<and> c = ''ptrace'' then ActErrno else ActAllow)"
    by blast
  moreover have "''ptrace'' \<in> set denied_syscalls" by (simp add: denied_syscalls_def)
  ultimately show ?thesis by (intro exI[of _ p] exI[of _ raw]) simp
qed

text \<open>
  What a strict desk has probed. When the probes of a strict desk let it start, bubblewrap
  and \<^verbatim>\<open>systemd-run\<close> were found, and the filter that jobs will get is a program that was built
  and passed its probe.
\<close>

theorem strict_start_was_probed:
  assumes "startup_posture look (can_scope_jobs look runs) prog probe s uid euid name = (p, bytes)"
    and "startup_check p = None" "se_strict s"
  shows "is_ok (look ''bwrap'') \<and> is_ok (look ''systemd-run'') \<and> prog = Inr bytes \<and> probe bytes"
  using assms
  by (auto simp: startup_posture_def startup_check_def strict_missing_def has_bwrap_def
      can_scope_jobs_def Let_def split: if_splits sum.splits)

lemma strict_start_was_probed_witness:
  "is_ok ((\<lambda>n. Inr n) ''bwrap'' :: (string, string) result) \<and> (Inr [6] :: (filter_error, 8 word list) result) = Inr [6]"
proof -
  let ?s = "\<lparr>se_auth_enabled = True, se_auth_token = ''t'', se_strict = True, se_listen_addr = ''127.0.0.1:8080'',
    se_store_kind = [], se_sqlite_path = [], se_postgres_dsn = [], se_job_memory_max = ''512M'',
    se_job_tasks_max = 64\<rparr>"
  obtain p bytes where p: "startup_posture (\<lambda>n. Inr n) (can_scope_jobs (\<lambda>n. Inr n) (\<lambda>a. True)) (Inr [6])
      (\<lambda>b. True) ?s 1000 1000 None = (p, bytes)" by fastforce
  then have "p = \<lparr>po_sandbox = True, po_seccomp = True, po_limits = True, po_settings = ?s,
       po_uid = 1000, po_euid = 1000, po_user = None\<rparr>"
    by (simp add: startup_posture_def has_bwrap_def can_scope_jobs_def)
  then have "startup_check p = None"
    by (simp add: startup_check_def strict_missing_def running_as_root_def)
  from strict_start_was_probed[OF p this] show ?thesis by simp
qed

end
