(* ===== verification/Durations.thy ===== *)
theory Durations
  imports Go_Paths
begin

text \<open>
  \<^verbatim>\<open>time.ParseDuration\<close>, which reads the waits that a request asks for: a sign, then numbers
  with a unit each. The whole part is exact in 64 bits with the library's overflow checks; a
  fraction goes through \<^verbatim>\<open>float64\<close>, so the rounding of the library is written out.
\<close>

subsection \<open>Rounding to 53 bits\<close>

fun bits :: "nat \<Rightarrow> nat" where
  "bits n = (if n = 0 then 0 else Suc (bits (n div 2)))"

declare bits.simps [simp del]

text \<open>The scale \<open>2^e\<close> with \<open>2^52 \<le> a / b * 2^e < 2^53\<close> for a positive \<open>a / b\<close>, then half to even.\<close>

definition scaled :: "nat \<Rightarrow> nat \<Rightarrow> int \<Rightarrow> nat \<times> nat" where
  "scaled a b e = (if 0 \<le> e then (a * 2 ^ nat e, b) else (a, b * 2 ^ nat (- e)))"

definition half_even :: "nat \<Rightarrow> nat \<Rightarrow> nat" where
  "half_even a b =
     (let n = a div b; r = a mod b in if 2 * r < b \<or> 2 * r = b \<and> even n then n else n + 1)"

text \<open>\<^verbatim>\<open>float64\<close> of the fraction \<open>a / b\<close>, as a fraction again.\<close>

definition round_f64 :: "nat \<times> nat \<Rightarrow> nat \<times> nat" where
  "round_f64 q =
     (case q of (a, b) \<Rightarrow>
        if a = 0 then (0, 1)
        else let k = int (bits a) - int (bits b);
                 e0 = 52 - k;
                 (a0, b0) = scaled a b e0;
                 e = (if a0 < b0 * 2 ^ 52 then e0 + 1 else e0);
                 (a1, b1) = scaled a b e
             in scaled (half_even a1 b1) 1 (- e))"

definition f64_div :: "nat \<Rightarrow> nat \<Rightarrow> nat \<times> nat" where
  "f64_div a b = round_f64 (a, b)"

definition f64_mul :: "nat \<times> nat \<Rightarrow> nat \<times> nat \<Rightarrow> nat \<times> nat" where
  "f64_mul p q = round_f64 (fst p * fst q, snd p * snd q)"

subsection \<open>Parsing\<close>

text \<open>\<^verbatim>\<open>leadingInt\<close>: \<open>None\<close> is an overflow.\<close>

fun leading_int :: "nat \<Rightarrow> string \<Rightarrow> (nat \<times> string) option" where
  "leading_int x [] = Some (x, [])"
| "leading_int x (c # cs) =
     (if \<not> is_digit c then Some (x, c # cs)
      else if x > 2 ^ 63 div 10 then None
      else let y = x * 10 + digit_val c in if y > 2 ^ 63 then None else leading_int y cs)"

text \<open>\<^verbatim>\<open>leadingFraction\<close>: the digits, the scale and the rest; digits that overflow are dropped.\<close>

fun leading_fraction :: "nat \<Rightarrow> nat \<Rightarrow> bool \<Rightarrow> string \<Rightarrow> nat \<times> nat \<times> string" where
  "leading_fraction x scale over [] = (x, scale, [])"
| "leading_fraction x scale over (c # cs) =
     (if \<not> is_digit c then (x, scale, c # cs)
      else if over \<or> x > (2 ^ 63 - 1) div 10 then leading_fraction x scale True cs
      else let y = x * 10 + digit_val c in
        if y > 2 ^ 63 then leading_fraction x scale True cs
        else leading_fraction y (scale * 10) over cs)"

definition unit_ns :: "string \<Rightarrow> nat option" where
  "unit_ns u =
     (if u = ''ns'' then Some 1
      else if u = ''us'' \<or> u = [CHR 0xC2, CHR 0xB5, CHR ''s''] \<or> u = [CHR 0xCE, CHR 0xBC, CHR ''s'']
      then Some 1000
      else if u = ''ms'' then Some 1000000
      else if u = ''s'' then Some 1000000000
      else if u = ''m'' then Some 60000000000
      else if u = ''h'' then Some 3600000000000
      else None)"

definition unit_char :: "char \<Rightarrow> bool" where
  "unit_char c \<longleftrightarrow> c \<noteq> CHR ''.'' \<and> \<not> is_digit c"

text \<open>The fraction of a unit in whole nanoseconds.\<close>

definition fraction_ns :: "nat \<Rightarrow> nat \<Rightarrow> nat \<Rightarrow> nat" where
  "fraction_ns f scale unit =
     (let (a, b) = f64_mul (f64_div f 1) (f64_div unit scale) in a div b)"

text \<open>One number with its unit: its nanoseconds and what follows.\<close>

definition parse_term :: "string \<Rightarrow> (nat \<times> string) option" where
  "parse_term s =
     (case s of
        [] \<Rightarrow> None
      | c # _ \<Rightarrow>
          if c \<noteq> CHR ''.'' \<and> \<not> is_digit c then None
          else case leading_int 0 s of
                 None \<Rightarrow> None
               | Some (v, s1) \<Rightarrow>
                   (let pre = (length s1 \<noteq> length s);
                        (f, scale, s2, post) =
                          (case s1 of
                             d # s1' \<Rightarrow>
                               if d = CHR ''.'' then
                                 (let (f, scale, r) = leading_fraction 0 1 False s1'
                                  in (f, scale, r, length r \<noteq> length s1'))
                               else (0, 1, s1, False)
                           | [] \<Rightarrow> (0, 1, s1, False));
                        u = takeWhile unit_char s2; s3 = dropWhile unit_char s2
                    in if \<not> pre \<and> \<not> post then None
                       else if u = [] then None
                       else case unit_ns u of
                              None \<Rightarrow> None
                            | Some unit \<Rightarrow>
                                if v > 2 ^ 63 div unit then None
                                else let v1 = v * unit; v2 = (if f > 0 then v1 + fraction_ns f scale unit else v1)
                                  in if f > 0 \<and> v2 > 2 ^ 63 then None else Some (v2, s3)))"

lemma leading_int_length: "leading_int x s = Some (v, r) \<Longrightarrow> length r \<le> length s"
  by (induction x s rule: leading_int.induct) (auto simp: Let_def split: if_splits)

lemma leading_fraction_length: "leading_fraction x scale over s = (f, k, r) \<Longrightarrow> length r \<le> length s"
  by (induction x scale over s rule: leading_fraction.induct) (fastforce simp: Let_def split: if_splits)+

lemma rest_shorter: "takeWhile P s \<noteq> [] \<Longrightarrow> length (dropWhile P s) < length s"
  by (cases s) (auto simp: le_imp_less_Suc length_dropWhile_le split: if_splits)

lemma parse_term_shorter:
  assumes "parse_term s = Some (v, rest)"
  shows "length rest < length s"
proof -
  obtain w s1 where l: "leading_int 0 s = Some (w, s1)"
    using assms by (auto simp: parse_term_def split: list.splits if_splits option.splits)
  let ?s2 = "case s1 of [] \<Rightarrow> s1 | d # r \<Rightarrow> if d = CHR ''.'' then snd (snd (leading_fraction 0 1 False r)) else s1"
  have "takeWhile unit_char ?s2 \<noteq> [] \<and> rest = dropWhile unit_char ?s2"
    using assms l unfolding parse_term_def
    by (cases s1) (auto simp: Let_def split: list.splits if_splits option.splits prod.splits)
  moreover have "length ?s2 \<le> length s1"
    using leading_fraction_length[of 0 1 False "tl s1"]
    by (cases s1; cases "leading_fraction 0 1 False (tl s1)") (auto simp: le_SucI)
  ultimately have s2: "takeWhile unit_char ?s2 \<noteq> []" "rest = dropWhile unit_char ?s2" "length ?s2 \<le> length s1"
    by blast+
  from rest_shorter[OF s2(1)] s2(2,3) leading_int_length[OF l] show ?thesis by simp
qed

text \<open>The sum of the terms, in unsigned 64-bit arithmetic; each term takes at least one byte.\<close>

function parse_terms :: "nat \<Rightarrow> string \<Rightarrow> nat option" where
  "parse_terms d [] = Some d"
| "parse_terms d (c # cs) =
     (case parse_term (c # cs) of
        None \<Rightarrow> None
      | Some (v, rest) \<Rightarrow>
          let d' = (d + v) mod 2 ^ 64 in
          if d' > 2 ^ 63 then None else parse_terms d' rest)"
  by pat_completeness auto

termination
  by (relation "measure (\<lambda>(d, s). length s)") (auto dest: parse_term_shorter)

definition cut_sign :: "string \<Rightarrow> bool \<times> string" where
  "cut_sign s =
     (case s of
        [] \<Rightarrow> (False, [])
      | c # cs \<Rightarrow> if c = CHR ''-'' \<or> c = CHR ''+'' then (c = CHR ''-'', cs) else (False, s))"

definition parse_duration :: "string \<Rightarrow> int option" where
  "parse_duration s =
     (case cut_sign s of (neg, t) \<Rightarrow>
        if t = ''0'' then Some 0
        else if t = [] then None
        else case parse_terms 0 t of
               None \<Rightarrow> None
             | Some d \<Rightarrow> if neg then Some (- int d) else if d > 2 ^ 63 - 1 then None else Some (int d))"

subsection \<open>Facts\<close>

lemma leading_int_digits:
  "list_all is_digit ds \<Longrightarrow> (\<forall>c\<in>set (take 1 r). \<not> is_digit c) \<Longrightarrow>
   leading_int x (ds @ r) =
     (if foldl (\<lambda>n c. 10 * n + digit_val c) x ds \<le> 2 ^ 63 \<or> ds = [] then
        Some (foldl (\<lambda>n c. 10 * n + digit_val c) x ds, r) else None)"
proof (induction ds arbitrary: x)
  case Nil
  then show ?case by (cases r) auto
next
  case (Cons c cs)
  have mono: "n \<le> foldl (\<lambda>n c. 10 * n + digit_val c) n cs" for n
  proof (induction cs arbitrary: n)
    case (Cons a as)
    from Cons[of "10 * n + digit_val a"] show ?case by simp
  qed simp
  let ?y = "10 * x + digit_val c"
  show ?case
  proof (cases "x > 2 ^ 63 div 10 \<or> ?y > 2 ^ 63")
    case True
    then have "?y > 2 ^ 63" by auto
    with mono[of ?y] have "foldl (\<lambda>n c. 10 * n + digit_val c) x (c # cs) > 2 ^ 63" by simp
    with True Cons.prems show ?thesis by (auto simp: Let_def mult.commute)
  next
    case False
    then have y: "\<not> x > 2 ^ 63 div 10" "\<not> ?y > 2 ^ 63" by auto
    have "leading_int x ((c # cs) @ r) = leading_int ?y (cs @ r)"
      using y Cons.prems(1) by (simp add: Let_def mult.commute)
    moreover have "foldl (\<lambda>n c. 10 * n + digit_val c) ?y [] \<le> 2 ^ 63" using y by simp
    ultimately show ?thesis using Cons.IH[of ?y] Cons.prems by auto
  qed
qed

lemma leading_int_nat_str:
  assumes "\<forall>c\<in>set (take 1 r). \<not> is_digit c"
  shows "leading_int 0 (nat_str n @ r) = (if n \<le> 2 ^ 63 then Some (n, r) else None)"
  using leading_int_digits[of "nat_str n" r 0] nat_str_digits[of n] assms
  by (simp add: digits_nat_def)

text \<open>A whole number of seconds is read exactly as long as it fits.\<close>

lemma parse_duration_seconds:
  "parse_duration (nat_str n @ ''s'') = (if n \<le> 9223372036 then Some (int n * 1000000000) else None)"
proof -
  have ns: "nat_str n \<noteq> []" using nat_str_digits[of n] by simp
  then obtain c cs where c: "nat_str n = c # cs" by (cases "nat_str n") auto
  then have d: "is_digit c" using nat_str_digits[of n] by simp
  then have sg: "cut_sign (nat_str n @ ''s'') = (False, nat_str n @ ''s'')"
    by (auto simp: c cut_sign_def is_digit_def)
  have s: "\<not> is_digit (CHR ''s'')" "CHR ''s'' \<noteq> CHR ''.''" "unit_char (CHR ''s'')"
    by (simp_all add: is_digit_def unit_char_def)
  have z: "nat_str n @ ''s'' \<noteq> ''0''" "nat_str n @ ''s'' \<noteq> []" by (auto simp: c)
  have l: "leading_int 0 (nat_str n @ ''s'') = (if n \<le> 2 ^ 63 then Some (n, ''s'') else None)"
    by (rule leading_int_nat_str) (simp add: s)
  have u: "unit_ns ''s'' = Some 1000000000" by (simp add: unit_ns_def)
  have "parse_term (nat_str n @ ''s'') = (if n \<le> 9223372036 then Some (n * 1000000000, []) else None)"
  proof (cases "n \<le> 2 ^ 63")
    case False
    then show ?thesis using l d by (simp add: parse_term_def c)
  next
    case True
    then show ?thesis
      using l d s u by (auto simp: parse_term_def c Let_def)
  qed
  then have "parse_terms 0 (nat_str n @ ''s'') = (if n \<le> 9223372036 then Some (n * 1000000000) else None)"
    by (auto simp: c)
  with sg z show ?thesis by (auto simp: parse_duration_def)
qed

end
