(* ===== verification/Shim.thy ===== *)
theory Shim
  imports Capped Go_Paths Go_Values
begin

text \<open>
  The adapter for foreign commands, \<^verbatim>\<open>cmd/tcs-shim/main.go\<close>: the command line it builds from
  \<^verbatim>\<open>shim.yaml\<close> and the input document, the guard against caller-supplied flags, the check of
  the templates against the contract, the cap on output and the document made of it.

  YAML and JSON decoding and running the command are arguments. Of \<^verbatim>\<open>text/template\<close> the parse
  tree is a datatype with the nodes the program looks at; parsing and rendering are arguments.
\<close>

subsection \<open>Configuration\<close>

datatype exec_elem = EText string | EObject "(string \<times> gval) list" | EOther

record shim_output =
  so_mode :: string
  so_field :: string
  so_exit_code :: bool

record shim_config =
  sc_exec :: "exec_elem list"
  sc_stdin :: string
  sc_allow_flags :: bool
  sc_success :: "int list"
  sc_max_output :: int
  sc_output :: shim_output

datatype shim_error =
    NoToolDir
  | NoShimYaml
  | BadShimYaml
  | ExecRequired
  | ModeRequired
  | UnknownMode string
  | NoContract
  | BadContractYaml
  | BadTemplate nat
  | BadStdinTemplate
  | UndeclaredField string
  | BadInput
  | BadElement nat
  | SpreadNotArray nat string
  | FlagRefused nat string
  | NoCommand
  | NotStarted string
  | TooMuchOutput string int
  | CommandFailed string string
  | OutNotJson
  | ExitCodeNeedsObject
  | ExitCodeTaken
  | NotUtf8
  | LineNotJson

definition output_modes :: "string list" where
  "output_modes = [''json'', ''raw'', ''lines'', ''jsonl'', ''base64'']"

definition load_shim_config ::
    "(string \<Rightarrow> shim_config option) \<Rightarrow> string option \<Rightarrow> (shim_error, shim_config) result" where
  "load_shim_config yaml raw =
     (case raw of
        None \<Rightarrow> Inl NoShimYaml
      | Some text \<Rightarrow>
          (case yaml text of
             None \<Rightarrow> Inl BadShimYaml
           | Some cfg \<Rightarrow>
               if sc_exec cfg = [] then Inl ExecRequired
               else if so_mode (sc_output cfg) \<in> set output_modes then Inr cfg
               else if so_mode (sc_output cfg) = [] then Inl ModeRequired
               else Inl (UnknownMode (so_mode (sc_output cfg)))))"

definition declared_input_fields ::
    "(string \<Rightarrow> string list option) \<Rightarrow> string option \<Rightarrow> (shim_error, string list) result" where
  "declared_input_fields yaml raw =
     (case raw of
        None \<Rightarrow> Inl NoContract
      | Some text \<Rightarrow> (case yaml text of None \<Rightarrow> Inl BadContractYaml | Some ks \<Rightarrow> Inr ks))"

subsection \<open>Templates\<close>

text \<open>
  An argument of a template command, a pipe of commands, and the nodes of a template. Any
  further kind of node or argument is \<open>NOther\<close> or \<open>AOther\<close>.
\<close>

datatype targ =
    AField "string list"
  | AVariable "string list"
  | ADot
  | AFunction string
  | AConst gval
  | APipe "targ list list"
  | AOther

datatype tnode =
    NText string
  | NAction "targ list list"
  | NIf "targ list list" "tnode list" "tnode list"
  | NRange "targ list list" "tnode list" "tnode list"
  | NWith "targ list list" "tnode list" "tnode list"
  | NOther

fun is_data_arg :: "targ \<Rightarrow> bool" where
  "is_data_arg (AField xs) = True"
| "is_data_arg (AVariable xs) = True"
| "is_data_arg _ = False"

definition pipe_references_field :: "targ list list \<Rightarrow> bool" where
  "pipe_references_field p \<longleftrightarrow> (\<exists>cmd\<in>set p. \<exists>a\<in>set cmd. is_data_arg a)"

fun emits_data :: "tnode \<Rightarrow> bool" where
  "emits_data (NText s) = False"
| "emits_data (NAction p) = pipe_references_field p"
| "emits_data (NIf p th el) = (list_ex emits_data th \<or> list_ex emits_data el)"
| "emits_data (NRange p b el) = True"
| "emits_data (NWith p b el) = True"
| "emits_data NOther = False"

definition interpolates_input_data :: "tnode list \<Rightarrow> bool" where
  "interpolates_input_data t \<longleftrightarrow> list_ex emits_data t"

fun arg_fields :: "targ \<Rightarrow> string list" where
  "arg_fields (AField xs) = (case xs of [] \<Rightarrow> [] | x # _ \<Rightarrow> [x])"
| "arg_fields (APipe p) = concat (map (\<lambda>c. concat (map arg_fields c)) p)"
| "arg_fields _ = []"

definition pipe_fields :: "targ list list \<Rightarrow> string list" where
  "pipe_fields p = concat (map (\<lambda>c. concat (map arg_fields c)) p)"

fun node_fields :: "tnode \<Rightarrow> string list" where
  "node_fields (NText s) = []"
| "node_fields (NAction p) = pipe_fields p"
| "node_fields (NIf p th el) = pipe_fields p @ concat (map node_fields th) @ concat (map node_fields el)"
| "node_fields (NRange p b el) = pipe_fields p @ concat (map node_fields b) @ concat (map node_fields el)"
| "node_fields (NWith p b el) = pipe_fields p @ concat (map node_fields b) @ concat (map node_fields el)"
| "node_fields NOther = []"

definition referenced_fields :: "tnode list \<Rightarrow> string list" where
  "referenced_fields t = concat (map node_fields t)"

text \<open>The parser, and rendering against an input; \<open>None\<close> is an error of either.\<close>

record template_engine =
  te_parse :: "string \<Rightarrow> tnode list option"
  te_render :: "string \<Rightarrow> schema \<Rightarrow> string option"
  te_sprint :: "gval \<Rightarrow> string"

definition render_template :: "template_engine \<Rightarrow> string \<Rightarrow> schema \<Rightarrow> string option" where
  "render_template te text input =
     (case te_parse te text of None \<Rightarrow> None | Some t \<Rightarrow> te_render te text input)"

subsection \<open>Templates against the contract\<close>

definition check_template ::
    "template_engine \<Rightarrow> shim_error \<Rightarrow> string list \<Rightarrow> string \<Rightarrow> shim_error option" where
  "check_template te bad declared text =
     (case te_parse te text of
        None \<Rightarrow> Some bad
      | Some t \<Rightarrow> map_option UndeclaredField (find (\<lambda>f. f \<notin> set declared) (referenced_fields t)))"

definition spread_field :: "(string \<times> gval) list \<Rightarrow> string" where
  "spread_field o1 = str_or_empty (get_key o1 ''spread'')"

fun check_elems ::
    "template_engine \<Rightarrow> string list \<Rightarrow> nat \<Rightarrow> exec_elem list \<Rightarrow> shim_error option" where
  "check_elems te declared i [] = None"
| "check_elems te declared i (e # es) =
     (case (case e of
              EText s \<Rightarrow> check_template te (BadTemplate i) declared s
            | EObject o1 \<Rightarrow>
                if spread_field o1 \<noteq> [] \<and> spread_field o1 \<notin> set declared
                then Some (UndeclaredField (spread_field o1)) else None
            | EOther \<Rightarrow> None) of
        Some x \<Rightarrow> Some x
      | None \<Rightarrow> check_elems te declared (Suc i) es)"

definition validate_templates :: "template_engine \<Rightarrow> shim_config \<Rightarrow> string list \<Rightarrow> shim_error option" where
  "validate_templates te cfg declared =
     (if declared = [] then None
      else case check_elems te declared 0 (sc_exec cfg) of
             Some x \<Rightarrow> Some x
           | None \<Rightarrow> if sc_stdin cfg = [] then None
                     else check_template te BadStdinTemplate declared (sc_stdin cfg))"

subsection \<open>The command line\<close>

text \<open>
  An argument with what the guard knows of it: whether the caller supplied its text, and
  whether a literal double dash came before. The double dash is positional from then on.
\<close>

record argument =
  ag_caller :: bool
  ag_after :: bool
  ag_text :: string

definition double_dash :: string where
  "double_dash = ''--''"

definition flag_value_ok :: "shim_config \<Rightarrow> string \<Rightarrow> bool" where
  "flag_value_ok cfg v \<longleftrightarrow> sc_allow_flags cfg \<or> \<not> has_prefix v ''-''"

fun spread_args ::
    "shim_config \<Rightarrow> template_engine \<Rightarrow> nat \<Rightarrow> bool \<Rightarrow> gval list \<Rightarrow> (shim_error, argument list) result" where
  "spread_args cfg te i after [] = Inr []"
| "spread_args cfg te i after (v # vs) =
     (if \<not> after \<and> \<not> flag_value_ok cfg (te_sprint te v) then Inl (FlagRefused i (te_sprint te v))
      else map_sum id (\<lambda>as. \<lparr>ag_caller = True, ag_after = after, ag_text = te_sprint te v\<rparr> # as)
             (spread_args cfg te i after vs))"

text \<open>One element: its arguments and whether a double dash has been seen.\<close>

definition elem_args ::
    "shim_config \<Rightarrow> template_engine \<Rightarrow> schema \<Rightarrow> nat \<Rightarrow> bool \<Rightarrow> exec_elem
     \<Rightarrow> (shim_error, argument list \<times> bool) result" where
  "elem_args cfg te input i after e =
     (case e of
        EText s \<Rightarrow>
          (case render_template te s input of
             None \<Rightarrow> Inl (BadTemplate i)
           | Some v \<Rightarrow>
               if v = [] then Inr ([], after)
               else case te_parse te s of
                      None \<Rightarrow> Inl (BadTemplate i)
                    | Some t \<Rightarrow>
                        (let derived = interpolates_input_data t in
                         if derived \<and> \<not> after \<and> \<not> flag_value_ok cfg v then Inl (FlagRefused i v)
                         else Inr ([\<lparr>ag_caller = derived, ag_after = after, ag_text = v\<rparr>],
                                   after \<or> \<not> derived \<and> v = double_dash)))
      | EObject o1 \<Rightarrow>
          if spread_field o1 = [] then Inl (BadElement i)
          else (case map_of input (spread_field o1) of
                  None \<Rightarrow> Inr ([], after)
                | Some (GArr vs) \<Rightarrow> map_sum id (\<lambda>as. (as, after)) (spread_args cfg te i after vs)
                | Some _ \<Rightarrow> Inl (SpreadNotArray i (spread_field o1)))
      | EOther \<Rightarrow> Inl (BadElement i))"

fun build_args ::
    "shim_config \<Rightarrow> template_engine \<Rightarrow> schema \<Rightarrow> nat \<Rightarrow> bool \<Rightarrow> exec_elem list
     \<Rightarrow> (shim_error, argument list) result" where
  "build_args cfg te input i after [] = Inr []"
| "build_args cfg te input i after (e # es) =
     (case elem_args cfg te input i after e of
        Inl x \<Rightarrow> Inl x
      | Inr (as, after') \<Rightarrow> map_sum id (\<lambda>bs. as @ bs) (build_args cfg te input (Suc i) after' es))"

definition build_argv :: "shim_config \<Rightarrow> template_engine \<Rightarrow> schema \<Rightarrow> (shim_error, string list) result" where
  "build_argv cfg te input = map_sum id (map ag_text) (build_args cfg te input 0 False (sc_exec cfg))"

subsection \<open>Output\<close>

record cap_writer =
  cw_buf :: string
  cw_max :: nat
  cw_overflow :: bool

definition cap_write :: "string \<Rightarrow> cap_writer \<Rightarrow> nat \<times> cap_writer" where
  "cap_write p w =
     (length p,
      if cw_overflow w then w
      else let remaining = int (cw_max w) - int (length (cw_buf w)) in
        if int (length p) > remaining
        then w\<lparr>cw_buf := cw_buf w @ take (nat remaining) p, cw_overflow := True\<rparr>
        else w\<lparr>cw_buf := cw_buf w @ p\<rparr>)"

interpretation cw: capped_sink cap_write cw_buf cw_max cw_overflow
  by unfold_locales (auto simp: cap_write_def Let_def nat_diff_distrib split: if_splits)

definition cap_capture :: "nat \<Rightarrow> string list \<Rightarrow> cap_writer" where
  "cap_capture n ps = foldl (\<lambda>b p. snd (cap_write p b)) \<lparr>cw_buf = [], cw_max = n, cw_overflow = False\<rparr> ps"

lemma cap_capture_content:
  "cw_buf (cap_capture n ps) = take n (concat ps) \<and> (cw_overflow (cap_capture n ps) \<longleftrightarrow> n < length (concat ps))"
  using cw.puts_content[of "\<lparr>cw_buf = [], cw_max = n, cw_overflow = False\<rparr>" ps]
  by (simp add: cap_capture_def cw.sound_def)

text \<open>\<^verbatim>\<open>utf8.Valid\<close>, on the byte values.\<close>

definition cont :: "nat \<Rightarrow> bool" where
  "cont b \<longleftrightarrow> 128 \<le> b \<and> b \<le> 191"

fun utf8_valid :: "nat list \<Rightarrow> bool" where
  "utf8_valid [] = True"
| "utf8_valid (a # bs) =
     (if a < 128 then utf8_valid bs
      else if 194 \<le> a \<and> a \<le> 223 then
        (case bs of b # r \<Rightarrow> cont b \<and> utf8_valid r | _ \<Rightarrow> False)
      else if 224 \<le> a \<and> a \<le> 239 then
        (case bs of b # c # r \<Rightarrow>
            (if a = 224 then 160 \<le> b \<and> b \<le> 191 else if a = 237 then 128 \<le> b \<and> b \<le> 159 else cont b)
            \<and> cont c \<and> utf8_valid r
         | _ \<Rightarrow> False)
      else if 240 \<le> a \<and> a \<le> 244 then
        (case bs of b # c # d # r \<Rightarrow>
            (if a = 240 then 144 \<le> b \<and> b \<le> 191 else if a = 244 then 128 \<le> b \<and> b \<le> 143 else cont b)
            \<and> cont c \<and> cont d \<and> utf8_valid r
         | _ \<Rightarrow> False)
      else False)"

text \<open>\<^verbatim>\<open>base64.StdEncoding\<close>.\<close>

definition b64_alphabet :: string where
  "b64_alphabet = ''ABCDEFGHIJKLMNOPQRSTUVWXYZabcdefghijklmnopqrstuvwxyz0123456789+/''"

definition b64_char :: "nat \<Rightarrow> char" where
  "b64_char n = b64_alphabet ! n"

fun b64_encode :: "nat list \<Rightarrow> string" where
  "b64_encode [] = []"
| "b64_encode [a] = [b64_char (a div 4), b64_char (a mod 4 * 16), CHR ''='', CHR ''='']"
| "b64_encode [a, b] =
     [b64_char (a div 4), b64_char (a mod 4 * 16 + b div 16), b64_char (b mod 16 * 4), CHR ''='']"
| "b64_encode (a # b # c # r) =
     b64_char (a div 4) # b64_char (a mod 4 * 16 + b div 16)
     # b64_char (b mod 16 * 4 + c div 64) # b64_char (c mod 64) # b64_encode r"

definition byte_vals :: "string \<Rightarrow> nat list" where
  "byte_vals s = map of_char s"

definition split_lines :: "string \<Rightarrow> string list" where
  "split_lines b =
     (let s = trim_suffix b [CHR 0x0A] in if s = [] then [] else split_on (CHR 0x0A) s)"

fun parse_lines :: "(string \<Rightarrow> gval option) \<Rightarrow> string list \<Rightarrow> gval list option" where
  "parse_lines parse [] = Some []"
| "parse_lines parse (l # ls) =
     (case parse l of None \<Rightarrow> None | Some v \<Rightarrow> map_option (\<lambda>vs. v # vs) (parse_lines parse ls))"

definition is_success :: "int \<Rightarrow> int list \<Rightarrow> bool" where
  "is_success code allowed \<longleftrightarrow> (if allowed = [] then code = 0 else code \<in> set allowed)"

definition out_field :: "shim_config \<Rightarrow> string" where
  "out_field cfg = (if so_field (sc_output cfg) = [] then ''data'' else so_field (sc_output cfg))"

text \<open>A Go map is an association list; setting a key replaces it.\<close>

definition set_key :: "string \<Rightarrow> gval \<Rightarrow> schema \<Rightarrow> schema" where
  "set_key k v o1 = filter (\<lambda>(k', _). k' \<noteq> k) o1 @ [(k, v)]"

definition json_output ::
    "(string \<Rightarrow> gval option) \<Rightarrow> shim_config \<Rightarrow> string \<Rightarrow> int \<Rightarrow> (shim_error, gval) result" where
  "json_output parse cfg stdout code =
     (case parse (trim_space stdout) of
        None \<Rightarrow> Inl OutNotJson
      | Some v \<Rightarrow>
          if \<not> so_exit_code (sc_output cfg) then Inr v
          else (case v of
                  GObj o1 \<Rightarrow> if map_of o1 ''exit_code'' \<noteq> None then Inl ExitCodeTaken
                            else Inr (GObj (set_key ''exit_code'' (GInt code) o1))
                | _ \<Rightarrow> Inl ExitCodeNeedsObject))"

definition text_output :: "(string \<Rightarrow> gval option) \<Rightarrow> string \<Rightarrow> string \<Rightarrow> (shim_error, gval) result" where
  "text_output parse mode stdout =
     (if mode = ''raw'' then
        (if utf8_valid (byte_vals stdout) then Inr (GStr stdout) else Inl NotUtf8)
      else if mode = ''base64'' then Inr (GStr (b64_encode (byte_vals stdout)))
      else if mode = ''lines'' then
        (if utf8_valid (byte_vals stdout) then Inr (GArr (map GStr (split_lines stdout))) else Inl NotUtf8)
      else (case parse_lines parse (split_lines stdout) of
              None \<Rightarrow> Inl LineNotJson | Some vs \<Rightarrow> Inr (GArr vs)))"

definition build_output ::
    "(string \<Rightarrow> gval option) \<Rightarrow> shim_config \<Rightarrow> string \<Rightarrow> int \<Rightarrow> (shim_error, gval) result" where
  "build_output parse cfg stdout code =
     (if so_mode (sc_output cfg) = ''json'' then json_output parse cfg stdout code
      else case text_output parse (so_mode (sc_output cfg)) stdout of
             Inl e \<Rightarrow> Inl e
           | Inr v \<Rightarrow>
               (let doc = [(out_field cfg, v)] in
                Inr (GObj (if so_exit_code (sc_output cfg) then set_key ''exit_code'' (GInt code) doc else doc))))"

subsection \<open>The run\<close>

definition default_max_output :: int where
  "default_max_output = 32 * 2 ^ 20"

definition max_shim_stderr :: nat where
  "max_shim_stderr = 64 * 2 ^ 10"

record ran_command =
  rc_code :: int
  rc_stdout :: "string list"
  rc_stderr :: "string list"

text \<open>
  What the shim finds around it: the environment variable, its files, the decoders, the input
  document on standard input and the command (the text of an error when it does not start).
\<close>

record shim_env =
  sh_tool_dir :: string
  sh_read :: "string \<Rightarrow> string option"
  sh_yaml :: "string \<Rightarrow> shim_config option"
  sh_contract :: "string \<Rightarrow> string list option"
  sh_input :: "schema option"
  sh_json :: "string \<Rightarrow> gval option"
  sh_engine :: template_engine
  sh_run :: "string list \<Rightarrow> string option \<Rightarrow> (string, ran_command) result"

definition max_out :: "shim_config \<Rightarrow> int" where
  "max_out cfg = (if sc_max_output cfg \<le> 0 then default_max_output else sc_max_output cfg)"

definition finish_shim ::
    "(string \<Rightarrow> gval option) \<Rightarrow> shim_config \<Rightarrow> string \<Rightarrow> ran_command \<Rightarrow> (shim_error, gval) result" where
  "finish_shim parse cfg name r =
     (let out = cap_capture (nat (max_out cfg)) (rc_stdout r) in
      if cw_overflow out then Inl (TooMuchOutput name (max_out cfg))
      else if \<not> is_success (rc_code r) (sc_success cfg) then
        (let msg = trim_space (cw_buf (cap_capture max_shim_stderr (rc_stderr r))) in
         Inl (CommandFailed name (if msg = [] then ''exit code '' @ int_str (rc_code r) else msg)))
      else build_output parse cfg (cw_buf out) (rc_code r))"

definition run_shim :: "shim_env \<Rightarrow> (shim_error, gval) result" where
  "run_shim x =
     (if sh_tool_dir x = [] then Inl NoToolDir
      else case load_shim_config (sh_yaml x) (sh_read x (join_path [sh_tool_dir x, ''shim.yaml''])) of
        Inl e \<Rightarrow> Inl e
      | Inr cfg \<Rightarrow>
          (case declared_input_fields (sh_contract x) (sh_read x (join_path [sh_tool_dir x, ''tcs.yaml''])) of
             Inl e \<Rightarrow> Inl e
           | Inr declared \<Rightarrow>
               (case validate_templates (sh_engine x) cfg declared of
                  Some e \<Rightarrow> Inl e
                | None \<Rightarrow>
                    (case sh_input x of
                       None \<Rightarrow> Inl BadInput
                     | Some input \<Rightarrow>
                         (case build_argv cfg (sh_engine x) input of
                            Inl e \<Rightarrow> Inl e
                          | Inr [] \<Rightarrow> Inl NoCommand
                          | Inr (name # args) \<Rightarrow>
                              (case (if sc_stdin cfg = [] then Some None
                                     else map_option Some (render_template (sh_engine x) (sc_stdin cfg) input)) of
                                 None \<Rightarrow> Inl BadStdinTemplate
                               | Some stdin \<Rightarrow>
                                   (case sh_run x (name # args) stdin of
                                      Inl e \<Rightarrow> Inl (NotStarted e)
                                    | Inr r \<Rightarrow> finish_shim (sh_json x) cfg name r)))))))"

subsection \<open>The guard\<close>

lemma spread_args_ok:
  "spread_args cfg te i after vs = Inr as \<Longrightarrow>
   (\<forall>a\<in>set as. ag_caller a \<and> ag_after a = after \<and> (after \<or> flag_value_ok cfg (ag_text a)))"
proof (induction vs arbitrary: as)
  case (Cons v vs)
  then obtain bs where "spread_args cfg te i after vs = Inr bs"
    "as = \<lparr>ag_caller = True, ag_after = after, ag_text = te_sprint te v\<rparr> # bs"
    "after \<or> flag_value_ok cfg (te_sprint te v)"
    by (cases "spread_args cfg te i after vs") (auto split: if_splits)
  with Cons.IH show ?case by auto
qed simp

text \<open>
  The arguments of one element: only caller text, guarded before a double dash, or one literal;
  the double dash is seen afterwards exactly when it was before or is this literal.
\<close>

lemma elem_args_text:
  assumes "elem_args cfg te input i after (EText s) = Inr (as, after')"
  shows "(as = [] \<and> after' = after)
    \<or> (\<exists>v d. as = [\<lparr>ag_caller = d, ag_after = after, ag_text = v\<rparr>] \<and> (d \<longrightarrow> after \<or> flag_value_ok cfg v)
        \<and> after' = (after \<or> \<not> d \<and> v = double_dash))"
  using assms by (auto simp: elem_args_def Let_def split: option.splits if_splits)

lemma elem_args_object:
  assumes "elem_args cfg te input i after (EObject o1) = Inr (as, after')"
  shows "after' = after \<and> (as = [] \<or> (\<exists>vs. spread_args cfg te i after vs = Inr as))"
proof (cases "map_of input (spread_field o1)")
  case None
  with assms show ?thesis by (simp add: elem_args_def split: if_splits)
next
  case (Some v)
  show ?thesis
  proof (cases v)
    case (GArr vs)
    with Some assms show ?thesis
      by (cases "spread_args cfg te i after vs") (auto simp: elem_args_def split: if_splits)
  qed (use Some assms in \<open>simp_all add: elem_args_def split: if_splits\<close>)
qed

lemma elem_args_ok:
  assumes "elem_args cfg te input i after e = Inr (as, after')"
  shows "(\<forall>a\<in>set as. ag_after a = after \<and> (ag_caller a \<longrightarrow> after \<or> flag_value_ok cfg (ag_text a)))
    \<and> (after' \<longleftrightarrow> after \<or> (\<exists>a\<in>set as. \<not> ag_caller a \<and> ag_text a = double_dash))"
proof (cases e)
  case (EText s)
  show ?thesis using elem_args_text[OF assms[unfolded EText]] by auto
next
  case (EObject o1)
  show ?thesis
    using elem_args_object[OF assms[unfolded EObject]] spread_args_ok[of cfg te i after _ as] by auto
next
  case EOther
  with assms show ?thesis by (simp add: elem_args_def)
qed

lemma build_args_Cons:
  assumes "build_args cfg te input i after (e # es) = Inr args"
  obtains as after' bs where "elem_args cfg te input i after e = Inr (as, after')"
    "build_args cfg te input (Suc i) after' es = Inr bs" "args = as @ bs"
  using assms
  by (cases "elem_args cfg te input i after e"; cases "build_args cfg te input (Suc i) (snd (projr (elem_args cfg te input i after e))) es")
     (auto split: prod.splits)

lemma build_args_guarded:
  assumes "build_args cfg te input i after es = Inr args" "args = xs @ a # ys" "ag_caller a"
  shows "flag_value_ok cfg (ag_text a) \<or> after \<or> (\<exists>b\<in>set xs. \<not> ag_caller b \<and> ag_text b = double_dash)"
  using assms(1,2)
proof (induction es arbitrary: i after args xs)
  case (Cons e es)
  obtain as after' bs where c: "elem_args cfg te input i after e = Inr (as, after')"
    "build_args cfg te input (Suc i) after' es = Inr bs" "args = as @ bs"
    by (rule build_args_Cons[OF Cons.prems(1)])
  note e = elem_args_ok[OF c(1)]
  from c(3) Cons.prems(2) consider "a \<in> set as" | zs where "bs = zs @ a # ys" "xs = as @ zs"
    by (auto simp: append_eq_append_conv2 Cons_eq_append_conv)
  then show ?case
  proof cases
    case 1
    with e assms(3) show ?thesis by auto
  next
    case (2 zs)
    from Cons.IH[OF c(2) 2(1)] e 2(2) show ?thesis by auto
  qed
qed simp


definition sample_config :: shim_config where
  "sample_config =
     \<lparr>sc_exec = [EText ''find'', EText ''--'', EObject [(''spread'', GStr ''names'')]], sc_stdin = [],
      sc_allow_flags = False, sc_success = [], sc_max_output = 0,
      sc_output = \<lparr>so_mode = ''base64'', so_field = [], so_exit_code = False\<rparr>\<rparr>"

definition literal_engine :: template_engine where
  "literal_engine = \<lparr>te_parse = (\<lambda>s. Some [NText s]), te_render = (\<lambda>s i. Some s),
     te_sprint = (\<lambda>v. str_or_empty v)\<rparr>"

lemma sample_argv:
  "build_argv sample_config literal_engine [(''names'', GArr [GStr ''-exec''])] = Inr [''find'', ''--'', ''-exec'']"
  by (simp add: build_argv_def sample_config_def literal_engine_def elem_args_def render_template_def
      interpolates_input_data_def spread_field_def get_key_def double_dash_def)


text \<open>
  What the guard takes for caller text is narrower than what a template can emit. An action
  whose commands have no field or variable as a direct argument, such as one that indexes the
  whole document or one with its field in parentheses, counts as the author's literal: whatever
  it renders to, a flag included, becomes an argument.
\<close>

theorem indirect_action_unguarded:
  assumes "te_parse te s = Some [NAction p]" "\<forall>cmd\<in>set p. \<forall>a\<in>set cmd. \<not> is_data_arg a"
    and "te_render te s input = Some v" "v \<noteq> []" "sc_exec cfg = [EText c, EText s]"
    and "te_parse te c = Some [NText c]" "te_render te c input = Some c" "c \<noteq> []"
  shows "build_argv cfg te input = Inr [c, v]"
  using assms
  by (simp add: build_argv_def elem_args_def render_template_def interpolates_input_data_def
      pipe_references_field_def)

text \<open>The template \<open>{{index . `x`}}\<close> over a document whose field holds a flag.\<close>

lemma indirect_action_unguarded_witness:
  "build_argv (sample_config\<lparr>sc_exec := [EText ''find'', EText ''{{index . `x`}}'']\<rparr>)
     \<lparr>te_parse = (\<lambda>s. Some (if s = ''find'' then [NText s] else [NAction [[AFunction ''index'', ADot, AConst (GStr ''x'')]]])),
      te_render = (\<lambda>s i. Some (if s = ''find'' then s else str_or_empty (get_key i ''x''))),
      te_sprint = str_or_empty\<rparr> [(''x'', GStr ''-delete'')] = Inr [''find'', ''-delete'']"
  by (rule indirect_action_unguarded[where p = "[[AFunction ''index'', ADot, AConst (GStr ''x'')]]"])
     (simp_all add: get_key_def sample_config_def)

subsection \<open>Templates and the contract\<close>

lemma check_elems_ok:
  "check_elems te declared i es = None \<Longrightarrow>
   (\<forall>s. EText s \<in> set es \<longrightarrow> (\<exists>t. te_parse te s = Some t \<and> set (referenced_fields t) \<subseteq> set declared))
   \<and> (\<forall>o1. EObject o1 \<in> set es \<longrightarrow> spread_field o1 = [] \<or> spread_field o1 \<in> set declared)"
proof (induction es arbitrary: i)
  case (Cons e es)
  from Cons.prems have "check_elems te declared (Suc i) es = None" by (auto split: option.splits)
  from Cons.IH[OF this] Cons.prems show ?case
    by (cases e) (auto simp: check_template_def find_None_iff split: option.splits if_splits)
qed simp

subsection \<open>What comes out\<close>

definition b64_value :: "char \<Rightarrow> nat option" where
  "b64_value c = (let k = length (takeWhile (\<lambda>d. d \<noteq> c) b64_alphabet) in if k < 64 then Some k else None)"

text \<open>A decoder for the encoding, four characters at a time.\<close>

fun b64_decode :: "string \<Rightarrow> nat list option" where
  "b64_decode [] = Some []"
| "b64_decode (p # q # r # s # rest) =
     (case (b64_value p, b64_value q) of
        (Some a, Some b) \<Rightarrow>
          (case b64_value r of
             None \<Rightarrow> if r = CHR ''='' \<and> s = CHR ''='' \<and> rest = [] then Some [a * 4 + b div 16] else None
           | Some c \<Rightarrow>
               (case b64_value s of
                  None \<Rightarrow> if s = CHR ''='' \<and> rest = []
                          then Some [a * 4 + b div 16, b mod 16 * 16 + c div 4] else None
                | Some d \<Rightarrow>
                    map_option (\<lambda>xs. (a * 4 + b div 16) # (b mod 16 * 16 + c div 4) # (c mod 4 * 64 + d) # xs)
                      (b64_decode rest)))
      | _ \<Rightarrow> None)"
| "b64_decode _ = None"

lemma b64_value_char: "n < 64 \<Longrightarrow> b64_value (b64_char n) = Some n"
proof -
  assume "n < 64"
  moreover have "list_all (\<lambda>n. b64_value (b64_char n) = Some n) [0..<64]" by code_simp
  ultimately show ?thesis by (simp add: list_all_iff)
qed

lemma b64_value_pad: "b64_value (CHR ''='') = None"
  by code_simp

lemma b64_decode_encode: "\<forall>b\<in>set bs. b < 256 \<Longrightarrow> b64_decode (b64_encode bs) = Some bs"
proof (induction bs rule: b64_encode.induct)
  case (4 a b c r)
  have l: "a div 4 < 64" "a mod 4 * 16 + b div 16 < 64" "b mod 16 * 4 + c div 64 < 64" "c mod 64 < 64"
    using "4.prems" by auto
  have "(a mod 4 * 16 + b div 16) div 16 = a mod 4" "(a mod 4 * 16 + b div 16) mod 16 = b div 16"
    "(b mod 16 * 4 + c div 64) div 4 = b mod 16" "(b mod 16 * 4 + c div 64) mod 4 = c div 64"
    using "4.prems" by auto
  with 4 show ?case by (simp add: b64_value_char[OF l(1)] b64_value_char[OF l(2)] b64_value_char[OF l(3)]
      b64_value_char[OF l(4)])
next
  case (2 a)
  have l: "a div 4 < 64" "a mod 4 * 16 < 64" using 2 by auto
  have "a mod 4 * 16 div 16 = a mod 4" by simp
  then show ?case by (simp add: b64_value_char[OF l(1)] b64_value_char[OF l(2)] b64_value_pad)
next
  case (3 a b)
  have l: "a div 4 < 64" "a mod 4 * 16 + b div 16 < 64" "b mod 16 * 4 < 64" using 3 by auto
  have "(a mod 4 * 16 + b div 16) div 16 = a mod 4" "(a mod 4 * 16 + b div 16) mod 16 = b div 16"
    "b mod 16 * 4 div 4 = b mod 16" using 3 by auto
  then show ?case by (simp add: b64_value_char[OF l(1)] b64_value_char[OF l(2)] b64_value_char[OF l(3)]
      b64_value_pad)
qed simp

lemma split_lines_join:
  "join_with [CHR 0x0A] (split_lines b) = trim_suffix b [CHR 0x0A]"
  by (simp add: split_lines_def Let_def join_split_on)

text \<open>
  C35: The text modes lose nothing. What is emitted under the output field gives the command's
  standard output back: as it is in raw mode, decoded from base64, joined by newlines from
  lines, without the final newline; and raw and lines mode fail exactly on bytes that are not
  UTF-8. No line holds a newline.
\<close>

theorem text_output_lossless:
  "text_output parse ''raw'' out = (if utf8_valid (byte_vals out) then Inr (GStr out) else Inl NotUtf8)
   \<and> (\<exists>t. text_output parse ''base64'' out = Inr (GStr t) \<and> b64_decode t = Some (byte_vals out))
   \<and> (if utf8_valid (byte_vals out)
      then \<exists>ls. text_output parse ''lines'' out = Inr (GArr (map GStr ls))
             \<and> join_with [CHR 0x0A] ls = trim_suffix out [CHR 0x0A] \<and> list_all (\<lambda>l. CHR 0x0A \<notin> set l) ls
      else text_output parse ''lines'' out = Inl NotUtf8)"
proof -
  have "\<forall>b\<in>set (byte_vals out). b < 256" by (auto simp: byte_vals_def)
  then have "b64_decode (b64_encode (byte_vals out)) = Some (byte_vals out)" by (rule b64_decode_encode)
  moreover have "list_all (\<lambda>l. CHR 0x0A \<notin> set l) (split_lines out)"
    by (auto simp: split_lines_def Let_def list_all_iff dest: split_on_noseps)
  ultimately show ?thesis
    using split_lines_join[of out] by (auto simp: text_output_def)
qed


definition sample_shim :: shim_env where
  "sample_shim =
     \<lparr>sh_tool_dir = ''/deskbox/tool'', sh_read = (\<lambda>p. Some []), sh_yaml = (\<lambda>s. Some sample_config),
      sh_contract = (\<lambda>s. Some [''names'']), sh_input = Some [(''names'', GArr [GStr ''-exec''])],
      sh_json = (\<lambda>s. None), sh_engine = literal_engine,
      sh_run = (\<lambda>a i. Inr \<lparr>rc_code = 0, rc_stdout = [''a''], rc_stderr = []\<rparr>)\<rparr>"

lemma sample_shim_runs: "\<exists>v. run_shim sample_shim = Inr v"
proof -
  have l: "load_shim_config (\<lambda>s. Some sample_config) (Some []) = Inr sample_config"
    by (simp add: load_shim_config_def sample_config_def output_modes_def)
  have t: "validate_templates literal_engine sample_config [''names''] = None"
    by (simp add: validate_templates_def sample_config_def check_template_def literal_engine_def
        referenced_fields_def spread_field_def get_key_def)
  have m: "max_out sample_config = 33554432"
    by (simp add: max_out_def sample_config_def default_max_output_def)
  have w: "cap_capture 33554432 [''a''] = \<lparr>cw_buf = ''a'', cw_max = 33554432, cw_overflow = False\<rparr>"
    by (simp add: cap_capture_def cap_write_def)
  have f: "\<exists>v. finish_shim p sample_config n \<lparr>rc_code = 0, rc_stdout = [''a''], rc_stderr = []\<rparr> = Inr v" for p n
    by (simp add: finish_shim_def m w is_success_def)
       (simp add: sample_config_def build_output_def text_output_def)
  have s: "sc_stdin sample_config = []" by (simp add: sample_config_def)
  show ?thesis using f
    by (simp add: run_shim_def sample_shim_def l declared_input_fields_def t sample_argv s)
qed


text \<open>
  The option to add the exit code overwrites the output when the output field has that name.
\<close>

theorem exit_code_field_loses_output:
  assumes "so_mode (sc_output cfg) = ''base64''" "so_exit_code (sc_output cfg)"
    and "so_field (sc_output cfg) = ''exit_code''"
  shows "build_output parse cfg out code = Inr (GObj [(''exit_code'', GInt code)])"
  using assms by (simp add: build_output_def text_output_def out_field_def set_key_def)

end
