(* ===== verification/Preflight.thy ===== *)
theory Preflight
  imports Tool_Loading Executor Shim
begin

text \<open>
  The dependency check, \<^verbatim>\<open>cmd/agent-desk/preflight.go\<close>: what each loaded tool declares it
  needs, whether this host has it and whether the sandbox shows it; the report that
  \<^verbatim>\<open>agent-desk -check\<close> prints with its exit code, and \<^verbatim>\<open>GET /preflight\<close>.

  Decoding \<^verbatim>\<open>shim.yaml\<close> is a function argument that gives the \<^verbatim>\<open>exec\<close> list, or \<open>None\<close> for an
  error. Strings are bytes; the padding of the table counts runes, as \<^verbatim>\<open>fmt\<close> does.
\<close>

subsection \<open>Dependencies\<close>

datatype dep_status = DepOk | DepMissing | DepOutside | DepUnknown

record dependency =
  dp_tool :: string
  dp_kind :: string
  dp_name :: string
  dp_path :: string
  dp_status :: dep_status
  dp_detail :: string

definition sandbox_roots :: "string list" where
  "sandbox_roots = [''/usr'', ''/bin'', ''/sbin'', ''/lib'', ''/lib64'']"

definition dep_fatal :: "bool \<Rightarrow> dependency \<Rightarrow> bool" where
  "dep_fatal sandboxed d =
     (case dp_status d of DepMissing \<Rightarrow> True | DepOutside \<Rightarrow> sandboxed | _ \<Rightarrow> False)"

definition inside_sandbox_roots :: "string \<Rightarrow> bool" where
  "inside_sandbox_roots p \<longleftrightarrow> (\<exists>r\<in>set sandbox_roots. p = r \<or> has_prefix p (r @ ''/''))"

definition missing_detail :: "string \<Rightarrow> string" where
  "missing_detail kind =
     ''not found on the desk'' @ [CHR 0x27] @ ''s PATH ('' @ sandbox_path @ '')''
     @ (if kind = ''shim''
        then ''; build it with: go build -o /usr/local/bin/tcs-shim ./cmd/tcs-shim'' else [])"

definition outside_detail :: string where
  "outside_detail =
     ''installed outside the paths the sandbox binds ('' @ join_with '', '' sandbox_roots
     @ ''), so it does not exist inside the sandbox even though it is on this box '' @ em_dash
     @ '' see the path trap in examples/tools/README.md''"

definition templated_detail :: string where
  "templated_detail =
     ''shim.yaml'' @ [CHR 0x27] @ ''s exec[0] is rendered from the input document, so ''
     @ ''there is no fixed command to check for here''"

definition resolve_dep :: "os_env \<Rightarrow> string \<Rightarrow> string \<Rightarrow> string \<Rightarrow> dependency" where
  "resolve_dep env t kind name =
     (let d = \<lparr>dp_tool = t, dp_kind = kind, dp_name = name, dp_path = [], dp_status = DepOk, dp_detail = []\<rparr> in
      case look_path_in env name sandbox_path of
        None \<Rightarrow> d\<lparr>dp_status := DepMissing, dp_detail := missing_detail kind\<rparr>
      | Some p \<Rightarrow>
          if \<not> inside_sandbox_roots p
          then d\<lparr>dp_path := p, dp_status := DepOutside, dp_detail := outside_detail\<rparr>
          else d\<lparr>dp_path := p, dp_status := DepOk\<rparr>)"

text \<open>The first element of \<^verbatim>\<open>exec\<close>, when it is a non-empty text without a template action.\<close>

definition shim_command :: "(string \<Rightarrow> exec_elem list option) \<Rightarrow> string option \<Rightarrow> string option" where
  "shim_command yaml raw =
     (case raw of
        None \<Rightarrow> None
      | Some text \<Rightarrow>
          (case yaml text of
             Some (EText s # es) \<Rightarrow> if s = [] \<or> contains s ''{{'' then None else Some s
           | _ \<Rightarrow> None))"

definition shim_path :: "tool \<Rightarrow> string" where
  "shim_path t = join_path [tl_dir t, ''shim.yaml'']"

definition shim_dependencies :: "os_env \<Rightarrow> (string \<Rightarrow> exec_elem list option) \<Rightarrow> tool \<Rightarrow> dependency list" where
  "shim_dependencies env yaml t =
     (if os_stat env (shim_path t) = None then []
      else [resolve_dep env (tl_name t) ''shim'' ''tcs-shim'',
            (case shim_command yaml (os_read env (shim_path t)) of
               Some cmd \<Rightarrow> resolve_dep env (tl_name t) ''command'' cmd
             | None \<Rightarrow> \<lparr>dp_tool = tl_name t, dp_kind = ''command'', dp_name = ''(templated)'', dp_path = [],
                         dp_status = DepUnknown, dp_detail = templated_detail\<rparr>)])"

definition tool_dependencies :: "os_env \<Rightarrow> (string \<Rightarrow> exec_elem list option) \<Rightarrow> tool \<Rightarrow> dependency list" where
  "tool_dependencies env yaml t =
     (case shebang_interpreter env (tl_run_path t) of
        Some interp \<Rightarrow> [resolve_dep env (tl_name t) ''interpreter'' interp]
      | None \<Rightarrow> [])
     @ shim_dependencies env yaml t"

definition preflight :: "os_env \<Rightarrow> (string \<Rightarrow> exec_elem list option) \<Rightarrow> (string \<times> tool) list \<Rightarrow> dependency list" where
  "preflight env yaml tools =
     concat (map (\<lambda>n. case map_of tools n of None \<Rightarrow> [] | Some t \<Rightarrow> tool_dependencies env yaml t)
                 (sorted_tool_names tools))"

definition preflight_problems :: "dependency list \<Rightarrow> dependency list" where
  "preflight_problems deps = filter (\<lambda>d. dp_status d \<noteq> DepOk) deps"

subsection \<open>The report\<close>

text \<open>
  \<^verbatim>\<open>utf8.RuneCountInString\<close>: a valid encoding at the front counts once, any other byte for
  itself. \<open>rune_tail\<close> is the number of bytes after the first that belong to it.
\<close>

definition rune_tail :: "nat \<Rightarrow> nat list \<Rightarrow> nat" where
  "rune_tail a bs =
     (case find (\<lambda>n. utf8_valid (a # take n bs)) [0, 1, 2, 3] of Some n \<Rightarrow> n | None \<Rightarrow> 0)"

function rune_count :: "nat list \<Rightarrow> nat" where
  "rune_count [] = 0"
| "rune_count (a # bs) = Suc (rune_count (drop (rune_tail a bs) bs))"
  by pat_completeness auto
termination by (relation "measure length") auto

definition pad_right :: "nat \<Rightarrow> string \<Rightarrow> string" where
  "pad_right n s = s @ replicate (n - rune_count (byte_vals s)) (CHR '' '')"

fun wrap_lines :: "nat \<Rightarrow> string \<Rightarrow> string list \<Rightarrow> string list" where
  "wrap_lines width line [] = (if line \<noteq> [] then [line] else [])"
| "wrap_lines width line (w # ws) =
     (if line \<noteq> [] \<and> length line + 1 + length w > width then line # wrap_lines width w ws
      else if line = [] then wrap_lines width w ws
      else wrap_lines width (line @ '' '' @ w) ws)"

definition wrap_detail :: "string \<Rightarrow> nat \<Rightarrow> string \<Rightarrow> string" where
  "wrap_detail s width indent = join_with (newline @ indent) (wrap_lines width [] (str_fields s))"

definition dep_mark :: "bool \<Rightarrow> dependency \<Rightarrow> string" where
  "dep_mark sandboxed d =
     (if dep_fatal sandboxed d then ''FAIL'' else if dp_status d \<noteq> DepOk then ''warn'' else ''ok'')"

definition detail_indent :: string where
  "detail_indent = replicate 7 (CHR '' '')"

definition format_dep :: "bool \<Rightarrow> nat \<Rightarrow> dependency \<Rightarrow> string" where
  "format_dep sandboxed name_w d =
     ''  '' @ pad_right 4 (dep_mark sandboxed d) @ '' '' @ pad_right 11 (dp_kind d) @ '' ''
     @ pad_right name_w (dp_name d) @ ''  '' @ or_default (dp_path d) ''NOT FOUND'' @ newline
     @ (if dp_detail d \<noteq> []
        then detail_indent @ wrap_detail (dp_detail d) 68 detail_indent @ newline else [])"

fun format_deps :: "bool \<Rightarrow> nat \<Rightarrow> string \<Rightarrow> dependency list \<Rightarrow> string" where
  "format_deps sandboxed name_w prev [] = []"
| "format_deps sandboxed name_w prev (d # ds) =
     (if dp_tool d \<noteq> prev then dp_tool d @ newline else [])
     @ format_dep sandboxed name_w d @ format_deps sandboxed name_w (dp_tool d) ds"

definition format_preflight :: "dependency list \<Rightarrow> bool \<Rightarrow> string" where
  "format_preflight deps sandboxed =
     format_deps sandboxed (foldl (\<lambda>w d. if length (dp_name d) > w then length (dp_name d) else w) 0 deps) [] deps"

subsection \<open>\<^verbatim>\<open>-check\<close> and the handler\<close>

definition plural :: "nat \<Rightarrow> string \<Rightarrow> string \<Rightarrow> string" where
  "plural n one many = (if n = 1 then one else many)"

definition dep_word :: "nat \<Rightarrow> string" where
  "dep_word n = plural n ''dependency'' ''dependencies''"

text \<open>What is printed and the exit code.\<close>

definition run_check :: "dependency list \<Rightarrow> bool \<Rightarrow> nat \<Rightarrow> string \<Rightarrow> string \<times> nat" where
  "run_check deps sandboxed ntools tools_dir =
     (let problems = preflight_problems deps;
          fatal = length (filter (dep_fatal sandboxed) problems);
          n = length deps;
          tail = (if fatal > 0
            then newline @ nat_str fatal @ '' of '' @ nat_str n @ '' '' @ dep_word n @ '' unusable on this box.''
            else if problems \<noteq> []
            then newline @ nat_str n @ '' '' @ dep_word n @ '' check out; ''
                 @ nat_str (length problems) @ '' warning(s) above.''
            else if deps = []
            then ''no tool dependencies to check: '' @ nat_str ntools @ '' tool(s) loaded from '' @ tools_dir @ ''.''
            else newline @ ''all '' @ nat_str n @ '' '' @ dep_word n @ '' check out.'')
      in (format_preflight deps sandboxed @ tail @ newline, if fatal > 0 then 1 else 0))"

record preflight_report =
  pf_sandboxed :: bool
  pf_path :: string
  pf_deps :: "dependency list"
  pf_problems :: nat
  pf_unusable :: nat
  pf_ok :: bool

definition handle_preflight ::
    "os_env \<Rightarrow> (string \<Rightarrow> exec_elem list option) \<Rightarrow> (string \<times> tool) list \<Rightarrow> bool \<Rightarrow> preflight_report" where
  "handle_preflight env yaml tools sandboxed =
     (let deps = preflight env yaml tools;
          unusable = length (filter (dep_fatal sandboxed) deps)
      in \<lparr>pf_sandboxed = sandboxed, pf_path = sandbox_path, pf_deps = deps,
          pf_problems = length (filter (\<lambda>d. dp_status d \<noteq> DepOk) deps), pf_unusable = unusable,
          pf_ok = (unusable = 0)\<rparr>)"


subsection \<open>Resolving a dependency\<close>

lemma resolve_dep_simps [simp]:
  "dp_tool (resolve_dep env t k n) = t" "dp_kind (resolve_dep env t k n) = k"
  "dp_name (resolve_dep env t k n) = n"
  by (simp_all add: resolve_dep_def Let_def split: option.split)

lemma resolve_dep_status:
  "dp_status (resolve_dep env t k n)
     = (case look_path_in env n sandbox_path of
          None \<Rightarrow> DepMissing | Some p \<Rightarrow> if inside_sandbox_roots p then DepOk else DepOutside)"
  by (simp add: resolve_dep_def Let_def split: option.split)

lemma resolve_dep_ok:
  assumes "dp_status (resolve_dep env t k n) = DepOk"
  shows "look_path_in env n sandbox_path = Some (dp_path (resolve_dep env t k n))
    \<and> inside_sandbox_roots (dp_path (resolve_dep env t k n))"
  using assms by (auto simp: resolve_dep_def Let_def split: option.splits if_splits)

definition sandbox_dirs :: "string list list" where
  "sandbox_dirs = [[''usr'', ''local'', ''sbin''], [''usr'', ''local'', ''bin''], [''usr'', ''sbin''],
     [''usr'', ''bin''], [''sbin''], [''bin'']]"

lemma sandbox_path_dirs:
  "split_on (CHR '':'') sandbox_path = map (\<lambda>d. ''/'' @ join_with ''/'' d) sandbox_dirs"
  by code_simp

lemma sandbox_dirs_plain: "ds \<in> set sandbox_dirs \<Longrightarrow> \<forall>c\<in>set ds. plain_comp c"
proof -
  have "list_all (list_all plain_comp) sandbox_dirs" by code_simp
  then show "ds \<in> set sandbox_dirs \<Longrightarrow> \<forall>c\<in>set ds. plain_comp c" by (auto simp: list_all_iff)
qed

lemma sandbox_dir_inside:
  assumes "ds \<in> set sandbox_dirs" "plain_comp n"
  shows "inside_sandbox_roots (''/'' @ join_with ''/'' (ds @ [n]))"
  using assms(1)
  by (auto simp: sandbox_dirs_def inside_sandbox_roots_def sandbox_roots_def has_prefix_def)

lemma look_path_bare:
  assumes "plain_comp n"
  shows "look_path_in env n sandbox_path
    = find (executable env) (map (\<lambda>ds. ''/'' @ join_with ''/'' (ds @ [n])) sandbox_dirs)"
proof -
  have ns: "\<not> contains n ''/''" using assms by (auto simp: plain_comp_def contains_iff)
  have j: "join_path [''/'' @ join_with ''/'' ds, n] = ''/'' @ join_with ''/'' (ds @ [n])"
    if "ds \<in> set sandbox_dirs" for ds
    using join_path_rooted[OF sandbox_dirs_plain[OF that], of "[n]"] assms by simp
  have "first_executable env n (map (\<lambda>d. ''/'' @ join_with ''/'' d) L)
      = find (executable env) (map (\<lambda>ds. ''/'' @ join_with ''/'' (ds @ [n])) L)"
    if "set L \<subseteq> set sandbox_dirs" for L
    using that by (induction L) (auto simp: j[simplified])
  from this[of sandbox_dirs] show ?thesis
    unfolding look_path_in_def sandbox_path_dirs using ns by simp
qed

text \<open>
  What the check says of a bare program name. Such a dependency is never reported as
  outside the sandbox: the path that is searched lies entirely within the bound directories.
  It is ok when one of them holds an executable of that name, and missing otherwise; only a
  dependency written with a slash can fall into the path trap.
\<close>

theorem bare_dependency_never_outside:
  assumes "plain_comp n"
  shows "dp_status (resolve_dep env t k n)
    = (if \<exists>ds\<in>set sandbox_dirs. executable env (''/'' @ join_with ''/'' (ds @ [n])) then DepOk else DepMissing)"
proof (cases "look_path_in env n sandbox_path")
  case None
  then have "find (executable env) (map (\<lambda>ds. ''/'' @ join_with ''/'' (ds @ [n])) sandbox_dirs) = None"
    unfolding look_path_bare[OF assms] .
  then have "\<not> (\<exists>ds\<in>set sandbox_dirs. executable env (''/'' @ join_with ''/'' (ds @ [n])))"
    by (auto simp: find_None_iff)
  with None show ?thesis by (simp add: resolve_dep_status)
next
  case (Some p)
  then have "find (executable env) (map (\<lambda>ds. ''/'' @ join_with ''/'' (ds @ [n])) sandbox_dirs) = Some p"
    using look_path_bare[OF assms, of env] by simp
  then obtain i where i: "i < length sandbox_dirs" "p = ''/'' @ join_with ''/'' (sandbox_dirs ! i @ [n])"
    "executable env p" by (auto simp: find_Some_iff)
  then have "sandbox_dirs ! i \<in> set sandbox_dirs" by simp
  with i obtain ds where ds: "ds \<in> set sandbox_dirs" "p = ''/'' @ join_with ''/'' (ds @ [n])" "executable env p"
    by blast
  then have "inside_sandbox_roots p" using sandbox_dir_inside[OF _ assms] by simp
  with Some ds show ?thesis unfolding resolve_dep_status by auto
qed

lemma bare_dependency_never_outside_witness:
  "dp_status (resolve_dep (uniform_env ''x'') ''t'' ''command'' ''jq'') = DepOk"
proof -
  have "plain_comp ''jq''" by code_simp
  note bare_dependency_never_outside[OF this, of "uniform_env ''x''" "''t''" "''command''"]
  moreover have "[''bin''] \<in> set sandbox_dirs" by (simp add: sandbox_dirs_def)
  moreover have "executable (uniform_env ''x'') p" for p
    by (simp add: executable_def uniform_env_def exec_bits_def)
  ultimately show ?thesis by auto
qed

subsection \<open>What the sandbox shows\<close>

lemma concat_map_infix:
  assumes "r \<in> set rs"
  obtains xs ys where "concat (map f rs) = xs @ f r @ ys"
proof -
  from split_list[OF assms] obtain as bs where "rs = as @ r # bs" by blast
  then have "concat (map f rs) = concat (map f as) @ f r @ concat (map f bs)" by simp
  then show thesis by (rule that)
qed

lemma sandbox_args_shape:
  assumes "sandbox_args env bw t i out_d dir tenv = Inr args"
  obtains pre mid where
    "args = pre @ concat (map (\<lambda>p. if os_stat env p \<noteq> None then ro_bind p p else []) base_binds)
       @ mid @ ro_bind dir ''/deskbox/tool'' @ [''--chdir'', ''/deskbox'']"
proof -
  obtain ins where i: "input_binds i (declared_in t) = Inr ins"
    using assms by (auto simp: sandbox_args_def split: sum.splits)
  have "\<exists>pre mid. args = pre @ concat (map (\<lambda>p. if os_stat env p \<noteq> None then ro_bind p p else []) base_binds)
       @ mid @ ro_bind dir ''/deskbox/tool'' @ [''--chdir'', ''/deskbox'']"
    using assms unfolding sandbox_args_def i sum.case sum.inject
    by (elim subst) (rule exI[where x = "(_ # _ # _ # _ # _ # _ # _ # []) @ _"],
        rule exI[where x = "_ @ (_ # _ # _ # _ # _ # _ # []) @ _ @ (_ # _ # _ # [])"], simp only: append_Cons append_Nil append_assoc)
  then show thesis using that by blast
qed

lemma sandbox_args_base_bind:
  assumes "sandbox_args env bw t i out_d dir tenv = Inr args" "r \<in> set base_binds" "os_stat env r \<noteq> None"
  shows "\<exists>xs ys. args = xs @ ro_bind r r @ ys"
proof -
  obtain pre mid where a: "args = pre @ concat (map (\<lambda>p. if os_stat env p \<noteq> None then ro_bind p p else []) base_binds)
       @ mid @ ro_bind dir ''/deskbox/tool'' @ [''--chdir'', ''/deskbox'']"
    by (rule sandbox_args_shape[OF assms(1)])
  obtain xs ys where c: "concat (map (\<lambda>p. if os_stat env p \<noteq> None then ro_bind p p else []) base_binds)
      = xs @ (if os_stat env r \<noteq> None then ro_bind r r else []) @ ys"
    by (rule concat_map_infix[OF assms(2)])
  have "args = (pre @ xs) @ ro_bind r r @ (ys @ mid @ ro_bind dir ''/deskbox/tool'' @ [''--chdir'', ''/deskbox''])"
    unfolding a c using assms(3) by simp
  then show ?thesis by blast
qed



lemma uniform_sandbox_args: "\<exists>args. sandbox_args env bw (sample_tool p) i out_d dir tenv = Inr args"
proof -
  have "\<not> path_traverses ''input.json''" by code_simp
  then show ?thesis by (simp add: sandbox_args_def declared_in_def sample_tool_def)
qed

lemma uniform_jq_ok: "dp_status (resolve_dep (uniform_env ''x'') t k ''/usr/bin/jq'') = DepOk"
  by (simp add: resolve_dep_def look_path_in_def has_prefix_def executable_def uniform_env_def
      exec_bits_def inside_sandbox_roots_def sandbox_roots_def)


text \<open>
  A program that a tool brings along in its own folder, named by the path it has inside the
  sandbox, is reported as missing and fails the check, although the sandbox binds the folder at
  exactly that path: the check looks for it on the host.
\<close>

theorem vendored_command_reported_missing:
  assumes "shim_command yaml (os_read env (shim_path t)) = Some (''/deskbox/tool/'' @ n)"
    and "os_stat env (shim_path t) \<noteq> None" "os_stat env (''/deskbox/tool/'' @ n) = None"
    and "sandbox_args env bw t i out_d (tl_dir t) tenv = Inr args"
  shows "(\<exists>d\<in>set (tool_dependencies env yaml t). dp_name d = ''/deskbox/tool/'' @ n \<and> dep_fatal sandboxed d)
    \<and> (\<exists>xs ys. args = xs @ ro_bind (tl_dir t) ''/deskbox/tool'' @ ys)"
proof
  let ?n = "''/deskbox/tool/'' @ n"
  let ?d = "resolve_dep env (tl_name t) ''command'' ?n"
  have "look_path_in env ?n sandbox_path = None"
    using assms(3) by (simp add: look_path_in_def executable_def has_prefix_def)
  then have "dp_status ?d = DepMissing" unfolding resolve_dep_status by simp
  then have "dep_fatal sandboxed ?d" by (simp add: dep_fatal_def)
  moreover have "?d \<in> set (tool_dependencies env yaml t)"
    unfolding tool_dependencies_def shim_dependencies_def assms(1) using assms(2) by auto
  ultimately show "\<exists>d\<in>set (tool_dependencies env yaml t). dp_name d = ?n \<and> dep_fatal sandboxed d"
    by (intro bexI[of _ ?d]) simp_all
  obtain pre mid where "args = pre @ concat (map (\<lambda>p. if os_stat env p \<noteq> None then ro_bind p p else []) base_binds)
       @ mid @ ro_bind (tl_dir t) ''/deskbox/tool'' @ [''--chdir'', ''/deskbox'']"
    by (rule sandbox_args_shape[OF assms(4)])
  then have "args = (pre @ concat (map (\<lambda>p. if os_stat env p \<noteq> None then ro_bind p p else []) base_binds) @ mid)
       @ ro_bind (tl_dir t) ''/deskbox/tool'' @ [''--chdir'', ''/deskbox'']"
    by (simp only: append_assoc)
  then show "\<exists>xs ys. args = xs @ ro_bind (tl_dir t) ''/deskbox/tool'' @ ys" by blast
qed

text \<open>A host with the tool's files and no \<^verbatim>\<open>/deskbox\<close> directory.\<close>

definition vendored_env :: os_env where
  "vendored_env = (uniform_env ''x'')\<lparr>os_stat :=
     (\<lambda>p. if has_prefix p ''/deskbox'' then None else os_stat (uniform_env ''x'') p)\<rparr>"

lemma vendored_command_reported_missing_witness:
  "\<exists>d. dp_name d = ''/deskbox/tool/'' @ ''jq'' \<and> dep_fatal False d
     \<and> d \<in> set (tool_dependencies vendored_env (\<lambda>s. Some [EText (''/deskbox/tool/'' @ ''jq'')])
             ((sample_tool ''/t/run'')\<lparr>tl_dir := ''/t''\<rparr>))"
proof -
  let ?t = "(sample_tool ''/t/run'')\<lparr>tl_dir := ''/t''\<rparr>"
  let ?y = "\<lambda>s :: string. Some [EText (''/deskbox/tool/'' @ ''jq'')]"
  have sp: "shim_path ?t = ''/t/shim.yaml''" unfolding shim_path_def by code_simp
  have c: "shim_command ?y (os_read vendored_env (shim_path ?t)) = Some (''/deskbox/tool/'' @ ''jq'')"
    unfolding sp by (simp add: shim_command_def vendored_env_def uniform_env_def has_prefix_def)
  have s: "os_stat vendored_env (shim_path ?t) \<noteq> None"
    unfolding sp by (simp add: vendored_env_def uniform_env_def has_prefix_def)
  have m: "os_stat vendored_env (''/deskbox/tool/'' @ ''jq'') = None"
    by (simp add: vendored_env_def has_prefix_def)
  have "\<not> path_traverses ''input.json''" by code_simp
  then obtain args where a: "sandbox_args vendored_env ''bwrap'' ?t ''/i'' ''/o'' (tl_dir ?t) [] = Inr args"
    by (simp add: sandbox_args_def declared_in_def sample_tool_def)
  show ?thesis using vendored_command_reported_missing[OF c s m a] by blast
qed

subsection \<open>The shim's command\<close>

text \<open>A template without an action is one text node and renders to itself.\<close>

definition literal_texts :: "template_engine \<Rightarrow> bool" where
  "literal_texts te \<longleftrightarrow> (\<forall>s input. s \<noteq> [] \<longrightarrow> \<not> contains s ''{{'' \<longrightarrow>
     te_parse te s = Some [NText s] \<and> te_render te s input = Some s)"

text \<open>
  The command that the desk checks for a shimmed tool is the one its shim runs: whenever
  the shim, reading the same \<^verbatim>\<open>shim.yaml\<close>, builds a command line from some input, the first
  argument is the name that was checked.
\<close>

theorem preflight_command_is_run:
  assumes "shim_command yaml (Some text) = Some cmd" "yaml text = Some (sc_exec cfg)"
    and "literal_texts te" "build_argv cfg te input = Inr argv"
  shows "argv \<noteq> [] \<and> hd argv = cmd"
proof -
  obtain es where e: "sc_exec cfg = EText cmd # es" "cmd \<noteq> []" "\<not> contains cmd ''{{''"
    using assms(1,2) by (auto simp: shim_command_def split: list.splits exec_elem.splits if_splits)
  have te: "te_parse te cmd = Some [NText cmd]" "te_render te cmd input = Some cmd"
    using assms(3) e(2,3) by (auto simp: literal_texts_def)
  obtain args where args: "build_args cfg te input 0 False (EText cmd # es) = Inr args" "argv = map ag_text args"
    using assms(4) e(1) by (cases "build_args cfg te input 0 False (sc_exec cfg)") (auto simp: build_argv_def)
  obtain as after' bs where b: "elem_args cfg te input 0 False (EText cmd) = Inr (as, after')" "args = as @ bs"
    by (rule build_args_Cons[OF args(1)])
  have "as = [\<lparr>ag_caller = False, ag_after = False, ag_text = cmd\<rparr>]"
    using b(1) e(2) te by (simp add: elem_args_def render_template_def interpolates_input_data_def)
  then show ?thesis using b(2) args(2) by simp
qed

lemma preflight_command_is_run_witness:
  "hd [''find'', ''--'', ''-exec''] = ''find''"
proof -
  have c: "shim_command (\<lambda>s. Some (sc_exec sample_config)) (Some []) = Some ''find''"
    by (simp add: shim_command_def sample_config_def has_prefix_def)
  have l: "literal_texts literal_engine" by (simp add: literal_texts_def literal_engine_def)
  show ?thesis using preflight_command_is_run[OF c _ l sample_argv] by simp
qed


subsection \<open>The check as a whole\<close>

lemma fatal_is_problem: "dep_fatal sandboxed d \<Longrightarrow> dp_status d \<noteq> DepOk"
  by (auto simp: dep_fatal_def)

lemma fatal_problems: "filter (dep_fatal sandboxed) (preflight_problems deps) = filter (dep_fatal sandboxed) deps"
  using fatal_is_problem unfolding preflight_problems_def filter_filter by (intro filter_cong) auto

lemma preflight_mem:
  "distinct (keys_of tools) \<Longrightarrow>
   d \<in> set (preflight env yaml tools) \<longleftrightarrow> (\<exists>t\<in>snd ` set tools. d \<in> set (tool_dependencies env yaml t))"
  by (force simp: preflight_def sorted_tool_names_def split: option.splits dest: map_of_SomeD)

text \<open>
  The exit code of the check and the report of the running desk agree. \<^verbatim>\<open>agent-desk -check\<close>
  exits with 0 exactly when the handler answers ok, which is when no dependency of any loaded
  tool is missing and, where the sandbox is in use, none lies outside it; otherwise it exits
  with 1. Without a sandbox a dependency outside it is never fatal.
\<close>

theorem check_and_report_agree:
  assumes "distinct (keys_of tools)"
  shows "snd (run_check (preflight env yaml tools) sandboxed n dir)
      = (if pf_ok (handle_preflight env yaml tools sandboxed) then 0 else 1)
    \<and> (pf_ok (handle_preflight env yaml tools sandboxed) \<longleftrightarrow>
        (\<forall>t\<in>snd ` set tools. \<forall>d\<in>set (tool_dependencies env yaml t).
           dp_status d \<noteq> DepMissing \<and> (sandboxed \<longrightarrow> dp_status d \<noteq> DepOutside)))
    \<and> pf_unusable (handle_preflight env yaml tools sandboxed)
        \<le> pf_problems (handle_preflight env yaml tools sandboxed)"
proof (intro conjI)
  show "snd (run_check (preflight env yaml tools) sandboxed n dir)
      = (if pf_ok (handle_preflight env yaml tools sandboxed) then 0 else 1)"
    by (simp add: run_check_def handle_preflight_def Let_def fatal_problems)
  have "pf_ok (handle_preflight env yaml tools sandboxed)
      \<longleftrightarrow> (\<forall>d\<in>set (preflight env yaml tools). \<not> dep_fatal sandboxed d)"
    by (simp add: handle_preflight_def Let_def filter_empty_conv)
  moreover have "\<not> dep_fatal sandboxed d \<longleftrightarrow>
      dp_status d \<noteq> DepMissing \<and> (sandboxed \<longrightarrow> dp_status d \<noteq> DepOutside)" for d
    by (cases "dp_status d") (auto simp: dep_fatal_def)
  ultimately show "pf_ok (handle_preflight env yaml tools sandboxed) \<longleftrightarrow>
        (\<forall>t\<in>snd ` set tools. \<forall>d\<in>set (tool_dependencies env yaml t).
           dp_status d \<noteq> DepMissing \<and> (sandboxed \<longrightarrow> dp_status d \<noteq> DepOutside))"
    using preflight_mem[OF assms] by blast
  have "filter (dep_fatal sandboxed) ds = filter (dep_fatal sandboxed) (filter (\<lambda>d. dp_status d \<noteq> DepOk) ds)" for ds
    using fatal_problems[of sandboxed ds] by (simp add: preflight_problems_def)
  then show "pf_unusable (handle_preflight env yaml tools sandboxed)
        \<le> pf_problems (handle_preflight env yaml tools sandboxed)"
    unfolding handle_preflight_def Let_def preflight_report.simps by (metis length_filter_le)
qed

lemma check_and_report_agree_witness:
  "pf_unusable (handle_preflight vendored_env (\<lambda>s. None) [(''greet'', sample_tool ''/t/run'')] True)
     \<le> pf_problems (handle_preflight vendored_env (\<lambda>s. None) [(''greet'', sample_tool ''/t/run'')] True)"
  using check_and_report_agree[of "[(''greet'', sample_tool ''/t/run'')]"] by simp

subsection \<open>Wrapping\<close>

lemma str_fields_sep: "is_space c \<Longrightarrow> str_fields (a @ c # b) = str_fields a @ str_fields b"
  by (simp add: str_fields_def split_by_append_sep)

lemma str_fields_spaces: "\<forall>c\<in>set s. is_space c \<Longrightarrow> str_fields (s @ b) = str_fields b"
  by (induction s) (simp_all add: str_fields_def)

lemma str_fields_sep_list:
  assumes "sep \<noteq> []" "\<forall>c\<in>set sep. is_space c"
  shows "str_fields (a @ sep @ b) = str_fields a @ str_fields b"
  using assms str_fields_sep[of "hd sep" a "tl sep @ b"] str_fields_spaces[of "tl sep" b]
  by (cases sep) auto

lemma str_fields_words: "w \<in> set (str_fields s) \<Longrightarrow> w \<noteq> [] \<and> (\<forall>c\<in>set w. \<not> is_space c)"
  by (auto simp: str_fields_def dest: split_by_noseps)

lemma str_fields_word: "w \<noteq> [] \<Longrightarrow> \<forall>c\<in>set w. \<not> is_space c \<Longrightarrow> str_fields w = [w]"
  by (simp add: str_fields_def split_by_single)

lemma str_fields_join:
  assumes "sep \<noteq> []" "\<forall>c\<in>set sep. is_space c"
  shows "str_fields (join_with sep ls) = concat (map str_fields ls)"
proof (induction ls)
  case Nil
  then show ?case by (simp add: str_fields_def)
next
  case (Cons l ls)
  then show ?case
    using str_fields_sep_list[OF assms] by (cases "ls = []") (simp_all add: join_with_Cons)
qed

lemma wrap_lines_fields:
  assumes "\<forall>w\<in>set ws. w \<noteq> [] \<and> (\<forall>c\<in>set w. \<not> is_space c)"
  shows "concat (map str_fields (wrap_lines width line ws)) = str_fields line @ ws"
  using assms
proof (induction width line ws rule: wrap_lines.induct)
  case (1 width line)
  then show ?case by (simp add: str_fields_def)
next
  case (2 width line w ws)
  have w: "str_fields w = [w]" using "2.prems" by (intro str_fields_word) auto
  have "str_fields (line @ '' '' @ w) = str_fields line @ [w]"
    using str_fields_sep[of "CHR '' ''" line w] w by (simp add: is_space_def)
  then show ?case using 2 w by (auto simp: str_fields_def)
qed

lemma wrap_lines_width:
  assumes "length line \<le> width \<or> (\<exists>w\<in>W. line = w)" "set ws \<subseteq> W"
  shows "\<forall>l\<in>set (wrap_lines width line ws). length l \<le> width \<or> l \<in> W"
  using assms
proof (induction width line ws rule: wrap_lines.induct)
  case (2 width line w ws)
  show ?case
  proof (cases "line = []")
    case True
    with 2 show ?thesis by auto
  next
    case False
    with 2 show ?thesis by (cases "length line + 1 + length w > width") auto
  qed
qed auto

text \<open>
  The wrapping of a detail loses nothing and keeps its width: the words of the wrapped text
  are the words of the text, in order, whatever white space indents the lines, and a line is
  longer than the width only when it is a single word.
\<close>

theorem wrap_detail_lossless:
  assumes "\<forall>c\<in>set indent. is_space c"
  shows "str_fields (wrap_detail s width indent) = str_fields s
    \<and> (\<forall>l\<in>set (wrap_lines width [] (str_fields s)). length l \<le> width \<or> l \<in> set (str_fields s))"
proof
  have f: "\<forall>w\<in>set (str_fields s). w \<noteq> [] \<and> (\<forall>c\<in>set w. \<not> is_space c)"
    using str_fields_words by blast
  have "str_fields (wrap_detail s width indent) = concat (map str_fields (wrap_lines width [] (str_fields s)))"
    unfolding wrap_detail_def by (rule str_fields_join) (use assms in \<open>auto simp: is_space_def\<close>)
  then show "str_fields (wrap_detail s width indent) = str_fields s"
    unfolding wrap_lines_fields[OF f] by (simp add: str_fields_def)
  show "\<forall>l\<in>set (wrap_lines width [] (str_fields s)). length l \<le> width \<or> l \<in> set (str_fields s)"
    by (rule wrap_lines_width) simp_all
qed

lemma wrap_detail_lossless_witness:
  "str_fields (wrap_detail outside_detail 68 detail_indent) = str_fields outside_detail"
  using wrap_detail_lossless[of detail_indent outside_detail 68] by (simp add: detail_indent_def is_space_def)

text \<open>
  The test for the bound directories looks at the text of a path only: a path that climbs out
  of one of them again counts as inside.
\<close>

lemma climbing_path_counts_as_inside: "inside_sandbox_roots ''/usr/../opt/jq'' \<and> clean ''/usr/../opt/jq'' = ''/opt/jq''"
  by (rule conjI, simp add: inside_sandbox_roots_def sandbox_roots_def has_prefix_def, code_simp)

end
