(* ===== verification/Handlers.thy ===== *)
theory Handlers
  imports Queue_Ops Durations Tool_Loading Executor Posture Preflight
begin

text \<open>
  The HTTP handlers of the desk, \<^verbatim>\<open>cmd/agent-desk/main.go\<close>: for each the request it reads, its
  guards and early returns in order, the call on the queue, and the response. A handler is a
  function from the request and the queue to a response and the queue. The JSON decoder reads
  one document off a body and stands as a function argument, as does how a wait on the queue
  ends; which handler a request reaches is in \<^verbatim>\<open>Routes\<close>, what goes over the wire in \<^verbatim>\<open>Responses\<close>.
\<close>

subsection \<open>Responses\<close>

datatype error_message =
    MToolNotFound string
  | MNoSuchTool
  | MBadBody
  | MBodyTooLarge
  | MTrailingContent
  | MContractViolation
  | MBadWait string
  | MNegativeWait
  | MQueue queue_error
  | MStoreUnavailable
  | MJobNotFound
  | MBadTimeout string
  | MNegativeTimeout
  | MBadLimit
  | MNotTerminal
  | MNoItems
  | MTooManyItems nat
  | MBatchNotFound
  | MInvalidPath
  | MNotDeclaredOut
  | MNotYetWritten
  | MNotRegular
  | MContractUndecodable
  | MUnauthorized
  | MNoRoute
  | MNoMethod

record batch_progress =
  bp_id :: string
  bp_total :: nat
  bp_queued :: nat
  bp_running :: nat
  bp_done :: nat
  bp_failed :: nat
  bp_canceled :: nat
  bp_jobs :: "job list"

record tool_listing =
  tg_name :: string
  tg_summary :: string
  tg_mode :: string
  tg_max_retries :: int
  tg_timeout_ms :: int
  tg_effects :: side_effects

datatype body =
    BError error_message
  | BViolations "violation list"
  | BItemViolations "(nat \<times> violation list) list"
  | BJob job
  | BConflict job
  | BJobs "job list"
  | BInbox "job list"
  | BBatchAccepted string string "string list"
  | BBatchPartial queue_error string "string list" nat
  | BBatch batch_progress
  | BStats stats
  | BStatus stats string nat enforcement_report
  | BTools "tool_listing list"
  | BContract gmap
  | BFile string
  | BPreflight preflight_report
  | BRedirect

record response =
  rs_code :: nat
  rs_location :: "string option"
  rs_retry_after :: bool
  rs_body :: body

definition respond :: "nat \<Rightarrow> body \<Rightarrow> response" where
  "respond code b = \<lparr>rs_code = code, rs_location = None, rs_retry_after = False, rs_body = b\<rparr>"

definition failing :: "nat \<Rightarrow> error_message \<Rightarrow> response" where
  "failing code m = respond code (BError m)"

subsection \<open>Bodies\<close>

definition max_request_body :: nat where
  "max_request_body = 8 * 2 ^ 20"

definition max_batch_items :: nat where
  "max_batch_items = 10000"

text \<open>
  What the decoder makes of the bytes it may read: a document and the bytes after it, an
  error, or a document that has not ended.
\<close>

datatype 'a scan = ScanDone 'a string | ScanBad | ScanMore

definition json_space :: "char \<Rightarrow> bool" where
  "json_space c \<longleftrightarrow> c \<in> {CHR 0x20, CHR 0x09, CHR 0x0A, CHR 0x0D}"

text \<open>\<^verbatim>\<open>Decoder.More\<close>: a byte follows the white space that does not close an array or object.\<close>

definition decoder_more :: "string \<Rightarrow> bool" where
  "decoder_more rest =
     (case dropWhile json_space rest of [] \<Rightarrow> False | c # _ \<Rightarrow> c \<noteq> CHR '']'' \<and> c \<noteq> CHR ''}'')"

definition decode_body :: "(string \<Rightarrow> 'a scan) \<Rightarrow> string \<Rightarrow> (error_message, 'a) result" where
  "decode_body scan b =
     (case scan (take max_request_body b) of
        ScanBad \<Rightarrow> Inl MBadBody
      | ScanMore \<Rightarrow> if length b > max_request_body then Inl MBodyTooLarge else Inl MBadBody
      | ScanDone v rest \<Rightarrow> if decoder_more rest then Inl MTrailingContent else Inr v)"

record submit_request =
  sr_input :: gmap
  sr_meta :: gmap
  sr_idem_key :: string

record batch_request =
  br_tool :: string
  br_items :: "gmap list"
  br_meta :: gmap

text \<open>A nil document becomes the empty one.\<close>

definition non_nil :: "gmap \<Rightarrow> schema" where
  "non_nil m = (case m of None \<Rightarrow> [] | Some o1 \<Rightarrow> o1)"

subsection \<open>Waits\<close>

definition max_wait :: int where
  "max_wait = 55 * 1000000000"

definition parse_wait :: "string \<Rightarrow> (error_message, int) result" where
  "parse_wait raw =
     (if raw = [] then Inr 0
      else case parse_duration raw of
             None \<Rightarrow> Inl (MBadWait raw)
           | Some d \<Rightarrow> if d < 0 then Inl MNegativeWait else Inr (if d > max_wait then max_wait else d))"

text \<open>The timeout of the two long polls: 25 seconds unless one is given.\<close>

definition poll_timeout :: "string \<Rightarrow> (error_message, int) result" where
  "poll_timeout raw =
     (if raw = [] then Inr (25 * 1000000000)
      else case parse_duration raw of
             None \<Rightarrow> Inl (MBadTimeout raw)
           | Some d \<Rightarrow> if d < 0 then Inl MNegativeTimeout else Inr (if d > max_wait then max_wait else d))"

text \<open>How a wait of so many nanoseconds for a job ends, and the queue then.\<close>

type_synonym 's waiter = "int \<Rightarrow> string \<Rightarrow> 's queue \<Rightarrow> (store_error, job option) result \<times> 's queue"
type_synonym 's any_waiter = "int \<Rightarrow> 's queue \<Rightarrow> (store_error, job list) result \<times> 's queue"

subsection \<open>Submitting\<close>

type_synonym toolbox = "(string \<times> tool) list"

definition gate :: "tool \<Rightarrow> schema \<Rightarrow> violation list" where
  "gate t input = (case tl_input t of None \<Rightarrow> [] | Some s \<Rightarrow> validate s (GObj input))"

text \<open>
  \<open>None\<close> is a nil dereference: the waited-for job must exist. The wait of a direct tool is its
  whole budget, in 64-bit arithmetic.
\<close>

definition submit_wait :: "tool \<Rightarrow> int \<Rightarrow> int" where
  "submit_wait t wait = (if is_queued (tl_exec t) then wait else sint (max_total_duration (tl_exec t)))"

definition job_response :: "job \<Rightarrow> response" where
  "job_response j = respond (if is_terminal (jb_status j) then 200 else 202) (BJob j)"

definition after_submit ::
    "'s waiter \<Rightarrow> tool \<Rightarrow> int \<Rightarrow> job \<Rightarrow> 's queue \<Rightarrow> response option \<times> 's queue" where
  "after_submit waiter t wait j q =
     (if submit_wait t wait \<le> 0 then
        (Some ((respond 202 (BJob j))\<lparr>rs_location := Some (''/jobs/'' @ jb_id j)\<rparr>), q)
      else case waiter (submit_wait t wait) (jb_id j) q of
             (Inl e, q1) \<Rightarrow> (Some (failing 503 MStoreUnavailable), q1)
           | (Inr None, q1) \<Rightarrow> (None, q1)
           | (Inr (Some k), q1) \<Rightarrow>
               (Some ((job_response k)\<lparr>rs_location := Some (''/jobs/'' @ jb_id k)\<rparr>), q1))"

definition handle_submit ::
    "'s store_ops \<Rightarrow> toolbox \<Rightarrow> (string \<Rightarrow> submit_request scan) \<Rightarrow> 's waiter \<Rightarrow> 8 word list \<Rightarrow> gtime
     \<Rightarrow> string \<Rightarrow> string \<Rightarrow> string \<Rightarrow> 's queue \<Rightarrow> response option \<times> 's queue" where
  "handle_submit ops tools scan waiter random now name b wait_param q =
     (case map_of tools name of
        None \<Rightarrow> (Some (failing 404 (MToolNotFound name)), q)
      | Some t \<Rightarrow>
          (case decode_body scan b of
             Inl m \<Rightarrow> (Some (failing 400 m), q)
           | Inr req \<Rightarrow>
               (let input = non_nil (sr_input req); viol = gate t input in
                if viol \<noteq> [] then (Some (respond 400 (BViolations viol)), q)
                else case parse_wait wait_param of
                       Inl m \<Rightarrow> (Some (failing 400 m), q)
                     | Inr wait \<Rightarrow>
                         (case submit ops random now t (Some input) (sr_meta req) (sr_idem_key req) [] q of
                            (Inl e, q1) \<Rightarrow>
                              (if e = QueueFull
                               then (Some ((failing 503 (MQueue e))\<lparr>rs_retry_after := True\<rparr>), q1)
                               else (Some (failing 500 (MQueue e)), q1))
                          | (Inr j, q1) \<Rightarrow> after_submit waiter t wait j q1))))"

text \<open>A batch: every item passes the gate before the first job is made.\<close>

definition item_violations :: "tool \<Rightarrow> schema list \<Rightarrow> (nat \<times> violation list) list" where
  "item_violations t items =
     filter (\<lambda>(i, vs). vs \<noteq> []) (map (\<lambda>(i, item). (i, gate t item)) (List.enumerate 0 items))"

text \<open>\<open>draws\<close> holds the random bytes and the creation time of each item's job.\<close>

definition handle_create_batch ::
    "'s store_ops \<Rightarrow> toolbox \<Rightarrow> (string \<Rightarrow> batch_request scan) \<Rightarrow> 8 word list \<Rightarrow> (nat \<Rightarrow> 8 word list \<times> gtime)
     \<Rightarrow> string \<Rightarrow> 's queue \<Rightarrow> response \<times> 's queue" where
  "handle_create_batch ops tools scan random draws b q =
     (case decode_body scan b of
        Inl m \<Rightarrow> (failing 400 m, q)
      | Inr req \<Rightarrow>
          (case map_of tools (br_tool req) of
             None \<Rightarrow> (failing 404 (MToolNotFound (br_tool req)), q)
           | Some t \<Rightarrow>
               if br_items req = [] then (failing 400 MNoItems, q)
               else if length (br_items req) > max_batch_items
               then (failing 413 (MTooManyItems (length (br_items req))), q)
               else (let items = map non_nil (br_items req); viol = item_violations t items in
                 if viol \<noteq> [] then (respond 400 (BItemViolations viol), q)
                 else case submit_batch ops random t (br_meta req)
                        (map (\<lambda>(i, item). (fst (draws i), snd (draws i), Some item)) (List.enumerate 0 items)) q of
                        (bid, js, Some e, q1) \<Rightarrow>
                          ((respond (if e = QueueFull then 503 else 500)
                              (BBatchPartial e bid (map jb_id js) (length items - length js)))
                             \<lparr>rs_retry_after := (e = QueueFull)\<rparr>, q1)
                      | (bid, js, None, q1) \<Rightarrow>
                          ((respond 202 (BBatchAccepted bid (tl_name t) (map jb_id js)))
                             \<lparr>rs_location := Some (''/batches/'' @ bid)\<rparr>, q1))))"

subsection \<open>Jobs\<close>

definition handle_get_job :: "'s store_ops \<Rightarrow> string \<Rightarrow> 's queue \<Rightarrow> response \<times> 's queue" where
  "handle_get_job ops i q =
     (case get_job ops i q of
        (Inl e, q1) \<Rightarrow> (failing 503 MStoreUnavailable, q1)
      | (Inr None, q1) \<Rightarrow> (failing 404 MJobNotFound, q1)
      | (Inr (Some j), q1) \<Rightarrow> (respond 200 (BJob j), q1))"

definition handle_wait_job :: "'s waiter \<Rightarrow> string \<Rightarrow> string \<Rightarrow> 's queue \<Rightarrow> response \<times> 's queue" where
  "handle_wait_job waiter i raw q =
     (case poll_timeout raw of
        Inl m \<Rightarrow> (failing 400 m, q)
      | Inr tmo \<Rightarrow>
          (case waiter tmo i q of
             (Inl e, q1) \<Rightarrow> (failing 503 MStoreUnavailable, q1)
           | (Inr None, q1) \<Rightarrow> (failing 404 MJobNotFound, q1)
           | (Inr (Some j), q1) \<Rightarrow> (job_response j, q1)))"

definition handle_cancel_job :: "'s store_ops \<Rightarrow> gtime \<Rightarrow> string \<Rightarrow> 's queue \<Rightarrow> response \<times> 's queue" where
  "handle_cancel_job ops now i q =
     (case cancel_job ops i now q of
        (Inl e, q1) \<Rightarrow> (failing 503 MStoreUnavailable, q1)
      | (Inr (None, canceled), q1) \<Rightarrow> (failing 404 MJobNotFound, q1)
      | (Inr (Some j, canceled), q1) \<Rightarrow>
          (if canceled then respond 200 (BJob j) else respond 409 (BConflict j), q1))"

definition inbox_limit :: "string \<Rightarrow> int option" where
  "inbox_limit raw =
     (if raw = [] then Some 50
      else case atoi raw of None \<Rightarrow> None | Some n \<Rightarrow> if n \<le> 0 then None else Some n)"

definition handle_list_inbox :: "'s store_ops \<Rightarrow> string \<Rightarrow> 's queue \<Rightarrow> response \<times> 's queue" where
  "handle_list_inbox ops raw q =
     (case inbox_limit raw of
        None \<Rightarrow> (failing 400 MBadLimit, q)
      | Some n \<Rightarrow>
          (case inbox ops n q of
             (Inl e, q1) \<Rightarrow> (failing 503 MStoreUnavailable, q1)
           | (Inr js, q1) \<Rightarrow> (respond 200 (BInbox js), q1)))"

definition handle_wait_any :: "'s any_waiter \<Rightarrow> string \<Rightarrow> 's queue \<Rightarrow> response \<times> 's queue" where
  "handle_wait_any waiter raw q =
     (case poll_timeout raw of
        Inl m \<Rightarrow> (failing 400 m, q)
      | Inr tmo \<Rightarrow>
          (case waiter tmo q of
             (Inl e, q1) \<Rightarrow> (failing 503 MStoreUnavailable, q1)
           | (Inr js, q1) \<Rightarrow> (respond 200 (BJobs js), q1)))"

definition handle_ack_job :: "'s store_ops \<Rightarrow> gtime \<Rightarrow> string \<Rightarrow> 's queue \<Rightarrow> response \<times> 's queue" where
  "handle_ack_job ops now i q =
     (case ack_job ops i now q of
        (Inl e, q1) \<Rightarrow>
          (if e = JobNotFound then failing 404 MJobNotFound
           else if e = JobNotTerminal then failing 409 MNotTerminal
           else failing 503 MStoreUnavailable, q1)
      | (Inr j, q1) \<Rightarrow> (respond 200 (BJob j), q1))"

definition handle_get_batch :: "'s store_ops \<Rightarrow> string \<Rightarrow> 's queue \<Rightarrow> response \<times> 's queue" where
  "handle_get_batch ops b q =
     (case batch_jobs ops b q of
        (Inl e, q1) \<Rightarrow> (failing 503 MStoreUnavailable, q1)
      | (Inr js, q1) \<Rightarrow>
          (if js = [] then failing 404 MBatchNotFound
           else respond 200 (BBatch
             \<lparr>bp_id = b, bp_total = length js, bp_queued = count_status Queued js,
              bp_running = count_status Running js, bp_done = count_status Done js,
              bp_failed = count_status Failed js, bp_canceled = count_status Canceled js,
              bp_jobs = js\<rparr>), q1))"

subsection \<open>Output files\<close>

definition declares_out :: "tool \<Rightarrow> string \<Rightarrow> bool" where
  "declares_out t rel \<longleftrightarrow> (\<exists>f\<in>set (sb_out (tl_sandbox t)). clean f = clean rel)"

definition handle_get_out_file ::
    "'s store_ops \<Rightarrow> toolbox \<Rightarrow> os_env \<Rightarrow> string \<Rightarrow> string \<Rightarrow> string \<Rightarrow> 's queue \<Rightarrow> response \<times> 's queue" where
  "handle_get_out_file ops tools env data_dir i rel q =
     (case get_job ops i q of
        (Inl e, q1) \<Rightarrow> (failing 503 MStoreUnavailable, q1)
      | (Inr None, q1) \<Rightarrow> (failing 404 MJobNotFound, q1)
      | (Inr (Some j), q1) \<Rightarrow>
          (if path_traverses rel then failing 400 MInvalidPath
           else if (case map_of tools (jb_tool j) of None \<Rightarrow> True | Some t \<Rightarrow> \<not> declares_out t rel)
           then failing 404 MNotDeclaredOut
           else let base = join_path [data_dir, ''jobs'', i, ''out'']; p = join_path [base, clean rel] in
             if \<not> has_prefix p (base @ ''/'') \<and> p \<noteq> base then failing 400 MInvalidPath
             else case os_lstat env p of
                    None \<Rightarrow> failing 404 MNotYetWritten
                  | Some fi \<Rightarrow>
                      if fi_kind fi \<noteq> KRegular then failing 403 MNotRegular
                      else respond 200 (BFile p), q1))"

subsection \<open>Tools and status\<close>

definition handle_list_tools :: "toolbox \<Rightarrow> response" where
  "handle_list_tools tools =
     respond 200 (BTools (List.map_filter
       (\<lambda>n. map_option (\<lambda>t. \<lparr>tg_name = tl_name t, tg_summary = tl_summary t,
                               tg_mode = or_default (ex_mode (tl_exec t)) ''queued'',
                               tg_max_retries = ex_max_retries (tl_exec t),
                               tg_timeout_ms = ex_timeout_ms (tl_exec t),
                               tg_effects = tl_effects t\<rparr>) (map_of tools n))
       (sort (keys_of tools))))"

definition handle_get_tool :: "toolbox \<Rightarrow> (string \<Rightarrow> gmap option) \<Rightarrow> string \<Rightarrow> response" where
  "handle_get_tool tools yaml_generic name =
     (case map_of tools name of
        None \<Rightarrow> failing 404 MNoSuchTool
      | Some t \<Rightarrow>
          (case as_json yaml_generic t of
             None \<Rightarrow> failing 500 MContractUndecodable
           | Some c \<Rightarrow> respond 200 (BContract c)))"

definition handle_queue_stats :: "'s queue \<Rightarrow> response" where
  "handle_queue_stats q = respond 200 (BStats (queue_stats q))"

definition handle_status :: "toolbox \<Rightarrow> string \<Rightarrow> posture \<Rightarrow> 's queue \<Rightarrow> response" where
  "handle_status tools version p q =
     respond 200 (BStatus (queue_stats q) version (length tools) (enforcement p))"

subsection \<open>Authentication\<close>

text \<open>
  The wrapper around every handler when authentication is on; \<open>header\<close> is the value of the
  Authorization header, empty when there is none.
\<close>

definition bearer :: string where
  "bearer = ''Bearer ''"

definition require_auth ::
    "string \<Rightarrow> ('s queue \<Rightarrow> response option \<times> 's queue) \<Rightarrow> string \<Rightarrow> 's queue \<Rightarrow> response option \<times> 's queue" where
  "require_auth token handler header q =
     (case cut_prefix header bearer of
        None \<Rightarrow> (Some (failing 401 MUnauthorized), q)
      | Some got \<Rightarrow> if got \<noteq> token then (Some (failing 401 MUnauthorized), q) else handler q)"

definition guarded ::
    "settings \<Rightarrow> ('s queue \<Rightarrow> response option \<times> 's queue) \<Rightarrow> string \<Rightarrow> 's queue \<Rightarrow> response option \<times> 's queue" where
  "guarded s handler header q =
     (if se_auth_enabled s then require_auth (se_auth_token s) handler header q else handler q)"

subsection \<open>Submissions\<close>

lemma failing_simps [simp]:
  "rs_code (failing c m) = c" "rs_body (failing c m) = BError m" "rs_location (failing c m) = None"
  "rs_code (respond c b) = c" "rs_body (respond c b) = b" "rs_location (respond c b) = None"
  by (simp_all add: failing_def respond_def)

lemma submit_tracks:
  assumes "tracked_ok q" "submit ops random now t input meta key batch q = (Inr cp, q1)"
  shows "lookup_job q1 (jb_id cp) \<noteq> None \<and> tracked_ok q1"
proof -
  have keep: "tracked_ok (q\<lparr>q_reserved := n, q_store := s\<rparr>)" "tracked_ok (q\<lparr>q_reserved := n\<rparr>)"
    "tracked_ok (release (q\<lparr>q_reserved := n, q_store := s\<rparr>))" for n s
    using assms(1) by (simp_all add: tracked_ok_def lookup_job_def release_def)
  have d: "lookup_job q' (jb_id c) \<noteq> None \<and> tracked_ok q'" if "dedupe k r = (c, q')" "tracked_ok r" for k r c q'
  proof -
    have "lookup_job q' (jb_id k) \<noteq> None"
      using that(1) lookup_put_job[of "jb_id k" "q_next r" "snd (new_object k r)" "jb_id k"]
      by (auto simp: dedupe_def new_object_def Let_def split: option.splits)
    with dedupe_result[OF that(2,1)] show ?thesis by simp
  qed
  let ?j = "make_job random now t input meta key batch"
  show ?thesis
    by (rule submit_job_cases[of ops ?j q])
       (use assms(2) keep(1,2) in \<open>auto simp: submit_def lookup_track tracked_ok_track
          dest: d[OF _ keep(3)] split: prod.splits\<close>)
qed

text \<open>What a wait does to a tracked job: it finds it, under its id, and it stays tracked.\<close>

definition waits_ok :: "'s waiter \<Rightarrow> bool" where
  "waits_ok waiter \<longleftrightarrow>
     (\<forall>w i q r q1. waiter w i q = (r, q1) \<longrightarrow> lookup_job q i \<noteq> None \<longrightarrow>
        r \<noteq> Inr None \<and> (\<forall>k. r = Inr (Some k) \<longrightarrow> jb_id k = i) \<and> lookup_job q1 i \<noteq> None)"

lemma get_job_tracked:
  "lookup_job q i \<noteq> None \<Longrightarrow> rs_code (fst (handle_get_job ops i q)) = 200"
  by (auto simp: handle_get_job_def get_job_def)

lemma waits_okD:
  assumes "waits_ok waiter" "waiter w i q = (r, q1)" "lookup_job q i \<noteq> None"
  shows "r \<noteq> Inr None" "r = Inr (Some k) \<Longrightarrow> jb_id k = i" "lookup_job q1 i \<noteq> None"
  using assms unfolding waits_ok_def by metis+

text \<open>An answer to an accepted submission: its Location leads to a tracked job.\<close>

definition leads_to_job :: "'s queue \<Rightarrow> response \<Rightarrow> bool" where
  "leads_to_job q r \<longleftrightarrow> (\<exists>i. rs_location r = Some (''/jobs/'' @ i) \<and> lookup_job q i \<noteq> None)"

lemma after_submit_answers:
  assumes "waits_ok waiter" "lookup_job q (jb_id j) \<noteq> None" "after_submit waiter t w j q = (x, q1)"
  obtains r where "x = Some r" "rs_code r = 503 \<or> rs_code r \<in> {200, 202} \<and> leads_to_job q1 r"
proof (cases "submit_wait t w \<le> 0")
  case True
  with assms(2,3) show thesis
    by (intro that[of "the x"]) (auto simp: after_submit_def leads_to_job_def)
next
  case False
  obtain r q2 where w: "waiter (submit_wait t w) (jb_id j) q = (r, q2)" by fastforce
  note d = waits_okD[OF assms(1) w assms(2)]
  show thesis
  proof (cases r)
    case (Inl e)
    with False w assms(3) show ?thesis by (intro that[of "failing 503 MStoreUnavailable"]) (simp_all add: after_submit_def)
  next
    case (Inr y)
    with d(1) obtain k where k: "r = Inr (Some k)" by (cases y) auto
    let ?r = "(job_response k)\<lparr>rs_location := Some (''/jobs/'' @ jb_id k)\<rparr>"
    have "x = Some ?r" "q1 = q2" using False w k assms(3) by (simp_all add: after_submit_def)
    moreover have "leads_to_job q2 ?r" using d(2)[OF k] d(3) by (auto simp: leads_to_job_def)
    ultimately show ?thesis by (intro that[of ?r]) (auto simp: job_response_def)
  qed
qed


definition sample_request :: submit_request where
  "sample_request = \<lparr>sr_input = None, sr_meta = None, sr_idem_key = []\<rparr>"


subsection \<open>Batches\<close>

lemma submit_items_length:
  "submit_items ops t meta batch items q = (js, e, q') \<Longrightarrow>
     length js \<le> length items \<and> (e = None \<longleftrightarrow> length js = length items)"
proof (induction items arbitrary: js e q q')
  case (Cons i items)
  obtain random now input where i: "i = (random, now, input)" by (cases i) auto
  obtain o1 q1 where s: "submit ops random now t input meta [] batch q = (o1, q1)" by fastforce
  show ?case
  proof (cases o1)
    case (Inl x)
    with Cons.prems i s show ?thesis by auto
  next
    case (Inr j)
    obtain js' e' q'' where r: "submit_items ops t meta batch items q1 = (js', e', q'')"
      by (cases "submit_items ops t meta batch items q1") auto
    with Cons.IH[OF r] Cons.prems i s Inr show ?thesis by auto
  qed
qed auto

lemma item_violations_Nil:
  "item_violations t items = [] \<longleftrightarrow> (\<forall>item\<in>set items. gate t item = [])"
proof
  assume n: "item_violations t items = []"
  show "\<forall>item\<in>set items. gate t item = []"
  proof
    fix item assume "item \<in> set items"
    then obtain i where i: "(i, item) \<in> set (List.enumerate 0 items)" using mem_enumerate by metis
    from n have "\<forall>e\<in>set (List.enumerate 0 items). gate t (snd e) = []"
      by (force simp: item_violations_def filter_empty_conv)
    with i show "gate t item = []" by fastforce
  qed
next
  assume "\<forall>item\<in>set items. gate t item = []"
  then show "item_violations t items = []"
    by (auto simp: item_violations_def filter_empty_conv dest: enumerate_mem)
qed



text \<open>The progress of a batch adds up.\<close>

lemma count_status_total:
  "count_status Queued js + count_status Running js + count_status Done js + count_status Failed js
     + count_status Canceled js = length js"
proof (induction js)
  case (Cons j js)
  then show ?case by (cases "jb_status j") (simp_all add: count_status_def)
qed (simp add: count_status_def)

theorem batch_progress_adds_up:
  assumes "rs_body (fst (handle_get_batch ops b q)) = BBatch p"
  shows "bp_queued p + bp_running p + bp_done p + bp_failed p + bp_canceled p = bp_total p
    \<and> bp_total p = length (bp_jobs p) \<and> 0 < bp_total p"
  using assms count_status_total[of "bp_jobs p"]
  by (auto simp: handle_get_batch_def split: prod.splits sum.splits if_splits)

subsection \<open>Output files\<close>

text \<open>
  C33: What the file surface can serve. A path that is served lies inside the output directory
  of the job that was asked for, the contract of that job's tool declares it, and it is a
  regular file when looked at, for a clean absolute data directory and an id that is one plain
  path component.
\<close>

theorem out_file_confined:
  assumes "clean_abs data_dir" "plain_comp i"
    and "rs_body (fst (handle_get_out_file ops tools env data_dir i rel q)) = BFile p"
  shows "below (join_path [data_dir, ''jobs'', i, ''out'']) p
    \<and> (\<exists>j t fi. fst (get_job ops i q) = Inr (Some j) \<and> map_of tools (jb_tool j) = Some t
        \<and> clean rel \<in> clean ` set (sb_out (tl_sandbox t))
        \<and> os_lstat env p = Some fi \<and> fi_kind fi = KRegular)"
proof -
  obtain ds where ds: "\<forall>c\<in>set ds. plain_comp c" "data_dir = ''/'' @ join_with ''/'' ds"
    using assms(1) by (rule clean_absE)
  have pl: "plain_comp ''jobs''" "plain_comp ''out''" by (simp_all add: plain_comp_def dotdot_def)
  let ?base = "join_path [data_dir, ''jobs'', i, ''out'']"
  have base: "?base = ''/'' @ join_with ''/'' (ds @ [''jobs'', i, ''out''])"
    unfolding ds(2) by (rule join_path_rooted[OF ds(1)]) (use assms(2) pl in auto)
  have pds: "\<forall>c\<in>set (ds @ [''jobs'', i, ''out'']). plain_comp c" using ds(1) assms(2) pl by auto
  obtain j q1 where g: "get_job ops i q = (Inr (Some j), q1)"
    using assms(3) by (cases "get_job ops i q")
      (auto simp: handle_get_out_file_def split: sum.splits option.splits)
  with assms(3) obtain t fi where t: "map_of tools (jb_tool j) = Some t" "declares_out t rel"
    "\<not> path_traverses rel" "p = join_path [?base, clean rel]" "os_lstat env p = Some fi" "fi_kind fi = KRegular"
    by (auto simp: handle_get_out_file_def Let_def split: option.splits if_splits)
  have "\<not> is_abs rel" "dotdot \<notin> set (path_comps rel)"
    using t(3) path_comps_dotdot by (auto simp: path_traverses_def)
  from join_path_clean_rel[OF pds this] have "below ?base p"
    unfolding t(4) base by (simp only: below_join)
  moreover have "clean rel \<in> clean ` set (sb_out (tl_sandbox t))"
    using t(2) unfolding declares_out_def by (metis imageI)
  ultimately show ?thesis using g t by auto
qed

lemma out_file_confined_witness:
  "below (join_path [''/data'', ''jobs'', ''ab'', ''out'']) ''/data/jobs/ab/out/r.json''"
proof -
  let ?t = "(sample_tool ''/t/run'')\<lparr>tl_sandbox := \<lparr>sb_in = [], sb_out = [''r.json'']\<rparr>\<rparr>"
  let ?q = "snd (track_and_enqueue (sample_job ''ab'' [] [] 0) (new_queue 1 (None :: sqlite_db option)))"
  let ?env = "one_file_env ''/data/jobs/ab/out/r.json'' ''null''"
  have c: "clean_abs ''/data''" by (simp add: clean_abs_def is_abs_def has_prefix_def, code_simp)
  have i: "plain_comp ''ab''" by (simp add: plain_comp_def dotdot_def)
  have base: "join_path [''/data'', ''jobs'', ''ab'', ''out''] = ''/data/jobs/ab/out''" by code_simp
  have p: "join_path [''/data/jobs/ab/out'', clean ''r.json''] = ''/data/jobs/ab/out/r.json''" by code_simp
  have pre: "has_prefix ''/data/jobs/ab/out/r.json'' (''/data/jobs/ab/out'' @ ''/'')" by code_simp
  have "lookup_job ?q ''ab'' = Some 0 \<and> q_heap ?q 0 = sample_job ''ab'' [] [] 0"
    using lookup_track[of "sample_job ''ab'' [] [] 0" "new_queue 1 (None :: sqlite_db option)" "''ab''"]
    by (simp add: track_and_enqueue_simps(1)) (simp add: track_and_enqueue_simps new_queue_def)
  then have g: "get_job sqlite_ops ''ab'' ?q = (Inr (Some (sample_job ''ab'' [] [] 0)), ?q)"
    by (simp add: get_job_def)
  have "rs_body (fst (handle_get_out_file sqlite_ops [(''greet'', ?t)] ?env ''/data'' ''ab'' ''r.json'' ?q))
      = BFile ''/data/jobs/ab/out/r.json''"
    using pre by (simp add: handle_get_out_file_def g base p path_traverses_def is_abs_def has_prefix_def
        declares_out_def one_file_env_def Let_def del: append.simps)
  from out_file_confined[OF c i this] show ?thesis by simp
qed

subsection \<open>Bodies, waits and tokens\<close>

text \<open>
  Which bodies are taken. A body is accepted exactly when a document ends within the first
  eight mebibytes and what follows it is white space, or starts, after white space, with a
  closing bracket or brace: text after such a byte is not noticed.
\<close>

theorem decode_body_accepts_iff:
  "decode_body scan b = Inr v \<longleftrightarrow>
     (\<exists>rest. scan (take max_request_body b) = ScanDone v rest
        \<and> (list_all json_space rest
           \<or> (\<exists>ws c junk. rest = ws @ c # junk \<and> list_all json_space ws \<and> c \<in> {CHR '']'', CHR ''}''})))"
proof -
  have m: "\<not> decoder_more rest \<longleftrightarrow> list_all json_space rest
      \<or> (\<exists>ws c junk. rest = ws @ c # junk \<and> list_all json_space ws \<and> c \<in> {CHR '']'', CHR ''}''})" for rest
  proof (cases "dropWhile json_space rest")
    case Nil
    have "\<not> decoder_more rest" unfolding decoder_more_def Nil by simp
    moreover have "list_all json_space rest" using Nil by (simp add: list_all_iff dropWhile_eq_Nil_conv)
    ultimately show ?thesis by blast
  next
    case (Cons c junk)
    have r: "rest = takeWhile json_space rest @ c # junk" using Cons by (metis takeWhile_dropWhile_id)
    have c: "\<not> json_space c" using Cons by (metis hd_dropWhile list.sel(1) list.discI)
    have u: "d = c" if "rest = ws @ d # js" "list_all json_space ws" "\<not> json_space d" for ws d js
      using that Cons by (simp add: list_all_iff dropWhile_append2)
    have "c \<in> set rest" using Cons set_dropWhileD[of c json_space rest] by simp
    with c have n: "\<not> list_all json_space rest" by (auto simp: list_all_iff)
    have t: "list_all json_space (takeWhile json_space rest)" by (auto simp: list_all_iff dest: set_takeWhileD)
    show ?thesis
    proof
      assume "\<not> decoder_more rest"
      then have "c \<in> {CHR '']'', CHR ''}''}" by (simp add: decoder_more_def Cons split: if_splits)
      with r t show "list_all json_space rest
          \<or> (\<exists>ws c junk. rest = ws @ c # junk \<and> list_all json_space ws \<and> c \<in> {CHR '']'', CHR ''}''})"
        by blast
    next
      assume "list_all json_space rest
          \<or> (\<exists>ws c junk. rest = ws @ c # junk \<and> list_all json_space ws \<and> c \<in> {CHR '']'', CHR ''}''})"
      with n obtain ws d js where d: "rest = ws @ d # js" "list_all json_space ws" "d \<in> {CHR '']'', CHR ''}''}"
        by blast
      then have "\<not> json_space d" by (auto simp: json_space_def)
      with u d have "c \<in> {CHR '']'', CHR ''}''}" by blast
      then show "\<not> decoder_more rest" by (auto simp: decoder_more_def Cons)
    qed
  qed
  show ?thesis unfolding m[symmetric] by (auto simp: decode_body_def split: scan.splits if_splits)
qed

text \<open>
  How long a request can make the desk wait. A wait that is accepted is between zero and
  55 seconds; one written in whole seconds is taken exactly, up to that cap, unless it does not
  fit a 64-bit duration, which is refused.
\<close>

theorem parse_wait_bounded:
  "(parse_wait raw = Inr d \<longrightarrow> 0 \<le> d \<and> d \<le> max_wait)
   \<and> parse_wait (nat_str n @ ''s'') =
       (if n \<le> 9223372036 then Inr (min (int n * 1000000000) max_wait)
        else Inl (MBadWait (nat_str n @ ''s'')))"
proof -
  have "nat_str n @ ''s'' \<noteq> []" by simp
  then show ?thesis
    by (auto simp: parse_wait_def parse_duration_seconds max_wait_def min_def split: option.splits if_splits)
qed

lemma parse_wait_bounded_witness: "parse_wait (nat_str 60 @ ''s'') = Inr max_wait"
  using parse_wait_bounded[of "[]" 0 60] by (simp add: max_wait_def)

lemma cut_prefix_Some: "cut_prefix s p = Some t \<longleftrightarrow> s = p @ t"
  by (auto simp: cut_prefix_def has_prefix_iff)

text \<open>
  With authentication on, nothing gets past a wrong token: unless the Authorization header
  is the bearer scheme followed by exactly the configured token, every request is answered 401
  and the queue is as before; with that header the handler runs.
\<close>

theorem wrong_token_changes_nothing:
  "guarded s handler header q =
     (if se_auth_enabled s \<and> header \<noteq> bearer @ se_auth_token s
      then (Some (failing 401 MUnauthorized), q) else handler q)"
proof (cases "cut_prefix header bearer")
  case None
  with cut_prefix_Some[of header bearer "se_auth_token s"] show ?thesis
    by (simp add: guarded_def require_auth_def)
next
  case (Some t)
  then have "header = bearer @ t" by (simp only: cut_prefix_Some)
  then have "t = se_auth_token s \<longleftrightarrow> header = bearer @ se_auth_token s" by (simp only: same_append_eq)
  with Some show ?thesis by (cases "t = se_auth_token s") (simp_all add: guarded_def require_auth_def)
qed

end
