(* ===== verification/Verify.thy ===== *)
theory Verify
  imports Tool_Loading "HOL-Library.Product_Lexorder"
begin

text \<open>
  The offline linter of contracts, \<^verbatim>\<open>cmd/tcs-verify/main.go\<close>, and what its verdict says of the
  desk that loads the same folder (\<^verbatim>\<open>Tool_Loading\<close>).

  YAML decoding into the linter's own small contract is a function argument (\<open>Inl\<close> is the text
  of its error), as is the text of the error that a failing system call on a path gives.
\<close>

subsection \<open>Findings\<close>

record vcontract =
  vc_name :: string
  vc_input :: "schema option"
  vc_output :: schema
  vc_integrity :: integrity_spec

record lint_finding =
  fd_msg :: string
  fd_warn :: bool

definition err_finding :: "string \<Rightarrow> lint_finding" where
  "err_finding m = \<lparr>fd_msg = m, fd_warn = False\<rparr>"

definition warn_finding :: "string \<Rightarrow> lint_finding" where
  "warn_finding m = \<lparr>fd_msg = m, fd_warn = True\<rparr>"

record verify_env =
  ve_os :: os_env
  ve_yaml :: "string \<Rightarrow> (string, vcontract) result"
  ve_err :: "string \<Rightarrow> string"

definition trim_dollar :: "string \<Rightarrow> string" where
  "trim_dollar e = trim_prefix e ''$''"

definition or_none :: "string \<Rightarrow> string" where
  "or_none s = (if trim_space s = [] then ''none '' @ em_dash @ '' no shebang'' else s)"

text \<open>\<^verbatim>\<open>%04o\<close> of permission bits.\<close>

definition octal4 :: "9 word \<Rightarrow> string" where
  "octal4 p = [CHR ''0'', digit_char (unat p div 64), digit_char (unat p div 8 mod 8), digit_char (unat p mod 8)]"

subsection \<open>The run script\<close>

definition pin_lines :: "string \<Rightarrow> string \<Rightarrow> string" where
  "pin_lines pin digest =
     newline @ ''       pinned:  '' @ pin @ newline @ ''       on disk: '' @ digest"

definition present_findings :: "string \<Rightarrow> fileinfo \<Rightarrow> lint_finding list" where
  "present_findings cand fi =
     (if fi_perm fi AND exec_bits = 0
      then [err_finding (cand @ '' exists but is not executable (chmod +x it)'')] else [])
     @ (if fi_perm fi AND bypass_bits \<noteq> 0
        then [warn_finding (cand @ '' is readable or executable by group/other (mode '' @ octal4 (fi_perm fi)
          @ '') '' @ em_dash @ '' anyone on the box can run it directly, bypassing the contract; ''
          @ ''chmod 700 it on a shared host'')] else [])"

text \<open>The first candidate that exists and is not a directory, with what is wrong with it.\<close>

fun first_present :: "os_env \<Rightarrow> string \<Rightarrow> string list \<Rightarrow> (string \<times> lint_finding list) option" where
  "first_present env dir [] = None"
| "first_present env dir (cand # cands) =
     (let p = join_path [dir, cand] in
      case os_stat env p of
        None \<Rightarrow> first_present env dir cands
      | Some fi \<Rightarrow>
          if fi_kind fi = KDir then first_present env dir cands
          else Some (p, present_findings cand fi))"

definition lint_run_pin :: "verify_env \<Rightarrow> string \<Rightarrow> vcontract \<Rightarrow> lint_finding list" where
  "lint_run_pin x run c =
     (let pin = wanted (run_sha256 (vc_integrity c)) in
      if pin = [] then []
      else case hash_file (ve_os x) run of
             None \<Rightarrow> [err_finding (''cannot hash run script to check its pin: '' @ ve_err x run)]
           | Some digest \<Rightarrow>
               if digest \<noteq> pin
               then [err_finding (''integrity.run_sha256 does not match the run script on disk'' @ pin_lines pin digest)]
               else [])"

definition lint_interpreter_pin :: "verify_env \<Rightarrow> string \<Rightarrow> vcontract \<Rightarrow> lint_finding list" where
  "lint_interpreter_pin x run c =
     (let pin = wanted (interpreter_sha256 (vc_integrity c)) in
      if pin = [] then []
      else case resolve_interpreter (ve_os x) run sandbox_path of
             (name, None) \<Rightarrow>
               [err_finding (''integrity.interpreter_sha256 is set but the interpreter ('' @ or_none name
                  @ '') could not be resolved on the sandbox PATH to hash'')]
           | (name, Some path) \<Rightarrow>
               (case hash_file (ve_os x) path of
                  None \<Rightarrow> [err_finding (''cannot hash interpreter '' @ path @ '' to check its pin: '' @ ve_err x path)]
                | Some digest \<Rightarrow>
                    if digest \<noteq> pin
                    then [err_finding (''integrity.interpreter_sha256 does not match '' @ name @ '' ('' @ path
                      @ '') on disk '' @ em_dash @ '' often a package upgrade; re-pin with agent-desk -pin''
                      @ pin_lines pin digest)]
                    else []))"

definition lint_run_script :: "verify_env \<Rightarrow> string \<Rightarrow> vcontract \<Rightarrow> lint_finding list" where
  "lint_run_script x dir c =
     (case first_present (ve_os x) dir [''run.sh'', ''run.py'', ''run''] of
        None \<Rightarrow> [err_finding ''no executable run script (run.sh / run.py / run) found'']
      | Some (run, fs) \<Rightarrow> fs @ lint_run_pin x run c @ lint_interpreter_pin x run c)"

subsection \<open>A file\<close>

definition finding_key :: "lint_finding \<Rightarrow> bool \<times> string" where
  "finding_key f = (fd_warn f, fd_msg f)"

definition contract_findings :: "vcontract \<Rightarrow> lint_finding list" where
  "contract_findings c =
     (if trim_space (vc_name c) = []
      then [warn_finding ''name is empty (the folder name would be used, but declaring it is clearer)''] else [])
     @ (case vc_input c of None \<Rightarrow> [] | Some s \<Rightarrow> map (\<lambda>e. err_finding (''input'' @ trim_dollar e)) (lint s))
     @ map (\<lambda>e. err_finding (''output.schema'' @ trim_dollar e)) (lint (vc_output c))"

definition lint_file :: "verify_env \<Rightarrow> string \<Rightarrow> lint_finding list" where
  "lint_file x path =
     (case os_read (ve_os x) path of
        None \<Rightarrow> [err_finding (''cannot read: '' @ ve_err x path)]
      | Some raw \<Rightarrow>
          (case ve_yaml x raw of
             Inl e \<Rightarrow> [err_finding (''invalid YAML: '' @ e)]
           | Inr c \<Rightarrow> sort_key finding_key (contract_findings c @ lint_run_script x (path_dir path) c)))"

subsection \<open>The command\<close>

definition resolve_target :: "verify_env \<Rightarrow> string \<Rightarrow> (string, string) result" where
  "resolve_target x target =
     (case os_stat (ve_os x) target of
        None \<Rightarrow> Inl (ve_err x target)
      | Some fi \<Rightarrow>
          if fi_kind fi = KDir
          then (let p = join_path [target, ''tcs.yaml''] in
                if os_stat (ve_os x) p = None then Inl (''no tcs.yaml in '' @ target) else Inr p)
          else Inr target)"

definition has_error :: "lint_finding list \<Rightarrow> bool" where
  "has_error fs \<longleftrightarrow> filter (\<lambda>f. \<not> fd_warn f) fs \<noteq> []"

definition format_finding :: "lint_finding \<Rightarrow> string" where
  "format_finding f = ''  '' @ (if fd_warn f then ''warn'' else ''FAIL'') @ '' '' @ fd_msg f @ newline"

text \<open>What is printed for a target and whether it failed.\<close>

definition verify_target :: "verify_env \<Rightarrow> string \<Rightarrow> string \<times> bool" where
  "verify_target x t =
     (case resolve_target x t of
        Inl e \<Rightarrow> (t @ newline @ ''  ERROR '' @ e @ newline, True)
      | Inr path \<Rightarrow>
          (let problems = lint_file x path in
           if problems = [] then (path @ newline @ ''  ok'' @ newline, False)
           else (path @ newline @ concat (map format_finding problems), has_error problems)))"

definition verify_main :: "verify_env \<Rightarrow> string list \<Rightarrow> string \<times> nat" where
  "verify_main x targets =
     (if targets = [] then ([], 2)
      else let results = map (verify_target x) targets;
               failed = length (filter snd results);
               n = length targets
           in if failed > 0
              then (concat (map fst results) @ newline @ nat_str failed @ '' of '' @ nat_str n
                    @ '' contract(s) have errors.'' @ newline, 1)
              else (concat (map fst results) @ newline @ ''all '' @ nat_str n @ '' contract(s) OK.'' @ newline, 0))"


subsection \<open>Errors among findings\<close>

lemma has_error_iff: "has_error fs \<longleftrightarrow> (\<exists>f\<in>set fs. \<not> fd_warn f)"
  by (auto simp: has_error_def filter_empty_conv)

lemma has_error_append [simp]: "has_error (fs @ gs) \<longleftrightarrow> has_error fs \<or> has_error gs"
  by (auto simp: has_error_iff)

lemma has_error_Nil [simp]: "\<not> has_error []"
  by (simp add: has_error_iff)

lemma has_error_sort [simp]: "has_error (sort_key k fs) \<longleftrightarrow> has_error fs"
  by (simp add: has_error_iff)

lemma has_error_single [simp]: "has_error [err_finding m]" "\<not> has_error [warn_finding m]"
  by (simp_all add: has_error_iff err_finding_def warn_finding_def)

lemma has_error_map_err [simp]: "has_error (map (\<lambda>e. err_finding (f e)) es) \<longleftrightarrow> es \<noteq> []"
  by (cases es) (auto simp: has_error_iff err_finding_def)

text \<open>
  The exit code of the linter. It is 0 exactly when there are targets and each of them
  resolves to a file without an error among its findings; warnings do not matter. Without
  targets it is 2.
\<close>

theorem verify_exit_zero_iff:
  "(snd (verify_main x ts) = 0 \<longleftrightarrow>
      ts \<noteq> [] \<and> list_all (\<lambda>t. is_ok (resolve_target x t) \<and> \<not> has_error (lint_file x (projr (resolve_target x t)))) ts)
   \<and> (snd (verify_main x ts) = 2 \<longleftrightarrow> ts = [])"
proof -
  have t: "snd (verify_target x t) \<longleftrightarrow>
      \<not> (is_ok (resolve_target x t) \<and> \<not> has_error (lint_file x (projr (resolve_target x t))))" for t
    by (auto simp: verify_target_def Let_def split: sum.split)
  have "filter snd (map (verify_target x) ts) = [] \<longleftrightarrow> list_all (\<lambda>t. \<not> snd (verify_target x t)) ts"
    by (auto simp: filter_empty_conv list_all_iff)
  then show ?thesis
    by (simp add: verify_main_def Let_def t)
qed

subsection \<open>The linter and the desk\<close>

lemma present_findings_error: "has_error (present_findings cand fi) \<longleftrightarrow> fi_perm fi AND exec_bits = 0"
  by (simp add: present_findings_def)

lemma first_present_runs:
  assumes "first_present env dir cands = Some (run, fs)" "\<not> has_error fs"
  shows "\<exists>w. first_run_script env dir cands = Some (run, w)"
  using assms by (induction cands) (auto simp: Let_def present_findings_error split: option.splits if_splits)

lemma lint_run_pin_ok:
  assumes "\<not> has_error (lint_run_pin x (tl_run_path t) c)" "tl_integrity t = vc_integrity c"
  shows "verify_run (ve_os x) t = None"
  using assms
  by (auto simp: lint_run_pin_def verify_run_def run_pinned_def wanted_def to_lower_def Let_def
      split: option.splits if_splits)

lemma lint_interpreter_pin_ok:
  assumes "\<not> has_error (lint_interpreter_pin x (tl_run_path t) c)" "tl_integrity t = vc_integrity c"
  shows "verify_interpreter (ve_os x) t = None"
  using assms
  by (auto simp: lint_interpreter_pin_def verify_interpreter_def interp_pinned_def wanted_def to_lower_def Let_def
      split: option.splits prod.splits if_splits)

lemma lint_run_script_ok:
  assumes "\<not> has_error (lint_run_script x dir c)"
  obtains run w where "resolve_run_script (ve_os x) dir = Some (run, w)"
    "\<forall>t. tl_run_path t = run \<and> tl_integrity t = vc_integrity c \<longrightarrow> verify_integrity (ve_os x) t = None"
proof -
  obtain run fs where f: "first_present (ve_os x) dir run_candidates = Some (run, fs)" "\<not> has_error fs"
    "\<not> has_error (lint_run_pin x run c)" "\<not> has_error (lint_interpreter_pin x run c)"
    using assms by (auto simp: lint_run_script_def run_candidates_def split: option.splits)
  obtain w where "resolve_run_script (ve_os x) dir = Some (run, w)"
    using first_present_runs[OF f(1,2)] by (auto simp: resolve_run_script_def)
  moreover have "verify_integrity (ve_os x) t = None" if "tl_run_path t = run" "tl_integrity t = vc_integrity c" for t
    using lint_run_pin_ok[of x t c] lint_interpreter_pin_ok[of x t c] f(3,4) that
    by (simp add: verify_integrity_def)
  ultimately show thesis using that by blast
qed

lemma contract_path_dir:
  assumes "clean_abs base" "plain_comp name"
  shows "path_dir (join_path [join_path [base, name], ''tcs.yaml'']) = join_path [base, name]"
proof -
  obtain ds where ds: "\<forall>c\<in>set ds. plain_comp c" "base = ''/'' @ join_with ''/'' ds"
    using clean_absE[OF assms(1)] by blast
  have p: "plain_comp ''tcs.yaml''" by code_simp
  have d: "join_path [base, name] = ''/'' @ join_with ''/'' (ds @ [name])"
    unfolding ds(2) by (rule join_path_rooted) (use ds(1) assms(2) in auto)
  have "join_path [join_path [base, name], ''tcs.yaml''] = ''/'' @ join_with ''/'' ((ds @ [name]) @ [''tcs.yaml''])"
    unfolding d by (rule join_path_rooted) (use ds(1) assms(2) p in auto)
  then show ?thesis
    unfolding d using path_dir_rooted[of "ds @ [name]" "''tcs.yaml''"] ds(1) assms(2) p by simp
qed

text \<open>
  C38: A contract the linter passes is honored by the desk: when the linter finds no error in
  the contract of a tool folder and the desk's decoder accepts the same text with the same
  schemas and pins, then the desk loads the folder, its run script is executable and meets
  its pins, and no value makes the gate stumble over the structure of the schemas.
\<close>

theorem verified_contract_is_honored:
  assumes "clean_abs base" "plain_comp name"
    and "os_read (ve_os x) (join_path [join_path [base, name], ''tcs.yaml'']) = Some raw"
    and "ve_yaml x raw = Inr c" "yaml raw = Some t0"
    and "tl_input t0 = vc_input c" "tl_output t0 = vc_output c" "tl_integrity t0 = vc_integrity c"
    and "\<not> has_error (lint_file x (join_path [join_path [base, name], ''tcs.yaml'']))"
  shows "\<exists>t evs. load_folder (ve_os x) yaml base name = (Some t, evs)
    \<and> executable (ve_os x) (tl_run_path t) \<and> verify_integrity (ve_os x) t = None
    \<and> tl_input t = vc_input c \<and> tl_output t = vc_output c
    \<and> (\<forall>s v e. (s = tl_output t \<or> tl_input t = Some s) \<and> e \<in> set (validate s v) \<longrightarrow> \<not> is_malformed e)"
proof -
  have e: "\<not> has_error (contract_findings c)" "\<not> has_error (lint_run_script x (join_path [base, name]) c)"
    using assms(9) unfolding lint_file_def contract_path_dir[OF assms(1,2)] by (simp_all add: assms(3,4))
  obtain run w where r: "resolve_run_script (ve_os x) (join_path [base, name]) = Some (run, w)"
    "\<forall>t. tl_run_path t = run \<and> tl_integrity t = vc_integrity c \<longrightarrow> verify_integrity (ve_os x) t = None"
    by (rule lint_run_script_ok[OF e(2)])
  have lints: "lint s = []" if "s = vc_output c \<or> vc_input c = Some s" for s
    using e(1) that by (auto simp: contract_findings_def split: option.splits)
  let ?t1 = "t0\<lparr>tl_dir := join_path [base, name], tl_raw := raw\<rparr>"
  let ?t = "(if tl_name ?t1 = [] then ?t1\<lparr>tl_name := name\<rparr> else ?t1)\<lparr>tl_run_path := run\<rparr>"
  have f: "tl_run_path ?t = run" "tl_input ?t = vc_input c" "tl_output ?t = vc_output c"
    "tl_integrity ?t = vc_integrity c" using assms(6-8) by simp_all
  have v: "verify_integrity (ve_os x) ?t = None" using r(2) f(1,4) by blast
  have "load_folder (ve_os x) yaml base name = (Some ?t, w)"
    using v unfolding load_folder_def Let_def assms(3) r(1) option.case assms(5) prod.case by simp
  moreover have "\<not> is_malformed er"
    if "s = vc_output c \<or> vc_input c = Some s" "er \<in> set (validate s va)" for s va er
    using that lint_clean_no_malformed[of s "''$''" er va "''$''"] lints[of s]
    by (simp add: lint_Nil validate_eq)
  then have "\<forall>s va er. (s = tl_output ?t \<or> tl_input ?t = Some s) \<and> er \<in> set (validate s va) \<longrightarrow> \<not> is_malformed er"
    unfolding f(2,3) by blast
  moreover have "executable (ve_os x) (tl_run_path ?t)"
    unfolding f(1) by (rule resolve_run_script_executable[OF r(1)])
  ultimately show ?thesis using v f(2,3) by blast
qed


text \<open>
  The linter examines the first run script that exists, the desk runs the first that is
  executable: a folder with a run.sh that is not executable and a run.py that is fails the
  linter, whatever its contract says, and the desk runs run.py.
\<close>

theorem linter_fails_what_the_desk_runs:
  assumes "os_stat (ve_os x) (join_path [dir, ''run.sh'']) = Some fi" "fi_kind fi \<noteq> KDir"
    and "fi_perm fi AND exec_bits = 0" "executable (ve_os x) (join_path [dir, ''run.py''])"
  shows "has_error (lint_run_script x dir c)
    \<and> map_option fst (resolve_run_script (ve_os x) dir) = Some (join_path [dir, ''run.py''])"
proof
  show "has_error (lint_run_script x dir c)"
    using assms(1-3) by (simp add: lint_run_script_def Let_def present_findings_error)
  have "\<not> executable (ve_os x) (join_path [dir, ''run.sh''])"
    using assms(1-3) by (simp add: executable_def)
  then show "map_option fst (resolve_run_script (ve_os x) dir) = Some (join_path [dir, ''run.py''])"
    unfolding resolve_run_script_def first_run_script_eq run_candidates_def using assms(4) by simp
qed

subsection \<open>Applications\<close>

definition sample_verify :: verify_env where
  "sample_verify =
     \<lparr>ve_os = uniform_env ''name: greet'',
      ve_yaml = (\<lambda>s. Inr \<lparr>vc_name = ''greet'', vc_input = tl_input (sample_tool []),
                         vc_output = tl_output (sample_tool []), vc_integrity = tl_integrity (sample_tool [])\<rparr>),
      ve_err = (\<lambda>p. [])\<rparr>"

lemma sample_verify_clean:
  "\<not> has_error (lint_file sample_verify (join_path [join_path [''/tools'', ''greet''], ''tcs.yaml'']))"
  by (simp add: lint_file_def sample_verify_def uniform_env_def contract_findings_def sample_tool_def
      lint_eval lint_run_script_def Let_def present_findings_error exec_bits_def
      lint_run_pin_def lint_interpreter_pin_def wanted_def to_lower_def)

lemma verified_contract_is_honored_witness:
  "\<exists>t evs. load_folder (ve_os sample_verify) (\<lambda>raw. Some (sample_tool [])) ''/tools'' ''greet'' = (Some t, evs)
     \<and> executable (ve_os sample_verify) (tl_run_path t)"
proof -
  have p: "clean_abs ''/tools''" "plain_comp ''greet''" by code_simp+
  have r: "os_read (ve_os sample_verify) (join_path [join_path [''/tools'', ''greet''], ''tcs.yaml'']) = Some ''name: greet''"
    by (simp add: sample_verify_def uniform_env_def)
  let ?c = "\<lparr>vc_name = ''greet'', vc_input = tl_input (sample_tool []),
      vc_output = tl_output (sample_tool []), vc_integrity = tl_integrity (sample_tool [])\<rparr>"
  have c: "ve_yaml sample_verify ''name: greet'' = Inr ?c" by (simp add: sample_verify_def)
  have d: "(\<lambda>raw :: string. Some (sample_tool [])) ''name: greet'' = Some (sample_tool [])" by simp
  have f: "tl_input (sample_tool []) = vc_input ?c" "tl_output (sample_tool []) = vc_output ?c"
    "tl_integrity (sample_tool []) = vc_integrity ?c" by simp_all
  show ?thesis using verified_contract_is_honored[OF p r c d f sample_verify_clean] by (elim exE conjE) (intro exI conjI)
qed

lemma linter_fails_what_the_desk_runs_witness:
  "has_error (lint_run_script (sample_verify\<lparr>ve_os := (uniform_env ''x'')\<lparr>os_stat := (\<lambda>p.
       Some \<lparr>fi_kind = KRegular, fi_perm = (if has_suffix p ''.sh'' then 384 else 448), fi_size = 1\<rparr>)\<rparr>\<rparr>)
     ''/t'' \<lparr>vc_name = [], vc_input = None, vc_output = [], vc_integrity = \<lparr>run_sha256 = [], interpreter_sha256 = []\<rparr>\<rparr>)"
proof -
  let ?x = "sample_verify\<lparr>ve_os := (uniform_env ''x'')\<lparr>os_stat := (\<lambda>p.
       Some \<lparr>fi_kind = KRegular, fi_perm = (if has_suffix p ''.sh'' then 384 else 448), fi_size = 1\<rparr>)\<rparr>\<rparr>"
  have p: "join_path [''/t'', ''run.sh''] = ''/t/run.sh''" "join_path [''/t'', ''run.py''] = ''/t/run.py''"
    by code_simp+
  have s: "has_suffix ''/t/run.sh'' ''.sh''" "\<not> has_suffix ''/t/run.py'' ''.sh''" by code_simp+
  have "os_stat (ve_os ?x) (join_path [''/t'', ''run.sh'']) = Some \<lparr>fi_kind = KRegular, fi_perm = 384, fi_size = 1\<rparr>"
    unfolding p using s(1) by simp
  moreover have "executable (ve_os ?x) (join_path [''/t'', ''run.py''])"
    unfolding p executable_def using s(2) by (simp add: exec_bits_def)
  ultimately show ?thesis
    using linter_fails_what_the_desk_runs[of ?x "''/t''" "\<lparr>fi_kind = KRegular, fi_perm = 384, fi_size = 1\<rparr>"]
    by (simp add: exec_bits_def)
qed

end
