(* ===== verification/Store_Open.thy ===== *)
theory Store_Open
  imports Go_Strings
begin

text \<open>
  Opening a store: \<^verbatim>\<open>NewSQLiteStore\<close> of \<^verbatim>\<open>cmd/agent-desk/store_sqlite.go\<close> and \<^verbatim>\<open>NewPostgresStore\<close>
  of \<^verbatim>\<open>cmd/agent-desk/store_postgres.go\<close>, with the schema each applies. The database is its
  schema, the columns of each table and the indexes, and a statement of the schema text is
  executed on it with the meaning SQL gives it. Every call of the driver may fail: opening, the
  ping, and each script after any number of its statements.
\<close>

subsection \<open>The schema of a database\<close>

record column =
  cl_name :: string
  cl_type :: string
  cl_not_null :: bool
  cl_default :: "string option"
  cl_primary :: bool

record index_def =
  ix_table :: string
  ix_columns :: "string list"
  ix_unique :: bool
  ix_not_null :: "string option"

record db_schema =
  dc_tables :: "string \<Rightarrow> column list option"
  dc_indexes :: "string \<Rightarrow> index_def option"

text \<open>
  The statements of the schema texts. \<open>CreateTable\<close>, \<open>CreateIndex\<close> and \<open>AddMissing\<close> say
  \<^verbatim>\<open>IF NOT EXISTS\<close>; \<open>AddColumn\<close> does not, SQLite has no such form of it.
\<close>

datatype ddl =
    CreateTable string "column list"
  | CreateIndex string index_def
  | AddColumn string column
  | AddMissing string column

definition duplicate_column :: string where
  "duplicate_column = ''duplicate column name''"

definition no_table :: string where
  "no_table = ''no such table''"

definition no_column :: string where
  "no_column = ''no such column''"

definition no_default :: string where
  "no_default = ''cannot add a NOT NULL column with default value NULL''"

definition add_column :: "string \<Rightarrow> column list \<Rightarrow> column \<Rightarrow> db_schema \<Rightarrow> (string, db_schema) result" where
  "add_column t cols c s =
     (if cl_not_null c \<and> cl_default c = None then Inl no_default
      else Inr (s\<lparr>dc_tables := (dc_tables s)(t \<mapsto> cols @ [c])\<rparr>))"

fun exec_ddl :: "ddl \<Rightarrow> db_schema \<Rightarrow> (string, db_schema) result" where
  "exec_ddl (CreateTable t cols) s =
     (case dc_tables s t of
        Some _ \<Rightarrow> Inr s
      | None \<Rightarrow> Inr (s\<lparr>dc_tables := (dc_tables s)(t \<mapsto> cols)\<rparr>))"
| "exec_ddl (CreateIndex n i) s =
     (case dc_indexes s n of
        Some _ \<Rightarrow> Inr s
      | None \<Rightarrow>
     (case dc_tables s (ix_table i) of
        None \<Rightarrow> Inl no_table
      | Some cols \<Rightarrow>
          if set (ix_columns i) \<union> set_option (ix_not_null i) \<subseteq> cl_name ` set cols
          then Inr (s\<lparr>dc_indexes := (dc_indexes s)(n \<mapsto> i)\<rparr>)
          else Inl no_column))"
| "exec_ddl (AddColumn t c) s =
     (case dc_tables s t of
        None \<Rightarrow> Inl no_table
      | Some cols \<Rightarrow>
          if cl_name c \<in> cl_name ` set cols then Inl (duplicate_column @ '': '' @ cl_name c)
          else add_column t cols c s)"
| "exec_ddl (AddMissing t c) s =
     (case dc_tables s t of
        None \<Rightarrow> Inl no_table
      | Some cols \<Rightarrow> if cl_name c \<in> cl_name ` set cols then Inr s else add_column t cols c s)"

text \<open>A script stops at the first statement that fails and leaves what ran before it.\<close>

fun exec_script :: "ddl list \<Rightarrow> db_schema \<Rightarrow> string option \<times> db_schema" where
  "exec_script [] s = (None, s)"
| "exec_script (d # ds) s =
     (case exec_ddl d s of Inl e \<Rightarrow> (Some e, s) | Inr s1 \<Rightarrow> exec_script ds s1)"

text \<open>
  What the driver does on each call: opening or the ping fails with a text, and the \<open>n\<close>th
  script dies with a text after some of its statements.
\<close>

record open_env =
  oe_open :: "string option"
  oe_ping :: "string option"
  oe_exec :: "nat \<Rightarrow> (nat \<times> string) option"

definition exec_call :: "(nat \<times> string) option \<Rightarrow> ddl list \<Rightarrow> db_schema \<Rightarrow> string option \<times> db_schema" where
  "exec_call fault ds s =
     (case fault of
        None \<Rightarrow> exec_script ds s
      | Some (k, e) \<Rightarrow>
     (case exec_script (take k ds) s of
        (Some e1, s1) \<Rightarrow> (Some e1, s1)
      | (None, s1) \<Rightarrow> (Some e, s1)))"

datatype open_error =
    OpenFailed string
  | PingFailed string
  | MigrateFailed string
  | MigrateColumn ddl string

subsection \<open>SQLite\<close>

definition text_column :: "string \<Rightarrow> column" where
  "text_column n = \<lparr>cl_name = n, cl_type = ''TEXT'', cl_not_null = False, cl_default = None, cl_primary = False\<rparr>"

definition needed :: "column \<Rightarrow> column" where
  "needed c = c\<lparr>cl_not_null := True\<rparr>"

definition primary :: "column \<Rightarrow> column" where
  "primary c = c\<lparr>cl_primary := True\<rparr>"

definition defaulted :: "string \<Rightarrow> string \<Rightarrow> string \<Rightarrow> column" where
  "defaulted n ty d = \<lparr>cl_name = n, cl_type = ty, cl_not_null = True, cl_default = Some d, cl_primary = False\<rparr>"

definition key_index :: index_def where
  "key_index =
     \<lparr>ix_table = ''jobs'', ix_columns = [''tool'', ''idempotency_key''], ix_unique = True,
      ix_not_null = Some ''idempotency_key''\<rparr>"

definition batch_index :: index_def where
  "batch_index =
     \<lparr>ix_table = ''jobs'', ix_columns = [''batch_id''], ix_unique = False, ix_not_null = Some ''batch_id''\<rparr>"

definition unacked_index :: index_def where
  "unacked_index =
     \<lparr>ix_table = ''jobs'', ix_columns = [''acked'', ''status''], ix_unique = False, ix_not_null = None\<rparr>"

definition sqlite_columns :: "column list" where
  "sqlite_columns =
     [primary (text_column ''id''), needed (text_column ''tool''), text_column ''idempotency_key'',
      needed (text_column ''input''), text_column ''meta'', needed (text_column ''status''),
      defaulted ''attempt'' ''INTEGER'' ''0'', defaulted ''max_retries'' ''INTEGER'' ''0'',
      text_column ''result'', text_column ''error'', needed (text_column ''created_at''),
      text_column ''started_at'', text_column ''finished_at'']"

definition sqlite_schema :: "ddl list" where
  "sqlite_schema =
     [CreateTable ''jobs'' sqlite_columns, CreateIndex ''jobs_tool_idempotency_key_uniq'' key_index]"

definition sqlite_column_additions :: "ddl list" where
  "sqlite_column_additions =
     [AddColumn ''jobs'' (text_column ''batch_id''),
      AddColumn ''jobs'' (defaulted ''acked'' ''INTEGER'' ''0''),
      AddColumn ''jobs'' (text_column ''acked_at'')]"

definition sqlite_post_schema :: "ddl list" where
  "sqlite_post_schema =
     [CreateIndex ''jobs_batch_id_idx'' batch_index, CreateIndex ''jobs_terminal_unacked_idx'' unacked_index]"

text \<open>The additions, each a call of its own; that the column is there already is no error.\<close>

fun add_columns :: "open_env \<Rightarrow> nat \<Rightarrow> ddl list \<Rightarrow> db_schema \<Rightarrow> open_error option \<times> db_schema" where
  "add_columns env n [] s = (None, s)"
| "add_columns env n (d # ds) s =
     (case exec_call (oe_exec env n) [d] s of
        (None, s1) \<Rightarrow> add_columns env (Suc n) ds s1
      | (Some e, s1) \<Rightarrow>
          if contains e duplicate_column then add_columns env (Suc n) ds s1
          else (Some (MigrateColumn d e), s1))"

definition open_sqlite :: "open_env \<Rightarrow> db_schema \<Rightarrow> open_error option \<times> db_schema" where
  "open_sqlite env s =
     (case oe_open env of Some e \<Rightarrow> (Some (OpenFailed e), s) | None \<Rightarrow>
     (case oe_ping env of Some e \<Rightarrow> (Some (PingFailed e), s) | None \<Rightarrow>
     (case exec_call (oe_exec env 0) sqlite_schema s of
        (Some e, s1) \<Rightarrow> (Some (MigrateFailed e), s1)
      | (None, s1) \<Rightarrow>
     (case add_columns env 1 sqlite_column_additions s1 of
        (Some e, s2) \<Rightarrow> (Some e, s2)
      | (None, s2) \<Rightarrow>
     (case exec_call (oe_exec env 4) sqlite_post_schema s2 of
        (Some e, s3) \<Rightarrow> (Some (MigrateFailed e), s3)
      | (None, s3) \<Rightarrow> (None, s3))))))"

subsection \<open>PostgreSQL\<close>

definition typed :: "string \<Rightarrow> string \<Rightarrow> column" where
  "typed n ty = \<lparr>cl_name = n, cl_type = ty, cl_not_null = False, cl_default = None, cl_primary = False\<rparr>"

definition postgres_columns :: "column list" where
  "postgres_columns =
     [primary (text_column ''id''), needed (text_column ''tool''), text_column ''idempotency_key'',
      needed (typed ''input'' ''JSONB''), typed ''meta'' ''JSONB'', needed (text_column ''status''),
      defaulted ''attempt'' ''INT'' ''0'', defaulted ''max_retries'' ''INT'' ''0'',
      typed ''result'' ''JSONB'', text_column ''error'', needed (typed ''created_at'' ''TIMESTAMPTZ''),
      typed ''started_at'' ''TIMESTAMPTZ'', typed ''finished_at'' ''TIMESTAMPTZ'']"

definition postgres_schema :: "ddl list" where
  "postgres_schema =
     [CreateTable ''jobs'' postgres_columns, CreateIndex ''jobs_tool_idempotency_key_uniq'' key_index,
      AddMissing ''jobs'' (text_column ''batch_id''),
      AddMissing ''jobs'' (defaulted ''acked'' ''BOOLEAN'' ''false''),
      AddMissing ''jobs'' (typed ''acked_at'' ''TIMESTAMPTZ''),
      CreateIndex ''jobs_batch_id_idx'' batch_index, CreateIndex ''jobs_terminal_unacked_idx'' unacked_index]"

text \<open>
  The server runs a text of several statements in one transaction: when it fails nothing of it
  stays. A fault after the last statement is a lost answer: the transaction was committed.
\<close>

definition transact :: "(nat \<times> string) option \<Rightarrow> ddl list \<Rightarrow> db_schema \<Rightarrow> string option \<times> db_schema" where
  "transact fault ds s =
     (case exec_script ds s of
        (Some e, s1) \<Rightarrow> (Some e, s)
      | (None, s1) \<Rightarrow>
     (case fault of
        None \<Rightarrow> (None, s1)
      | Some (k, e) \<Rightarrow> (Some e, if length ds \<le> k then s1 else s)))"

definition open_postgres :: "open_env \<Rightarrow> db_schema \<Rightarrow> open_error option \<times> db_schema" where
  "open_postgres env s =
     (case oe_open env of Some e \<Rightarrow> (Some (OpenFailed e), s) | None \<Rightarrow>
     (case oe_ping env of Some e \<Rightarrow> (Some (PingFailed e), s) | None \<Rightarrow>
     (case transact (oe_exec env 0) postgres_schema s of
        (Some e, s1) \<Rightarrow> (Some (MigrateFailed e), s1)
      | (None, s1) \<Rightarrow> (None, s1))))"

subsection \<open>What a migration keeps and reaches\<close>

definition no_faults :: open_env where
  "no_faults = \<lparr>oe_open = None, oe_ping = None, oe_exec = (\<lambda>n. None)\<rparr>"

lemma no_faults_simps [simp]:
  "oe_open no_faults = None" "oe_ping no_faults = None" "oe_exec no_faults n = None"
  by (simp_all add: no_faults_def)

text \<open>A driver whose faults do not claim that a column is there already.\<close>

definition honest :: "open_env \<Rightarrow> bool" where
  "honest env \<longleftrightarrow> (\<forall>n k e. oe_exec env n = Some (k, e) \<longrightarrow> \<not> contains e duplicate_column)"

definition known_indexes :: "(string \<times> index_def) list" where
  "known_indexes =
     [(''jobs_tool_idempotency_key_uniq'', key_index), (''jobs_batch_id_idx'', batch_index),
      (''jobs_terminal_unacked_idx'', unacked_index)]"

text \<open>
  A database of this program, of any version and however far a migration of it came: no table
  yet, or one with the first columns and some of the later ones, and none or the right one of
  each index.
\<close>

definition earlier :: "column list \<Rightarrow> column list \<Rightarrow> db_schema \<Rightarrow> bool" where
  "earlier base adds s \<longleftrightarrow>
     (\<forall>cols. dc_tables s ''jobs'' = Some cols \<longrightarrow> set base \<subseteq> set cols \<and> set cols \<subseteq> set (base @ adds))
   \<and> (\<forall>(n, i)\<in>set known_indexes. dc_indexes s n = None \<or> dc_indexes s n = Some i)"

definition migrated :: "column list \<Rightarrow> column list \<Rightarrow> db_schema \<Rightarrow> bool" where
  "migrated base adds s \<longleftrightarrow>
     (\<exists>cols. dc_tables s ''jobs'' = Some cols \<and> set cols = set (base @ adds))
   \<and> (\<forall>(n, i)\<in>set known_indexes. dc_indexes s n = Some i)"

definition kept :: "db_schema \<Rightarrow> db_schema \<Rightarrow> bool" where
  "kept s s' \<longleftrightarrow>
     (\<forall>t cols. dc_tables s t = Some cols \<longrightarrow> (\<exists>more. dc_tables s' t = Some (cols @ more)))
   \<and> (\<forall>n i. dc_indexes s n = Some i \<longrightarrow> dc_indexes s' n = Some i)"

lemma kept_refl [simp]: "kept s s"
  by (simp add: kept_def)

lemma kept_trans: "kept s s1 \<Longrightarrow> kept s1 s2 \<Longrightarrow> kept s s2"
  unfolding kept_def by (metis append.assoc)

fun established :: "ddl \<Rightarrow> db_schema \<Rightarrow> bool" where
  "established (CreateTable t cols) s \<longleftrightarrow> (\<exists>cols'. dc_tables s t = Some cols' \<and> set cols \<subseteq> set cols')"
| "established (CreateIndex n i) s \<longleftrightarrow> dc_indexes s n = Some i"
| "established (AddColumn t c) s \<longleftrightarrow> (\<exists>cols. dc_tables s t = Some cols \<and> c \<in> set cols)"
| "established (AddMissing t c) s \<longleftrightarrow> (\<exists>cols. dc_tables s t = Some cols \<and> c \<in> set cols)"

lemma established_kept: "kept s s' \<Longrightarrow> established d s \<Longrightarrow> established d s'"
  by (cases d) (fastforce simp: kept_def)+

text \<open>The statements a migration to given columns may hold.\<close>

fun fits :: "column list \<Rightarrow> column list \<Rightarrow> ddl \<Rightarrow> bool" where
  "fits base adds (CreateTable t cols) \<longleftrightarrow> t = ''jobs'' \<and> cols = base"
| "fits base adds (CreateIndex n i) \<longleftrightarrow> (n, i) \<in> set known_indexes"
| "fits base adds (AddColumn t c) \<longleftrightarrow> t = ''jobs'' \<and> c \<in> set adds"
| "fits base adds (AddMissing t c) \<longleftrightarrow> t = ''jobs'' \<and> c \<in> set adds"

definition plan :: "column list \<Rightarrow> column list \<Rightarrow> bool" where
  "plan base adds \<longleftrightarrow>
     distinct (map cl_name (base @ adds)) \<and> (\<forall>c\<in>set adds. cl_not_null c \<longrightarrow> cl_default c \<noteq> None)
   \<and> (\<forall>(n, i)\<in>set known_indexes. ix_table i = ''jobs''
        \<and> set (ix_columns i) \<union> set_option (ix_not_null i) \<subseteq> cl_name ` set (base @ adds))"

lemma known_indexes_names: "(n, i) \<in> set known_indexes \<Longrightarrow> (n, j) \<in> set known_indexes \<Longrightarrow> i = j"
  by (auto simp: known_indexes_def)

lemma same_name:
  assumes "plan base adds" "c \<in> set (base @ adds)" "d \<in> set (base @ adds)" "cl_name c = cl_name d"
  shows "c = d"
proof -
  have "inj_on cl_name (set (base @ adds))" using assms(1) unfolding plan_def distinct_map by blast
  from inj_onD[OF this assms(4,2,3)] show ?thesis .
qed

lemma add_column_step:
  assumes "plan base adds" "earlier base adds s" "c \<in> set adds" "dc_tables s ''jobs'' = Some cols"
    and "cl_name c \<notin> cl_name ` set cols"
  shows "\<exists>s'. add_column ''jobs'' cols c s = Inr s' \<and> earlier base adds s' \<and> kept s s'
    \<and> (\<exists>cols'. dc_tables s' ''jobs'' = Some cols' \<and> c \<in> set cols')"
proof -
  have "\<not> (cl_not_null c \<and> cl_default c = None)" using assms(1,3) by (auto simp: plan_def)
  then show ?thesis using assms(2-4) by (auto simp: add_column_def earlier_def kept_def)
qed

lemma column_there:
  assumes "plan base adds" "earlier base adds s" "c \<in> set adds" "dc_tables s ''jobs'' = Some cols"
    and "cl_name c \<in> cl_name ` set cols"
  shows "c \<in> set cols"
proof -
  from assms(5) obtain d where d: "d \<in> set cols" "cl_name d = cl_name c" by auto
  with assms(2,4) have "d \<in> set (base @ adds)" by (auto simp: earlier_def)
  from same_name[OF assms(1) this _ d(2)] assms(3) d(1) show ?thesis by auto
qed

lemma exec_ddl_step:
  assumes "plan base adds" "earlier base adds s" "fits base adds d" "exec_ddl d s = Inr s'"
  shows "earlier base adds s' \<and> kept s s' \<and> established d s'"
proof (cases d)
  case (CreateTable t cols)
  then show ?thesis using assms(2-4) by (auto simp: earlier_def kept_def split: option.splits)
next
  case (CreateIndex n i)
  have "dc_indexes s n = None \<or> dc_indexes s n = Some i"
    using assms(2,3) CreateIndex by (auto simp: earlier_def)
  then show ?thesis
    using assms(2-4) CreateIndex known_indexes_names
    by (auto simp: earlier_def kept_def split: option.splits if_splits)
next
  case (AddColumn t c)
  then obtain cols where c: "dc_tables s ''jobs'' = Some cols" "cl_name c \<notin> cl_name ` set cols"
      "add_column ''jobs'' cols c s = Inr s'"
    using assms(3,4) by (auto split: option.splits if_splits)
  with add_column_step[OF assms(1,2) _ c(1,2)] AddColumn assms(3) show ?thesis by auto
next
  case (AddMissing t c')
  then obtain cols where c: "dc_tables s ''jobs'' = Some cols"
    using assms(3,4) by (auto split: option.splits)
  show ?thesis
  proof (cases "cl_name c' \<in> cl_name ` set cols")
    case True
    with column_there[OF assms(1,2) _ c, of c'] c AddMissing assms(2-4) show ?thesis by auto
  next
    case False
    with add_column_step[OF assms(1,2) _ c, of c'] c AddMissing assms(3,4) show ?thesis by simp
  qed
qed

lemma other_errors:
  "\<not> contains no_table duplicate_column" "\<not> contains no_column duplicate_column"
  "\<not> contains no_default duplicate_column"
  by code_simp+

lemma exec_ddl_duplicate:
  assumes "plan base adds" "earlier base adds s" "fits base adds d" "exec_ddl d s = Inl e"
    and "contains e duplicate_column"
  shows "established d s"
proof (cases d)
  case (AddColumn t c)
  with assms(3) have t: "t = ''jobs''" "c \<in> set adds" by simp_all
  show ?thesis
  proof (cases "dc_tables s t")
    case None
    then show ?thesis using assms(4,5) AddColumn other_errors by simp
  next
    case (Some cols)
    then have "cl_name c \<in> cl_name ` set cols"
      using assms(4,5) AddColumn other_errors by (simp add: add_column_def split: if_splits)
    with column_there[OF assms(1,2) t(2)] Some AddColumn t(1) show ?thesis by simp
  qed
qed (use assms(4,5) other_errors in \<open>simp_all add: add_column_def split: option.splits if_splits\<close>)

lemma exec_script_steps:
  assumes "plan base adds" "earlier base adds s" "list_all (fits base adds) ds" "exec_script ds s = (r, s')"
  shows "earlier base adds s' \<and> kept s s' \<and> (r = None \<longrightarrow> (\<forall>d\<in>set ds. established d s'))"
  using assms(2-4)
proof (induction ds arbitrary: s)
  case (Cons d ds)
  show ?case
  proof (cases "exec_ddl d s")
    case (Inl e)
    then show ?thesis using Cons.prems by auto
  next
    case (Inr s1)
    with exec_ddl_step[OF assms(1)] Cons.prems
    have one: "earlier base adds s1" "kept s s1" "established d s1" by auto
    from Cons.IH[OF one(1)] Cons.prems Inr
    have "earlier base adds s' \<and> kept s1 s' \<and> (r = None \<longrightarrow> (\<forall>d\<in>set ds. established d s'))" by auto
    with one kept_trans established_kept show ?thesis by auto
  qed
qed simp

lemma exec_call_steps:
  assumes "plan base adds" "earlier base adds s" "list_all (fits base adds) ds" "exec_call f ds s = (r, s')"
  shows "earlier base adds s' \<and> kept s s' \<and> (r = None \<longrightarrow> (\<forall>d\<in>set ds. established d s'))"
proof (cases f)
  case None
  then show ?thesis using exec_script_steps[OF assms(1-3)] assms(4) by (simp add: exec_call_def)
next
  case (Some p)
  obtain k e where p: "p = (k, e)" by (cases p)
  obtain r1 s1 where one: "exec_script (take k ds) s = (r1, s1)" by fastforce
  have "list_all (fits base adds) (take k ds)"
    using assms(3) by (auto simp: list_all_iff dest: in_set_takeD)
  from exec_script_steps[OF assms(1,2) this one] show ?thesis
    using assms(4) Some p one by (auto simp: exec_call_def split: option.splits)
qed

lemma add_columns_steps:
  assumes "plan base adds" "honest env" "earlier base adds s" "list_all (fits base adds) ds"
    and "add_columns env n ds s = (r, s')"
  shows "earlier base adds s' \<and> kept s s' \<and> (r = None \<longrightarrow> (\<forall>d\<in>set ds. established d s'))"
  using assms(3-5)
proof (induction ds arbitrary: s n)
  case (Cons d ds)
  obtain r1 s1 where one: "exec_call (oe_exec env n) [d] s = (r1, s1)" by fastforce
  have d: "fits base adds d" using Cons.prems by simp
  from exec_call_steps[OF assms(1) Cons.prems(1) _ one] d
  have s1: "earlier base adds s1" "kept s s1" "r1 = None \<longrightarrow> established d s1" by auto
  have dup: "established d s1" if "r1 = Some e" "contains e duplicate_column" for e
  proof -
    have "exec_ddl d s = Inl e \<and> s1 = s"
      using one that assms(2)
      by (cases "oe_exec env n"; cases "exec_ddl d s")
        (auto simp: exec_call_def honest_def take_Cons' split: if_splits)
    with exec_ddl_duplicate[OF assms(1) Cons.prems(1) d _ that(2)] show ?thesis by simp
  qed
  show ?case
  proof (cases "\<exists>e. r1 = Some e \<and> \<not> contains e duplicate_column")
    case True
    then show ?thesis using Cons.prems(3) one s1 by auto
  next
    case False
    then have e: "established d s1" and rest: "add_columns env (Suc n) ds s1 = (r, s')"
      using s1(3) dup Cons.prems(3) one by (auto split: option.splits if_splits)
    from Cons.IH[OF s1(1) _ rest] Cons.prems(2)
    have "earlier base adds s' \<and> kept s1 s' \<and> (r = None \<longrightarrow> (\<forall>d\<in>set ds. established d s'))" by simp
    with s1(2) e kept_trans established_kept show ?thesis by auto
  qed
qed simp

subsection \<open>The contract of opening\<close>

text \<open>
  What opening promises of either store: it keeps the database one of this program and loses
  nothing of it, when it succeeds the schema is complete, and without faults it succeeds, and
  changes nothing once the schema is complete.
\<close>

locale migration =
  fixes opens :: "open_env \<Rightarrow> db_schema \<Rightarrow> open_error option \<times> db_schema"
    and base adds :: "column list"
  assumes opens_keeps: "earlier base adds s \<Longrightarrow> honest env \<Longrightarrow> opens env s = (r, s') \<Longrightarrow>
      earlier base adds s' \<and> kept s s' \<and> (r = None \<longrightarrow> migrated base adds s')"
    and opens_works: "earlier base adds s \<Longrightarrow> fst (opens no_faults s) = None"
    and opens_again: "migrated base adds s \<Longrightarrow> opens no_faults s = (None, s)"
begin

lemma opens_history:
  assumes "earlier base adds s" "list_all honest envs"
  shows "earlier base adds (fold (\<lambda>e s. snd (opens e s)) envs s) \<and> kept s (fold (\<lambda>e s. snd (opens e s)) envs s)"
  using assms
proof (induction envs arbitrary: s)
  case (Cons e envs)
  from opens_keeps[OF Cons.prems(1), of e "fst (opens e s)" "snd (opens e s)"] Cons.prems(2)
  have "earlier base adds (snd (opens e s))" "kept s (snd (opens e s))" by auto
  with Cons.IH[of "snd (opens e s)"] Cons.prems(2) show ?case by (auto intro: kept_trans)
qed simp

lemma opens_recovers:
  assumes "earlier base adds s" "list_all honest envs"
  shows "\<exists>s'. opens no_faults (fold (\<lambda>e s. snd (opens e s)) envs s) = (None, s')
    \<and> migrated base adds s' \<and> kept s s' \<and> opens no_faults s' = (None, s')"
proof -
  let ?s = "fold (\<lambda>e s. snd (opens e s)) envs s"
  from opens_history[OF assms] have h: "earlier base adds ?s" "kept s ?s" by auto
  obtain s' where s': "opens no_faults ?s = (None, s')"
    using opens_works[OF h(1)] by (metis prod.collapse)
  have "honest no_faults" by (simp add: honest_def)
  from opens_keeps[OF h(1) this s'] h(2) s' show ?thesis
    using opens_again[of s'] kept_trans by blast
qed

end

lemma migrated_earlier: "migrated base adds s \<Longrightarrow> earlier base adds s"
  by (auto simp: migrated_def earlier_def)

lemma kept_index: "kept s s' \<Longrightarrow> dc_indexes s n = Some i \<Longrightarrow> dc_indexes s' n = Some i"
  by (simp add: kept_def)

lemma migrated_if:
  assumes "earlier base adds s" "established (CreateTable ''jobs'' base) s"
    and "\<forall>c\<in>set adds. \<exists>cols. dc_tables s ''jobs'' = Some cols \<and> c \<in> set cols"
    and "\<forall>(n, i)\<in>set known_indexes. dc_indexes s n = Some i"
  shows "migrated base adds s"
  using assms by (auto simp: earlier_def migrated_def)

text \<open>Running a script without faults.\<close>

fun runs_on :: "ddl \<Rightarrow> db_schema \<Rightarrow> bool" where
  "runs_on (CreateTable t cols) s \<longleftrightarrow> True"
| "runs_on (CreateIndex n i) s \<longleftrightarrow>
     (\<exists>cols. dc_tables s (ix_table i) = Some cols
        \<and> set (ix_columns i) \<union> set_option (ix_not_null i) \<subseteq> cl_name ` set cols)"
| "runs_on (AddColumn t c) s \<longleftrightarrow> dc_tables s t \<noteq> None \<and> \<not> (cl_not_null c \<and> cl_default c = None)"
| "runs_on (AddMissing t c) s \<longleftrightarrow> dc_tables s t \<noteq> None \<and> \<not> (cl_not_null c \<and> cl_default c = None)"

lemma exec_ddl_runs:
  assumes "runs_on d s"
  shows "(\<exists>s'. exec_ddl d s = Inr s')
    \<or> (\<exists>t c e. d = AddColumn t c \<and> exec_ddl d s = Inl e \<and> contains e duplicate_column)"
proof -
  have "contains (duplicate_column @ x) duplicate_column" for x
    by (simp add: contains_iff) (metis append_Nil append.assoc)
  with assms show ?thesis by (cases d) (auto simp: add_column_def split: option.splits)
qed

lemma kept_runs: "kept s s' \<Longrightarrow> runs_on d s \<Longrightarrow> runs_on d s'"
  by (cases d) (fastforce simp: kept_def)+

lemma migrated_established:
  assumes "migrated base adds s" "fits base adds d"
  shows "established d s"
  using assms by (cases d) (auto simp: migrated_def)

fun plain_add :: "ddl \<Rightarrow> bool" where
  "plain_add (AddColumn t c) = True"
| "plain_add d = False"

lemma exec_ddl_established:
  assumes "established d s"
  shows "if plain_add d then \<exists>e. exec_ddl d s = Inl e \<and> contains e duplicate_column else exec_ddl d s = Inr s"
proof -
  have "contains (duplicate_column @ x) duplicate_column" for x
    by (simp add: contains_iff) (metis append_Nil append.assoc)
  with assms show ?thesis by (cases d) auto
qed

lemma exec_script_again:
  "list_all (\<lambda>d. established d s \<and> \<not> plain_add d) ds \<Longrightarrow> exec_script ds s = (None, s)"
proof (induction ds)
  case (Cons d ds)
  then show ?case using exec_ddl_established[of d s] by simp
qed simp

lemma exec_call_no_fault [simp]: "exec_call None ds s = exec_script ds s"
  by (simp add: exec_call_def)

lemma add_columns_again:
  "list_all (\<lambda>d. established d s \<and> plain_add d) ds \<Longrightarrow> add_columns no_faults n ds s = (None, s)"
proof (induction ds arbitrary: n)
  case (Cons d ds)
  then show ?case using exec_ddl_established[of d s] by auto
qed simp

lemma exec_script_works:
  assumes "plan base adds" "earlier base adds s" "list_all (\<lambda>d. fits base adds d \<and> runs_on d s \<and> \<not> plain_add d) ds"
  shows "fst (exec_script ds s) = None"
  using assms(2,3)
proof (induction ds arbitrary: s)
  case (Cons d ds)
  then obtain s1 where s1: "exec_ddl d s = Inr s1" using exec_ddl_runs[of d s] by auto
  from exec_ddl_step[OF assms(1) Cons.prems(1) _ s1] Cons.prems(2)
  have "earlier base adds s1" "kept s s1" by auto
  with Cons.IH[of s1] Cons.prems(2) kept_runs s1 show ?case by (auto simp: list_all_iff)
qed simp

lemma add_columns_works:
  assumes "plan base adds" "earlier base adds s" "list_all (\<lambda>d. fits base adds d \<and> runs_on d s) ds"
  shows "fst (add_columns no_faults n ds s) = None"
  using assms(2,3)
proof (induction ds arbitrary: s n)
  case (Cons d ds)
  from exec_ddl_runs[of d s] Cons.prems(2) consider (worked) s1 where "exec_ddl d s = Inr s1"
    | (there) e where "exec_ddl d s = Inl e" "contains e duplicate_column" by auto
  then show ?case
  proof cases
    case worked
    from exec_ddl_step[OF assms(1) Cons.prems(1) _ worked] Cons.prems(2)
    have "earlier base adds s1" "kept s s1" by auto
    with Cons.IH[of s1] Cons.prems(2) kept_runs worked show ?thesis by (auto simp: list_all_iff)
  next
    case there
    with Cons.IH[of s] Cons.prems show ?thesis by auto
  qed
qed simp

subsection \<open>Both stores keep the contract\<close>

definition sqlite_added :: "column list" where
  "sqlite_added = [text_column ''batch_id'', defaulted ''acked'' ''INTEGER'' ''0'', text_column ''acked_at'']"

definition postgres_added :: "column list" where
  "postgres_added =
     [text_column ''batch_id'', defaulted ''acked'' ''BOOLEAN'' ''false'', typed ''acked_at'' ''TIMESTAMPTZ'']"

lemma sqlite_plan: "plan sqlite_columns sqlite_added"
  by code_simp

lemma postgres_plan: "plan postgres_columns postgres_added"
  by code_simp

lemma sqlite_scripts:
  "list_all (fits sqlite_columns sqlite_added) sqlite_schema"
  "list_all (fits sqlite_columns sqlite_added) sqlite_column_additions"
  "list_all (fits sqlite_columns sqlite_added) sqlite_post_schema"
  "list_all (\<lambda>d. \<not> plain_add d) (sqlite_schema @ sqlite_post_schema)"
  "list_all plain_add sqlite_column_additions"
  by (simp_all add: sqlite_schema_def sqlite_column_additions_def sqlite_post_schema_def known_indexes_def
      sqlite_added_def)

lemma postgres_script:
  "list_all (fits postgres_columns postgres_added) postgres_schema"
  "list_all (\<lambda>d. \<not> plain_add d) postgres_schema"
  by (simp_all add: postgres_schema_def known_indexes_def postgres_added_def)

lemma jobs_there:
  "established (CreateTable ''jobs'' base) s \<Longrightarrow> dc_tables s ''jobs'' \<noteq> None"
  by auto

definition reaches :: "column list \<Rightarrow> column list \<Rightarrow> ddl list \<Rightarrow> bool \<Rightarrow> db_schema \<Rightarrow> db_schema \<Rightarrow> bool" where
  "reaches base adds ds ok s s' \<longleftrightarrow>
     earlier base adds s' \<and> kept s s' \<and> (ok \<longrightarrow> (\<forall>d\<in>set ds. established d s'))"

lemma reaches_trans:
  assumes "reaches base adds ds True s s1" "reaches base adds es ok s1 s2"
  shows "reaches base adds (ds @ es) ok s s2"
proof -
  have k: "kept s s2" "\<And>d. established d s1 \<Longrightarrow> established d s2"
    using assms kept_trans established_kept unfolding reaches_def by blast+
  with assms show ?thesis unfolding reaches_def set_append by blast
qed

lemma reaches_not: "reaches base adds ds ok s s' \<Longrightarrow> reaches base adds es False s s'"
  by (simp add: reaches_def)

lemma open_sqlite_stages:
  assumes "earlier sqlite_columns sqlite_added s" "honest env" "open_sqlite env s = (r, s')"
  shows "reaches sqlite_columns sqlite_added
    (sqlite_schema @ sqlite_column_additions @ sqlite_post_schema) (r = None) s s'"
proof (cases "oe_open env = None \<and> oe_ping env = None")
  case False
  then have "r \<noteq> None \<and> s' = s" using assms(3) by (auto simp: open_sqlite_def split: option.splits)
  then show ?thesis using assms(1) by (auto simp: reaches_def)
next
  case True
  obtain r1 s1 where one: "exec_call (oe_exec env 0) sqlite_schema s = (r1, s1)" by fastforce
  obtain r2 s2 where two: "add_columns env 1 sqlite_column_additions s1 = (r2, s2)" by fastforce
  obtain r3 s3 where three: "exec_call (oe_exec env 4) sqlite_post_schema s2 = (r3, s3)" by fastforce
  note out = assms(3)[unfolded open_sqlite_def, simplified True one two three prod.case option.case]
  have f1: "reaches sqlite_columns sqlite_added sqlite_schema (r1 = None) s s1"
    using exec_call_steps[OF sqlite_plan assms(1) sqlite_scripts(1) one] by (simp add: reaches_def)
  then have e1: "earlier sqlite_columns sqlite_added s1" by (simp add: reaches_def)
  have f2: "reaches sqlite_columns sqlite_added sqlite_column_additions (r2 = None) s1 s2"
    using add_columns_steps[OF sqlite_plan assms(2) e1 sqlite_scripts(2) two] by (simp add: reaches_def)
  then have e2: "earlier sqlite_columns sqlite_added s2" by (simp add: reaches_def)
  have f3: "reaches sqlite_columns sqlite_added sqlite_post_schema (r3 = None) s2 s3"
    using exec_call_steps[OF sqlite_plan e2 sqlite_scripts(3) three] by (simp add: reaches_def)
  show ?thesis
  proof (cases r1)
    case (Some e)
    then obtain x where "r = Some x" "s' = s1" using out by auto
    with reaches_not[OF f1] show ?thesis by simp
  next
    case n1: None
    show ?thesis
    proof (cases r2)
      case (Some e)
      then obtain x where "r = Some x" "s' = s2" using out n1 by auto
      with reaches_not[OF reaches_trans[OF f1[simplified n1 simp_thms] f2]] show ?thesis by simp
    next
      case n2: None
      have "s' = s3" "r = None \<longleftrightarrow> r3 = None" using out n1 n2 by (auto split: option.splits)
      with reaches_trans[OF f1[simplified n1 simp_thms] reaches_trans[OF f2[simplified n2 simp_thms] f3]]
      show ?thesis by simp
    qed
  qed
qed

lemma sqlite_migrated:
  assumes "earlier sqlite_columns sqlite_added s"
    and "\<forall>d\<in>set (sqlite_schema @ sqlite_column_additions @ sqlite_post_schema). established d s"
  shows "migrated sqlite_columns sqlite_added s"
proof (rule migrated_if[OF assms(1)])
  show "established (CreateTable ''jobs'' sqlite_columns) s"
    using assms(2) by (simp add: sqlite_schema_def)
  show "\<forall>c\<in>set sqlite_added. \<exists>cols. dc_tables s ''jobs'' = Some cols \<and> c \<in> set cols"
    using assms(2) by (simp add: sqlite_added_def sqlite_column_additions_def)
  show "\<forall>(n, i)\<in>set known_indexes. dc_indexes s n = Some i"
    using assms(2) by (simp add: known_indexes_def sqlite_schema_def sqlite_post_schema_def)
qed

lemma open_sqlite_no_faults:
  "fst (open_sqlite no_faults s) = None \<longleftrightarrow>
     fst (exec_script sqlite_schema s) = None
   \<and> fst (add_columns no_faults 1 sqlite_column_additions (snd (exec_script sqlite_schema s))) = None
   \<and> fst (exec_script sqlite_post_schema
            (snd (add_columns no_faults 1 sqlite_column_additions (snd (exec_script sqlite_schema s))))) = None"
  by (auto simp: open_sqlite_def split: prod.splits option.splits)

lemma index_runs:
  assumes "dc_tables s (ix_table i) = Some cols" "set cs \<subseteq> set cols"
    and "set (ix_columns i) \<union> set_option (ix_not_null i) \<subseteq> cl_name ` set cs"
  shows "runs_on (CreateIndex n i) s"
proof -
  have "cl_name ` set cs \<subseteq> cl_name ` set cols" using assms(2) by (rule image_mono)
  with assms(3) have "set (ix_columns i) \<union> set_option (ix_not_null i) \<subseteq> cl_name ` set cols" by (rule subset_trans)
  with assms(1) show ?thesis by simp
qed

lemma exec_script_append:
  "exec_script (ds @ es) s = (case exec_script ds s of (Some e, s1) \<Rightarrow> (Some e, s1) | (None, s1) \<Rightarrow> exec_script es s1)"
  by (induction ds arbitrary: s) (auto split: sum.splits option.splits)

text \<open>A script that works leaves its statements established, so that the next one can run.\<close>

lemma exec_script_reaches:
  assumes "plan base adds" "earlier base adds s" "list_all (fits base adds) ds" "list_all (\<lambda>d. \<not> plain_add d) ds"
    and "\<forall>d\<in>set ds. runs_on d s"
  obtains s1 where "exec_script ds s = (None, s1)" "reaches base adds ds True s s1"
proof -
  have "list_all (\<lambda>d. fits base adds d \<and> runs_on d s \<and> \<not> plain_add d) ds"
    using assms(3-5) by (auto simp: list_all_iff)
  then have "fst (exec_script ds s) = None" by (rule exec_script_works[OF assms(1,2)])
  then obtain s1 where s1: "exec_script ds s = (None, s1)" by (metis prod.collapse)
  moreover have "reaches base adds ds True s s1"
    using exec_script_steps[OF assms(1-3) s1] by (simp add: reaches_def)
  ultimately show ?thesis by (rule that)
qed

lemma created_runs:
  assumes "reaches base adds (CreateTable ''jobs'' base # ds) True s s1"
    and "ix_table i = ''jobs''" "set (ix_columns i) \<union> set_option (ix_not_null i) \<subseteq> cl_name ` set base"
  shows "runs_on (CreateIndex n i) s1"
proof -
  obtain cols where "dc_tables s1 ''jobs'' = Some cols" "set base \<subseteq> set cols"
    using assms(1) by (auto simp: reaches_def)
  with assms(2,3) show ?thesis by (intro index_runs[of _ _ _ base]) simp_all
qed

lemma created_table:
  "reaches base adds (CreateTable ''jobs'' base # ds) True s s1 \<Longrightarrow> dc_tables s1 ''jobs'' \<noteq> None"
  by (auto simp: reaches_def)

lemma index_columns:
  "set (ix_columns key_index) \<union> set_option (ix_not_null key_index) \<subseteq> cl_name ` set sqlite_columns"
  "set (ix_columns key_index) \<union> set_option (ix_not_null key_index) \<subseteq> cl_name ` set postgres_columns"
  by code_simp+

lemma index_tables:
  "ix_table key_index = ''jobs''" "ix_table batch_index = ''jobs''" "ix_table unacked_index = ''jobs''"
  by (simp_all add: key_index_def batch_index_def unacked_index_def)

lemma late_index_columns:
  "set (ix_columns batch_index) \<union> set_option (ix_not_null batch_index)
     \<subseteq> cl_name ` set [text_column ''batch_id'', defaulted ''acked'' ty d, c]"
  "set (ix_columns unacked_index) \<union> set_option (ix_not_null unacked_index)
     \<subseteq> cl_name ` set [defaulted ''acked'' ty d, needed (text_column ''status'')]"
  by (simp_all add: batch_index_def unacked_index_def text_column_def defaulted_def needed_def)

lemma late_indexes_run:
  assumes "dc_tables s ''jobs'' = Some cols" "{text_column ''batch_id'', defaulted ''acked'' ty d} \<subseteq> set cols"
    and "needed (text_column ''status'') \<in> set cols"
  shows "runs_on (CreateIndex n batch_index) s" "runs_on (CreateIndex n unacked_index) s"
  using assms late_index_columns(1)[of ty d "text_column ''batch_id''"] late_index_columns(2)[of ty d]
  by (intro index_runs[of _ _ cols "[text_column ''batch_id'', defaulted ''acked'' ty d, text_column ''batch_id'']"]
      index_runs[of _ _ cols "[defaulted ''acked'' ty d, needed (text_column ''status'')]"];
      simp add: index_tables)+

lemma open_sqlite_works:
  assumes "earlier sqlite_columns sqlite_added s"
  shows "fst (open_sqlite no_faults s) = None"
proof -
  note simps = sqlite_schema_def sqlite_column_additions_def sqlite_post_schema_def
  obtain s0 where s0: "exec_script [CreateTable ''jobs'' sqlite_columns] s = (None, s0)"
      "reaches sqlite_columns sqlite_added [CreateTable ''jobs'' sqlite_columns] True s s0"
    by (rule exec_script_reaches[OF sqlite_plan assms, of "[CreateTable ''jobs'' sqlite_columns]"]) auto
  then have e0: "earlier sqlite_columns sqlite_added s0" by (simp add: reaches_def)
  have "\<forall>d\<in>set (tl sqlite_schema). runs_on d s0"
    using created_runs[OF s0(2) index_tables(1) index_columns(1)] by (simp add: sqlite_schema_def)
  then obtain s1 where s1: "exec_script (tl sqlite_schema) s0 = (None, s1)"
      "reaches sqlite_columns sqlite_added (tl sqlite_schema) True s0 s1"
    using sqlite_scripts(1,4) exec_script_reaches[OF sqlite_plan e0, of "tl sqlite_schema"]
    by (simp add: sqlite_schema_def) blast
  have schema: "exec_script sqlite_schema s = (None, s1)"
    using exec_script_append[of "[CreateTable ''jobs'' sqlite_columns]" "tl sqlite_schema" s] s0(1) s1(1)
    by (simp add: sqlite_schema_def)
  from reaches_trans[OF s0(2) s1(2)]
  have r1: "reaches sqlite_columns sqlite_added sqlite_schema True s s1" by (simp add: sqlite_schema_def)
  then have e1: "earlier sqlite_columns sqlite_added s1" and t1: "dc_tables s1 ''jobs'' \<noteq> None"
    by (auto simp: reaches_def sqlite_schema_def)
  have "list_all (\<lambda>d. fits sqlite_columns sqlite_added d \<and> runs_on d s1) sqlite_column_additions"
    using sqlite_scripts(2) t1 by (auto simp: sqlite_column_additions_def text_column_def defaulted_def)
  from add_columns_works[OF sqlite_plan e1 this, of 1] obtain s2
    where s2: "add_columns no_faults 1 sqlite_column_additions s1 = (None, s2)" by (metis prod.collapse)
  have honest: "honest no_faults" by (simp add: honest_def)
  from add_columns_steps[OF sqlite_plan honest e1 sqlite_scripts(2) s2]
  have r2: "reaches sqlite_columns sqlite_added sqlite_column_additions True s1 s2" by (simp add: reaches_def)
  then have e2: "earlier sqlite_columns sqlite_added s2" by (simp add: reaches_def)
  from reaches_trans[OF r1 r2] obtain cols where cols: "dc_tables s2 ''jobs'' = Some cols"
      "set sqlite_columns \<subseteq> set cols" "{text_column ''batch_id'', defaulted ''acked'' ''INTEGER'' ''0''} \<subseteq> set cols"
    by (auto simp: reaches_def simps)
  have "needed (text_column ''status'') \<in> set sqlite_columns" by (simp add: sqlite_columns_def)
  with cols(2) have "needed (text_column ''status'') \<in> set cols" by blast
  note late = late_indexes_run[OF cols(1,3) this]
  have "\<forall>d\<in>set sqlite_post_schema. runs_on d s2" using late by (simp add: sqlite_post_schema_def)
  then obtain s3 where "exec_script sqlite_post_schema s2 = (None, s3)"
    using sqlite_scripts(3,4) exec_script_reaches[OF sqlite_plan e2, of sqlite_post_schema] by auto
  with schema s2 show ?thesis by (simp add: open_sqlite_no_faults)
qed

lemma open_sqlite_again:
  assumes "migrated sqlite_columns sqlite_added s"
  shows "open_sqlite no_faults s = (None, s)"
proof -
  have e: "list_all (\<lambda>d. established d s) ds" if "list_all (fits sqlite_columns sqlite_added) ds" for ds
    using that migrated_established[OF assms] by (auto simp: list_all_iff)
  have "exec_script sqlite_schema s = (None, s)" "exec_script sqlite_post_schema s = (None, s)"
    using e[OF sqlite_scripts(1)] e[OF sqlite_scripts(3)] sqlite_scripts(4)
    by (auto intro!: exec_script_again simp: list_all_iff)
  moreover have "add_columns no_faults 1 sqlite_column_additions s = (None, s)"
    using e[OF sqlite_scripts(2)] sqlite_scripts(5) by (auto intro!: add_columns_again simp: list_all_iff)
  ultimately show ?thesis by (simp add: open_sqlite_def)
qed

interpretation om: migration open_sqlite sqlite_columns sqlite_added
proof unfold_locales
  fix s env r s'
  assume e: "earlier sqlite_columns sqlite_added s" and h: "honest env" and o1: "open_sqlite env s = (r, s')"
  from open_sqlite_stages[OF e h o1] show "earlier sqlite_columns sqlite_added s' \<and> kept s s'
      \<and> (r = None \<longrightarrow> migrated sqlite_columns sqlite_added s')"
    using sqlite_migrated[of s'] by (auto simp: reaches_def)
qed (simp_all add: open_sqlite_works open_sqlite_again)

lemma transact_steps:
  assumes "earlier postgres_columns postgres_added s" "transact f postgres_schema s = (r, s')"
  shows "reaches postgres_columns postgres_added postgres_schema (r = None) s s'"
proof -
  obtain r1 s1 where one: "exec_script postgres_schema s = (r1, s1)" by fastforce
  from exec_script_steps[OF postgres_plan assms(1) postgres_script(1) one]
  have "reaches postgres_columns postgres_added postgres_schema (r1 = None) s s1" by (simp add: reaches_def)
  moreover have "reaches postgres_columns postgres_added postgres_schema False s s"
    using assms(1) by (simp add: reaches_def)
  ultimately show ?thesis
    using assms(2) one reaches_not by (auto simp: transact_def split: option.splits if_splits)
qed

lemma postgres_migrated:
  assumes "earlier postgres_columns postgres_added s" "\<forall>d\<in>set postgres_schema. established d s"
  shows "migrated postgres_columns postgres_added s"
proof (rule migrated_if[OF assms(1)])
  show "established (CreateTable ''jobs'' postgres_columns) s"
    using assms(2) by (simp add: postgres_schema_def)
  show "\<forall>c\<in>set postgres_added. \<exists>cols. dc_tables s ''jobs'' = Some cols \<and> c \<in> set cols"
    using assms(2) by (simp add: postgres_added_def postgres_schema_def)
  show "\<forall>(n, i)\<in>set known_indexes. dc_indexes s n = Some i"
    using assms(2) by (simp add: known_indexes_def postgres_schema_def)
qed

text \<open>The script of PostgreSQL in the three parts that need each other.\<close>

definition pg_columns_part :: "ddl list" where
  "pg_columns_part =
     [CreateIndex ''jobs_tool_idempotency_key_uniq'' key_index,
      AddMissing ''jobs'' (text_column ''batch_id''),
      AddMissing ''jobs'' (defaulted ''acked'' ''BOOLEAN'' ''false''),
      AddMissing ''jobs'' (typed ''acked_at'' ''TIMESTAMPTZ'')]"

definition pg_index_part :: "ddl list" where
  "pg_index_part =
     [CreateIndex ''jobs_batch_id_idx'' batch_index, CreateIndex ''jobs_terminal_unacked_idx'' unacked_index]"

lemma postgres_parts:
  "postgres_schema = [CreateTable ''jobs'' postgres_columns] @ pg_columns_part @ pg_index_part"
  by (simp add: postgres_schema_def pg_columns_part_def pg_index_part_def)

lemma postgres_part_fits:
  "list_all (fits postgres_columns postgres_added) pg_columns_part" "list_all (\<lambda>d. \<not> plain_add d) pg_columns_part"
  "list_all (fits postgres_columns postgres_added) pg_index_part" "list_all (\<lambda>d. \<not> plain_add d) pg_index_part"
  using postgres_script by (simp_all add: postgres_parts)

lemma pg_columns_established:
  assumes "\<forall>d\<in>set pg_columns_part. established d s"
  obtains cols where "dc_tables s ''jobs'' = Some cols"
    "{text_column ''batch_id'', defaulted ''acked'' ''BOOLEAN'' ''false''} \<subseteq> set cols"
proof -
  have b: "AddMissing ''jobs'' (text_column ''batch_id'') \<in> set pg_columns_part"
    and a: "AddMissing ''jobs'' (defaulted ''acked'' ''BOOLEAN'' ''false'') \<in> set pg_columns_part"
    by (simp_all only: pg_columns_part_def list.set insert_iff simp_thms)
  from bspec[OF assms b] obtain cols where "dc_tables s ''jobs'' = Some cols" "text_column ''batch_id'' \<in> set cols"
    by (simp only: established.simps) blast
  with bspec[OF assms a] that show ?thesis by simp
qed

lemma postgres_works:
  assumes "earlier postgres_columns postgres_added s"
  shows "\<exists>s1. exec_script postgres_schema s = (None, s1)"
proof -
  let ?c = "[CreateTable ''jobs'' postgres_columns]"
  obtain s0 where s0: "exec_script ?c s = (None, s0)" "reaches postgres_columns postgres_added ?c True s s0"
    by (rule exec_script_reaches[OF postgres_plan assms, of ?c]) auto
  then have e0: "earlier postgres_columns postgres_added s0" by (simp add: reaches_def)
  have "\<forall>d\<in>set pg_columns_part. runs_on d s0"
    using created_runs[OF s0(2) index_tables(1) index_columns(2)] created_table[OF s0(2)]
    by (simp add: pg_columns_part_def text_column_def defaulted_def typed_def)
  then obtain s1 where s1: "exec_script pg_columns_part s0 = (None, s1)"
      "reaches postgres_columns postgres_added pg_columns_part True s0 s1"
    using postgres_part_fits(1,2) exec_script_reaches[OF postgres_plan e0, of pg_columns_part] by blast
  then have e1: "earlier postgres_columns postgres_added s1"
    and m: "\<forall>d\<in>set pg_columns_part. established d s1" by (simp_all add: reaches_def)
  obtain cols where cols: "dc_tables s1 ''jobs'' = Some cols"
      "{text_column ''batch_id'', defaulted ''acked'' ''BOOLEAN'' ''false''} \<subseteq> set cols"
    by (rule pg_columns_established[OF m])
  have "needed (text_column ''status'') \<in> set postgres_columns" by (simp add: postgres_columns_def)
  then have "needed (text_column ''status'') \<in> set cols" using e1 cols(1) by (auto simp: earlier_def)
  from late_indexes_run[OF cols this]
  have "\<forall>d\<in>set pg_index_part. runs_on d s1" by (simp add: pg_index_part_def)
  then obtain s2 where "exec_script pg_index_part s1 = (None, s2)"
    using postgres_part_fits(3,4) exec_script_reaches[OF postgres_plan e1, of pg_index_part] by blast
  then have "exec_script postgres_schema s = (None, s2)"
    unfolding postgres_parts exec_script_append s0(1) s1(1) prod.case option.case .
  then show ?thesis by blast
qed

lemma open_postgres_cases:
  assumes "open_postgres env s = (r, s')"
  shows "r \<noteq> None \<and> s' = s \<or> (\<exists>r1. transact (oe_exec env 0) postgres_schema s = (r1, s') \<and> (r = None \<longleftrightarrow> r1 = None))"
  using assms by (auto simp: open_postgres_def split: option.splits prod.splits)

interpretation pm: migration open_postgres postgres_columns postgres_added
proof unfold_locales
  fix s env r s'
  assume e: "earlier postgres_columns postgres_added s" and o1: "open_postgres env s = (r, s')"
  show "earlier postgres_columns postgres_added s' \<and> kept s s'
      \<and> (r = None \<longrightarrow> migrated postgres_columns postgres_added s')"
    using open_postgres_cases[OF o1]
  proof (elim disjE exE conjE)
    fix r1 assume t: "transact (oe_exec env 0) postgres_schema s = (r1, s')" "(r = None) = (r1 = None)"
    from transact_steps[OF e t(1)] t(2) show ?thesis using postgres_migrated[of s'] by (auto simp: reaches_def)
  qed (use e in auto)
next
  fix s assume "earlier postgres_columns postgres_added s"
  from postgres_works[OF this] show "fst (open_postgres no_faults s) = None"
    by (auto simp: open_postgres_def transact_def)
next
  fix s assume c: "migrated postgres_columns postgres_added s"
  have "list_all (\<lambda>d. established d s \<and> \<not> plain_add d) postgres_schema"
    using migrated_established[OF c] postgres_script by (auto simp: list_all_iff)
  from exec_script_again[OF this] show "open_postgres no_faults s = (None, s)"
    by (simp add: open_postgres_def transact_def)
qed

subsection \<open>Properties\<close>

text \<open>The two ways to open a store, and a history of attempts at it.\<close>

definition openers ::
    "((open_env \<Rightarrow> db_schema \<Rightarrow> open_error option \<times> db_schema) \<times> column list \<times> column list) list" where
  "openers =
     [(open_sqlite, sqlite_columns, sqlite_added), (open_postgres, postgres_columns, postgres_added)]"

definition attempts ::
    "(open_env \<Rightarrow> db_schema \<Rightarrow> open_error option \<times> db_schema) \<Rightarrow> open_env list \<Rightarrow> db_schema \<Rightarrow> db_schema" where
  "attempts opens envs s = fold (\<lambda>e s. snd (opens e s)) envs s"

text \<open>
  The columns the statements of both stores name: the insert, its conflict target, the update,
  the acknowledgment, the selection and the conditions and orders of the queries.
\<close>

definition insert_columns :: "string list" where
  "insert_columns =
     [''id'', ''tool'', ''idempotency_key'', ''input'', ''meta'', ''status'', ''attempt'',
      ''max_retries'', ''created_at'', ''batch_id'']"

definition select_columns :: "string list" where
  "select_columns =
     [''id'', ''tool'', ''idempotency_key'', ''input'', ''meta'', ''status'', ''attempt'', ''max_retries'',
      ''result'', ''error'', ''created_at'', ''started_at'', ''finished_at'', ''batch_id'', ''acked'',
      ''acked_at'']"

definition update_columns :: "string list" where
  "update_columns = [''status'', ''attempt'', ''result'', ''error'', ''started_at'', ''finished_at'', ''id'']"

definition statement_columns :: "string list list" where
  "statement_columns =
     [insert_columns, ix_columns key_index, update_columns, [''acked'', ''acked_at'', ''id''], select_columns,
      [''status'', ''created_at''], [''acked'', ''status'', ''finished_at'', ''created_at''],
      [''batch_id'', ''created_at'']]"

definition statements_typed :: "db_schema \<Rightarrow> bool" where
  "statements_typed s \<longleftrightarrow>
     (\<exists>cols. dc_tables s ''jobs'' = Some cols
        \<and> list_all (\<lambda>ns. set ns \<subseteq> cl_name ` set cols) statement_columns
        \<and> list_all (\<lambda>c. cl_not_null c \<and> cl_default c = None \<longrightarrow> cl_name c \<in> set insert_columns) cols)
   \<and> (\<exists>n. dc_indexes s n = Some key_index)"

lemma openers_migrate: "(opens, base, adds) \<in> set openers \<Longrightarrow> migration opens base adds"
  using om.migration_axioms pm.migration_axioms by (auto simp: openers_def)

lemma statements_fit:
  assumes "(opens, base, adds) \<in> set openers"
  shows "list_all (\<lambda>ns. set ns \<subseteq> cl_name ` set (base @ adds)) statement_columns"
    and "list_all (\<lambda>c. cl_not_null c \<and> cl_default c = None \<longrightarrow> cl_name c \<in> set insert_columns) (base @ adds)"
proof -
  have "list_all (\<lambda>ns. set ns \<subseteq> cl_name ` set (sqlite_columns @ sqlite_added)) statement_columns"
    "list_all (\<lambda>ns. set ns \<subseteq> cl_name ` set (postgres_columns @ postgres_added)) statement_columns"
    by code_simp+
  then show "list_all (\<lambda>ns. set ns \<subseteq> cl_name ` set (base @ adds)) statement_columns"
    using assms by (auto simp: openers_def)
  have "list_all (\<lambda>c. cl_not_null c \<and> cl_default c = None \<longrightarrow> cl_name c \<in> set insert_columns) (sqlite_columns @ sqlite_added)"
    "list_all (\<lambda>c. cl_not_null c \<and> cl_default c = None \<longrightarrow> cl_name c \<in> set insert_columns) (postgres_columns @ postgres_added)"
    by code_simp+
  then show "list_all (\<lambda>c. cl_not_null c \<and> cl_default c = None \<longrightarrow> cl_name c \<in> set insert_columns) (base @ adds)"
    using assms by (auto simp: openers_def)
qed

lemma migrated_typed:
  assumes "(opens, base, adds) \<in> set openers" "migrated base adds s"
  shows "statements_typed s"
proof -
  obtain cols where cols: "dc_tables s ''jobs'' = Some cols" "set cols = set (base @ adds)"
    using assms(2) by (auto simp: migrated_def)
  have "list_all P cols \<longleftrightarrow> list_all P (base @ adds)" for P :: "column \<Rightarrow> bool"
    unfolding list_all_iff cols(2) ..
  moreover have "(''jobs_tool_idempotency_key_uniq'', key_index) \<in> set known_indexes"
    by (simp add: known_indexes_def)
  then have "\<exists>n. dc_indexes s n = Some key_index" using assms(2) unfolding migrated_def by blast
  ultimately show ?thesis
    unfolding statements_typed_def using cols statements_fit[OF assms(1)] by (intro conjI exI[of _ cols]) simp_all
qed

text \<open>
  C19: A store that opens can run its statements. Whatever version of the program left the
  database, and wherever earlier attempts to open it broke off, when \<^verbatim>\<open>NewSQLiteStore\<close> or
  \<^verbatim>\<open>NewPostgresStore\<close> returns a store, every column that a statement of the store names is a column
  of the table, every column that takes no null and has no default is given by the insert, and
  the unique index that the conflict clause of the insert needs is there.
\<close>

theorem opened_store_well_typed:
  assumes "(opens, base, adds) \<in> set openers" "earlier base adds s" "list_all honest (env # envs)"
    and "opens env (attempts opens envs s) = (None, s')"
  shows "statements_typed s'"
proof -
  note m = openers_migrate[OF assms(1)]
  have "earlier base adds (attempts opens envs s)"
    using migration.opens_history[OF m assms(2), of envs] assms(3) by (simp add: attempts_def)
  from migration.opens_keeps[OF m this _ assms(4)] assms(3) show ?thesis
    using migrated_typed[OF assms(1)] by simp
qed

text \<open>
  C20: A migration that broke off is finished by the next start. From a database of any version,
  after any attempts that failed at any statement, opening without a fault succeeds; the schema
  then is complete, every table still begins with the columns it had, and opening once more
  changes nothing.
\<close>

theorem broken_migration_recovers:
  assumes "(opens, base, adds) \<in> set openers" "earlier base adds s" "list_all honest envs"
  shows "\<exists>s'. opens no_faults (attempts opens envs s) = (None, s') \<and> migrated base adds s' \<and> kept s s'
    \<and> opens no_faults s' = (None, s')"
  using migration.opens_recovers[OF openers_migrate[OF assms(1)] assms(2,3)] unfolding attempts_def .

text \<open>A new file whose first migration dies at the second of the additions.\<close>

definition new_file :: db_schema where
  "new_file = \<lparr>dc_tables = (\<lambda>t. None), dc_indexes = (\<lambda>n. None)\<rparr>"

definition dying_env :: open_env where
  "dying_env = no_faults\<lparr>oe_exec := (\<lambda>n. if n = 2 then Some (0, ''database is locked'') else None)\<rparr>"

lemma new_file_earlier: "earlier base adds new_file"
  by (simp add: earlier_def new_file_def)

lemma dying_honest: "honest dying_env" "honest no_faults"
proof -
  have "\<not> contains ''database is locked'' duplicate_column" by code_simp
  then show "honest dying_env" by (simp add: honest_def dying_env_def)
qed (simp add: honest_def)

lemma sqlite_opener: "(open_sqlite, sqlite_columns, sqlite_added) \<in> set openers"
  by (simp add: openers_def)

lemma broken_migration_recovers_witness:
  "\<exists>s'. open_sqlite no_faults (attempts open_sqlite [dying_env] new_file) = (None, s')
     \<and> migrated sqlite_columns sqlite_added s'"
  using broken_migration_recovers[OF sqlite_opener new_file_earlier, of "[dying_env]"] dying_honest by auto

lemma opened_store_well_typed_witness:
  "statements_typed (snd (open_sqlite no_faults (attempts open_sqlite [dying_env] new_file)))"
proof (rule opened_store_well_typed[OF sqlite_opener new_file_earlier, of no_faults "[dying_env]"])
  from om.opens_recovers[OF new_file_earlier, of "[dying_env]"] dying_honest
  show "open_sqlite no_faults (attempts open_sqlite [dying_env] new_file)
      = (None, snd (open_sqlite no_faults (attempts open_sqlite [dying_env] new_file)))"
    by (auto simp: attempts_def)
qed (simp add: dying_honest)

end
