(* ===== verification/Start_Up.thy ===== *)
theory Start_Up
  imports Preflight Executor_Props Seccomp Handlers Store_Open
begin

text \<open>
  The program: \<^verbatim>\<open>main\<close> of \<^verbatim>\<open>cmd/agent-desk/main.go\<close>, from the environment and the flags to a
  serving desk, as the code orders it. Each stage is a function of what it reads of the box;
  a stage that ends the program says how: \<^verbatim>\<open>log.Fatalf\<close>, or an exit code with what was printed.
  Opening the chosen store is an argument (\<^verbatim>\<open>Store_Open\<close> says what it does to a database), as are
  the parsed flags. Log lines are left out.
\<close>

subsection \<open>The command line and the box\<close>

text \<open>The flags as parsed; \<open>None\<close> is a flag that was not given.\<close>

record flags =
  fl_addr :: "string option"
  fl_tools :: "string option"
  fl_workers :: "int option"
  fl_data :: "string option"
  fl_store :: "string option"
  fl_sqlite_path :: "string option"
  fl_postgres_dsn :: "string option"
  fl_strict :: "bool option"
  fl_check :: bool
  fl_pin :: bool
  fl_version :: bool

record 's box =
  bx_dotenv :: file_read
  bx_environ :: environ
  bx_config :: file_read
  bx_config_yaml :: "string \<Rightarrow> config option"
  bx_version :: string
  bx_commit :: string
  bx_uid :: int
  bx_euid :: int
  bx_user :: "string option"
  bx_os :: os_env
  bx_os_err :: "string \<Rightarrow> string"
  bx_tool_yaml :: "string \<Rightarrow> tool option"
  bx_shim_yaml :: "string \<Rightarrow> exec_elem list option"
  bx_cwd :: "string option"
  bx_read_dir :: "string \<Rightarrow> dir_listing"
  bx_look :: "string \<Rightarrow> (string, string) result"
  bx_runs :: "string list \<Rightarrow> bool"
  bx_arch :: "(string \<Rightarrow> bool) option"
  bx_assemble :: "policy \<Rightarrow> raw_ins list option"
  bx_little :: bool
  bx_probe_in :: "string option"
  bx_probe_out :: "string option"
  bx_probe_input :: bool
  bx_pipe :: pipe_faults
  bx_mkdir :: "string \<Rightarrow> bool"
  bx_open :: "store_choice \<Rightarrow> (open_error, 's) result"
  bx_sock :: sock_faults
  bx_fs :: sock_fs

datatype fatal =
    FDotenv dotenv_error
  | FSettings settings_error
  | FConfig config_error
  | FNoToken
  | FTools load_error
  | FStrict "missing_mechanism list"
  | FStore store_choice_error
  | FMakeDir string
  | FOpen open_error
  | FListen listen_error

subsection \<open>Configuration\<close>

definition version_string :: "string \<Rightarrow> string \<Rightarrow> string" where
  "version_string version commit =
     (if commit = [] then ''deskbox agent-desk '' @ version
      else ''deskbox agent-desk '' @ version @ '' ('' @ commit @ '')'')"

text \<open>\<^verbatim>\<open>os.UserHomeDir\<close> and \<^verbatim>\<open>os.TempDir\<close> read the environment after the \<^verbatim>\<open>.env\<close> file was loaded.\<close>

definition user_home :: "environ \<Rightarrow> string option" where
  "user_home e = (let h = getenv e ''HOME'' in if h = [] then None else Some h)"

definition temp_dir :: "environ \<Rightarrow> string" where
  "temp_dir e = (let d = getenv e ''TMPDIR'' in if d = [] then ''/tmp'' else d)"

record desk_setup =
  su_settings :: settings
  su_tools_dir :: string
  su_workers :: int
  su_data_dir :: string
  su_store :: string
  su_sqlite_path :: string
  su_postgres_dsn :: string

definition resolve_flags :: "flags \<Rightarrow> environ \<Rightarrow> settings \<Rightarrow> config \<Rightarrow> desk_setup" where
  "resolve_flags f e s c =
     \<lparr>su_settings = s\<lparr>se_strict := flag_value (fl_strict f) (se_strict s),
                      se_listen_addr := flag_value (fl_addr f) ''127.0.0.1:8080''\<rparr>,
      su_tools_dir = flag_value (fl_tools f) ''tools'',
      su_workers = flag_value (fl_workers f) 10,
      su_data_dir = flag_value (fl_data f) (default_data_dir (user_home e) (temp_dir e)),
      su_store = flag_value (fl_store f) (store_kind_default s c),
      su_sqlite_path = flag_value (fl_sqlite_path f) (sqlite_path_default s c),
      su_postgres_dsn = flag_value (fl_postgres_dsn f) (se_postgres_dsn s)\<rparr>"

definition configure :: "flags \<Rightarrow> 's box \<Rightarrow> (fatal, desk_setup) result" where
  "configure f b =
     (case load_dotenv (bx_dotenv b) (bx_environ b) of
        (Some e, _) \<Rightarrow> Inl (FDotenv e)
      | (None, env) \<Rightarrow>
     (case load_settings env of
        Inl e \<Rightarrow> Inl (FSettings e)
      | Inr s \<Rightarrow>
     (case load_config (bx_config_yaml b) (bx_config b) of
        Inl e \<Rightarrow> Inl (FConfig e)
      | Inr c \<Rightarrow> Inr (resolve_flags f env s c))))"

subsection \<open>What is enforced, and the store\<close>

definition seccomp_stage :: "'s box \<Rightarrow> settings \<Rightarrow> posture \<times> 8 word list" where
  "seccomp_stage b s =
     (let limits = can_scope_jobs (bx_look b) (bx_runs b) in
      startup_posture (bx_look b) limits
        (build_seccomp_program (bx_arch b) (bx_assemble b) (bx_little b))
        (\<lambda>prog. probe_seccomp (bx_os b) (bx_look b) (bx_runs b) s limits (bx_probe_in b) (bx_probe_out b)
           (bx_probe_input b) (fst (seccomp_pipe (bx_pipe b) prog) \<noteq> None))
        s (bx_uid b) (bx_euid b) (bx_user b))"

definition open_store :: "'s box \<Rightarrow> desk_setup \<Rightarrow> (fatal, 's option) result" where
  "open_store b u =
     (case choose_store (su_store u) (su_sqlite_path u) (su_postgres_dsn u) (su_data_dir u) of
        Inl e \<Rightarrow> Inl (FStore e)
      | Inr MemoryStore \<Rightarrow> Inr None
      | Inr (PostgresStore dsn) \<Rightarrow> map_sum FOpen Some (bx_open b (PostgresStore dsn))
      | Inr (SqliteStore path) \<Rightarrow>
          if \<not> bx_mkdir b (path_dir path) then Inl (FMakeDir path)
          else map_sum FOpen Some (bx_open b (SqliteStore path)))"

subsection \<open>The desk\<close>

record 's server =
  sv_tools :: toolbox
  sv_settings :: settings
  sv_data_dir :: string
  sv_posture :: posture
  sv_program :: "8 word list"
  sv_queue :: "'s queue"
  sv_listener :: listener

text \<open>
  How the program ends, or that it serves. A run carries on: what has been started when it
  ends is in \<open>run_queue\<close>, the queue whose workers were handed the resumed jobs.
\<close>

datatype 's ending = Fatal fatal | Exits nat string | Serves "'s server"

record 's run =
  run_ending :: "'s ending"
  run_queue :: "'s queue option"
  run_fs :: sock_fs

definition stopped_before :: "'s box \<Rightarrow> 's ending \<Rightarrow> 's run" where
  "stopped_before b e = \<lparr>run_ending = e, run_queue = None, run_fs = bx_fs b\<rparr>"

text \<open>The last stage: workers, recovery, and only then the socket.\<close>

definition go_live ::
    "'s store_ops \<Rightarrow> 's box \<Rightarrow> desk_setup \<Rightarrow> toolbox \<Rightarrow> posture \<Rightarrow> 8 word list \<Rightarrow> 's option \<Rightarrow> 's run" where
  "go_live ops b u tools p prog store =
     (case resume ops (new_queue (su_workers u) store) of
        (n, err, q) \<Rightarrow>
     (case listen (bx_sock b) (se_listen_addr (su_settings u)) (bx_fs b) of
        (Inl e, fs) \<Rightarrow> \<lparr>run_ending = Fatal (FListen e), run_queue = Some q, run_fs = fs\<rparr>
      | (Inr l, fs) \<Rightarrow>
          \<lparr>run_ending = Serves \<lparr>sv_tools = tools, sv_settings = su_settings u, sv_data_dir = su_data_dir u,
             sv_posture = p, sv_program = prog, sv_queue = q, sv_listener = l\<rparr>,
           run_queue = Some q, run_fs = fs\<rparr>))"

definition enforce_and_serve ::
    "'s store_ops \<Rightarrow> 's box \<Rightarrow> desk_setup \<Rightarrow> toolbox \<Rightarrow> 's run" where
  "enforce_and_serve ops b u tools =
     (case seccomp_stage b (su_settings u) of
        (p, prog) \<Rightarrow>
          if se_strict (su_settings u) \<and> strict_missing p \<noteq> []
          then stopped_before b (Fatal (FStrict (strict_missing p)))
          else case open_store b u of
                 Inl e \<Rightarrow> stopped_before b (Fatal e)
               | Inr store \<Rightarrow> go_live ops b u tools p prog store)"

definition start_desk :: "'s store_ops \<Rightarrow> flags \<Rightarrow> 's box \<Rightarrow> desk_setup \<Rightarrow> 's run" where
  "start_desk ops f b u =
     (if fl_version f then stopped_before b (Exits 0 (version_string (bx_version b) (bx_commit b) @ newline))
      else if se_auth_enabled (su_settings u) \<and> se_auth_token (su_settings u) = []
      then stopped_before b (Fatal FNoToken)
      else case load_tools (bx_os b) (bx_tool_yaml b) (bx_cwd b) (bx_read_dir b) (su_tools_dir u) of
             Inl e \<Rightarrow> stopped_before b (Fatal (FTools e))
           | Inr (tools, _) \<Rightarrow>
               if fl_pin f then stopped_before b (Exits 0 (format_pins (bx_os b) (bx_os_err b) tools))
               else if fl_check f then
                 (case run_check (preflight (bx_os b) (bx_shim_yaml b) tools) (has_bwrap (bx_look b))
                         (length tools) (su_tools_dir u) of
                    (text, code) \<Rightarrow> stopped_before b (Exits code text))
               else enforce_and_serve ops b u tools)"

definition run_desk :: "'s store_ops \<Rightarrow> flags \<Rightarrow> 's box \<Rightarrow> 's run" where
  "run_desk ops f b =
     (case configure f b of
        Inl e \<Rightarrow> stopped_before b (Fatal e)
      | Inr u \<Rightarrow> start_desk ops f b u)"

text \<open>What \<^verbatim>\<open>NewDesk\<close> hands to every execution, with the program \<^verbatim>\<open>main\<close> sets after it.\<close>

definition new_desk :: "'s server \<Rightarrow> exec_desk" where
  "new_desk sv =
     \<lparr>xd_data_dir = sv_data_dir sv, xd_settings = sv_settings sv, xd_seccomp_ok = po_seccomp (sv_posture sv),
      xd_seccomp_prog = sv_program sv\<rparr>"

subsection \<open>How a run ends\<close>

lemma stopped_before_simps [simp]:
  "run_ending (stopped_before b e) = e" "run_queue (stopped_before b e) = None"
  "run_fs (stopped_before b e) = bx_fs b"
  by (simp_all add: stopped_before_def)

text \<open>A run that comes to its last stage passed every check on the way.\<close>

lemma run_desk_live:
  assumes "run_queue (run_desk ops f b) \<noteq> None"
  obtains u tools evs p prog store where
    "configure f b = Inr u" "\<not> fl_version f" "\<not> fl_pin f" "\<not> fl_check f"
    "se_auth_enabled (su_settings u) \<longrightarrow> se_auth_token (su_settings u) \<noteq> []"
    "load_tools (bx_os b) (bx_tool_yaml b) (bx_cwd b) (bx_read_dir b) (su_tools_dir u) = Inr (tools, evs)"
    "seccomp_stage b (su_settings u) = (p, prog)"
    "se_strict (su_settings u) \<longrightarrow> strict_missing p = []"
    "open_store b u = Inr store" "run_desk ops f b = go_live ops b u tools p prog store"
proof -
  obtain u where u: "configure f b = Inr u" "run_desk ops f b = start_desk ops f b u"
    using assms by (cases "configure f b") (simp_all add: run_desk_def)
  have flags: "\<not> fl_version f" "se_auth_enabled (su_settings u) \<longrightarrow> se_auth_token (su_settings u) \<noteq> []"
    using assms u(2) by (auto simp: start_desk_def split: if_splits)
  obtain tools evs where t:
      "load_tools (bx_os b) (bx_tool_yaml b) (bx_cwd b) (bx_read_dir b) (su_tools_dir u) = Inr (tools, evs)"
    using assms u(2) flags by (auto simp: start_desk_def split: sum.splits if_splits)
  have more: "\<not> fl_pin f" "\<not> fl_check f"
    using assms u(2) flags t by (auto simp: start_desk_def split: prod.splits if_splits)
  with u(2) flags t have live: "run_desk ops f b = enforce_and_serve ops b u tools"
    by (auto simp: start_desk_def)
  obtain p prog where p: "seccomp_stage b (su_settings u) = (p, prog)" by fastforce
  with assms live have s: "se_strict (su_settings u) \<longrightarrow> strict_missing p = []"
    by (auto simp: enforce_and_serve_def split: if_splits)
  with assms live p obtain store where "open_store b u = Inr store"
      "run_desk ops f b = go_live ops b u tools p prog store"
    by (auto simp: enforce_and_serve_def split: sum.splits if_splits)
  with u(1) flags more t p s show ?thesis by (intro that)
qed

lemma go_live_queue:
  "run_queue (go_live ops b u tools p prog store) = Some (snd (snd (resume ops (new_queue (su_workers u) store))))"
  by (auto simp: go_live_def split: prod.splits sum.splits)

lemma served_live: "run_ending (run_desk ops f b) = Serves sv \<Longrightarrow> run_queue (run_desk ops f b) \<noteq> None"
  by (auto simp: run_desk_def start_desk_def enforce_and_serve_def go_live_queue split: sum.splits prod.splits if_splits)

lemma go_live_serves:
  assumes "run_ending (go_live ops b u tools p prog store) = Serves sv"
  shows "sv_tools sv = tools" "sv_settings sv = su_settings u" "sv_posture sv = p" "sv_program sv = prog"
    "fst (listen (bx_sock b) (se_listen_addr (su_settings u)) (bx_fs b)) = Inr (sv_listener sv)"
    "run_fs (go_live ops b u tools p prog store) = snd (listen (bx_sock b) (se_listen_addr (su_settings u)) (bx_fs b))"
  using assms by (auto simp: go_live_def split: prod.splits sum.splits)

lemma go_live_ending:
  "fst (listen (bx_sock b) (se_listen_addr (su_settings u)) (bx_fs b)) = Inr l \<Longrightarrow>
     \<exists>sv. run_ending (go_live ops b u tools p prog store) = Serves sv"
  "fst (listen (bx_sock b) (se_listen_addr (su_settings u)) (bx_fs b)) = Inl e \<Longrightarrow>
     run_ending (go_live ops b u tools p prog store) = Fatal (FListen e)"
  by (cases "listen (bx_sock b) (se_listen_addr (su_settings u)) (bx_fs b)";
      cases "resume ops (new_queue (su_workers u) store)"; simp add: go_live_def)+

lemma seccomp_stage_posture:
  assumes "seccomp_stage b s = (p, prog)"
  shows "po_settings p = s" "po_uid p = bx_uid b" "po_euid p = bx_euid b"
    and "po_seccomp p \<Longrightarrow> build_seccomp_program (bx_arch b) (bx_assemble b) (bx_little b) = Inr prog"
  using assms by (auto simp: seccomp_stage_def startup_posture_def Let_def split: sum.splits if_splits)

lemma built_program_not_empty:
  assumes "build_seccomp_program arch assemble little = Inr prog" "\<forall>pol. assemble pol \<noteq> Some []"
  shows "prog \<noteq> []"
proof -
  obtain raw where raw: "prog = serialize_filter little raw" "raw \<noteq> []"
    using assms by (auto simp: build_seccomp_program_def split: option.splits if_splits)
  then obtain i rest where "raw = i # rest" by (cases raw) auto
  then show ?thesis using raw(1) by (simp add: serialize_filter_def serialize_ins_def)
qed

lemma no_mechanism_missing:
  assumes "strict_missing p = []"
  shows "po_sandbox p" "po_seccomp p" "po_limits p" "\<not> running_as_root (po_uid p) (po_euid p)"
    "listens_beyond_loopback (se_listen_addr (po_settings p)) \<longrightarrow> se_auth_enabled (po_settings p)"
  using assms by (auto simp: strict_missing_def split: if_splits)

subsection \<open>Properties\<close>

text \<open>A box on which everything works, and the command line of a strict desk on a socket.\<close>

definition strict_flags :: flags where
  "strict_flags =
     \<lparr>fl_addr = Some ''/run/desk.sock'', fl_tools = Some ''/tools'', fl_workers = Some 2, fl_data = Some ''/data'',
      fl_store = Some ''sqlite'', fl_sqlite_path = Some ''/data/desk.db'', fl_postgres_dsn = Some [],
      fl_strict = Some True, fl_check = False, fl_pin = False, fl_version = False\<rparr>"

definition sample_box :: "bool \<Rightarrow> sqlite_db box" where
  "sample_box bind_fails =
     \<lparr>bx_dotenv = FileMissing, bx_environ = (\<lambda>k. None), bx_config = FileMissing, bx_config_yaml = (\<lambda>s. None),
      bx_version = ''1.0.0'', bx_commit = [], bx_uid = 1000, bx_euid = 1000, bx_user = Some ''op'',
      bx_os = uniform_env ''name: greet'', bx_os_err = (\<lambda>p. []), bx_tool_yaml = (\<lambda>raw. Some (sample_tool [])),
      bx_shim_yaml = (\<lambda>s. None), bx_cwd = None,
      bx_read_dir = (\<lambda>dir. DirEntries [(''notes'', False), (''greet'', True), (''greet-copy'', True)]),
      bx_look = (\<lambda>n. Inr (''/usr/bin/'' @ n)), bx_runs = (\<lambda>args. True), bx_arch = Some (\<lambda>c. True),
      bx_assemble = (\<lambda>pol. Some [\<lparr>ri_op = 6, ri_jt = 0, ri_jf = 0, ri_k = 0\<rparr>]), bx_little = True,
      bx_probe_in = Some ''/tmp/i'', bx_probe_out = Some ''/tmp/o'', bx_probe_input = True,
      bx_pipe = \<lparr>pp_open = False, pp_write = False, pp_close = False\<rparr>,
      bx_mkdir = (\<lambda>p. True), bx_open = (\<lambda>c. Inr (one_job_db ''a'' [])),
      bx_sock = \<lparr>sf_remove_fails = False, sf_bind_fails = bind_fails, sf_chmod_fails = False, sf_umask_honoured = True\<rparr>,
      bx_fs = \<lparr>fs_kind = (\<lambda>p. None), fs_mode = (\<lambda>p. 0), fs_umask = 18\<rparr>\<rparr>"

definition strict_setup :: desk_setup where
  "strict_setup =
     \<lparr>su_settings = \<lparr>se_auth_enabled = False, se_auth_token = [], se_strict = True,
        se_listen_addr = ''/run/desk.sock'', se_store_kind = [], se_sqlite_path = [], se_postgres_dsn = [],
        se_job_memory_max = ''512M'', se_job_tasks_max = 64\<rparr>,
      su_tools_dir = ''/tools'', su_workers = 2, su_data_dir = ''/data'', su_store = ''sqlite'',
      su_sqlite_path = ''/data/desk.db'', su_postgres_dsn = []\<rparr>"

lemma sample_configured: "configure strict_flags (sample_box bf) = Inr strict_setup"
  by (simp add: configure_def sample_box_def load_dotenv_def load_settings_def bool_var_def getenv_def
      tasks_max_def memory_max_def load_config_def resolve_flags_def strict_flags_def flag_value_def
      strict_setup_def)

lemma sample_store: "open_store (sample_box bf) strict_setup = Inr (Some (one_job_db ''a'' []))"
proof -
  have "choose_store ''sqlite'' ''/data/desk.db'' [] ''/data'' = Inr (SqliteStore ''/data/desk.db'')"
    by code_simp
  then show ?thesis by (simp add: open_store_def strict_setup_def sample_box_def)
qed

lemma probe_args_built: "\<exists>args. probe_args env look s limits bw i out_d = Some args"
proof -
  have "declared_in empty_tool = [''input.json'']" by (simp add: declared_in_def empty_tool_def)
  moreover have "\<not> path_traverses ''input.json''" by code_simp
  ultimately show ?thesis by (simp add: probe_args_def sandbox_args_def)
qed

lemma sample_posture:
  obtains prog where "seccomp_stage (sample_box bf) (su_settings strict_setup) =
    (\<lparr>po_sandbox = True, po_seccomp = True, po_limits = True, po_settings = su_settings strict_setup,
      po_uid = 1000, po_euid = 1000, po_user = Some ''op''\<rparr>, prog)"
proof -
  let ?b = "sample_box bf"
  have "present_syscalls (\<lambda>c. True) \<noteq> []" by (simp add: present_syscalls_def denied_syscalls_def)
  then obtain prog where prog: "build_seccomp_program (bx_arch ?b) (bx_assemble ?b) (bx_little ?b) = Inr prog"
    by (simp add: build_seccomp_program_def sample_box_def)
  have look: "bx_look ?b n = Inr (''/usr/bin/'' @ n)" and runs: "bx_runs ?b a = True"
    and probe: "bx_probe_in ?b = Some ''/tmp/i''" "bx_probe_out ?b = Some ''/tmp/o''" "bx_probe_input ?b" "fst (seccomp_pipe (bx_pipe ?b) prog) \<noteq> None"
    and user: "bx_uid ?b = 1000" "bx_euid ?b = 1000" "bx_user ?b = Some ''op''" for n a
    by (simp_all add: sample_box_def seccomp_pipe_def)
  have "probe_seccomp (bx_os ?b) (bx_look ?b) (bx_runs ?b) s limits (bx_probe_in ?b) (bx_probe_out ?b)
      (bx_probe_input ?b) (fst (seccomp_pipe (bx_pipe ?b) prog) \<noteq> None)" for s limits
    using probe_args_built[of "bx_os ?b" "bx_look ?b" s limits "''/usr/bin/bwrap''" "''/tmp/i''" "''/tmp/o''"]
    by (auto simp: probe_seccomp_def look runs probe(1-3)) (use probe(4) in auto)
  then show ?thesis
    by (intro that[of prog])
      (simp add: seccomp_stage_def startup_posture_def has_bwrap_def can_scope_jobs_def look runs prog user)
qed

lemma sample_run:
  obtains p prog tools where "run_desk ops strict_flags (sample_box bf)
      = go_live ops (sample_box bf) strict_setup tools p prog (Some (one_job_db ''a'' []))"
    "po_settings p = su_settings strict_setup"
proof -
  have l: "load_tools (bx_os (sample_box bf)) (bx_tool_yaml (sample_box bf)) (bx_cwd (sample_box bf))
      (bx_read_dir (sample_box bf)) (su_tools_dir strict_setup)
     = Inr ([(''greet'', uniform_tool (clean ''/tools'') ''greet'')], [DuplicateName ''greet-copy'' ''greet''])"
    using uniform_load_tools by (simp add: sample_box_def strict_setup_def)
  obtain prog where p: "seccomp_stage (sample_box bf) (su_settings strict_setup) =
    (\<lparr>po_sandbox = True, po_seccomp = True, po_limits = True, po_settings = su_settings strict_setup,
      po_uid = 1000, po_euid = 1000, po_user = Some ''op''\<rparr>, prog)" (is "_ = (?p, _)")
    by (rule sample_posture)
  have m: "strict_missing ?p = []"
    by (simp add: strict_missing_def running_as_root_def listens_beyond_loopback_def strict_setup_def
        is_unix_socket_def has_prefix_def)
  have f: "\<not> fl_version strict_flags" "\<not> fl_pin strict_flags" "\<not> fl_check strict_flags"
    "\<not> se_auth_enabled (su_settings strict_setup)"
    by (simp_all add: strict_flags_def strict_setup_def)
  have "run_desk ops strict_flags (sample_box bf) = go_live ops (sample_box bf) strict_setup
      [(''greet'', uniform_tool (clean ''/tools'') ''greet'')] ?p prog (Some (one_job_db ''a'' []))"
    by (simp add: run_desk_def sample_configured start_desk_def l f enforce_and_serve_def p m sample_store)
  then show ?thesis by (rule that) simp
qed


text \<open>
  Asking questions starts nothing. With \<^verbatim>\<open>-version\<close>, \<^verbatim>\<open>-pin\<close> or \<^verbatim>\<open>-check\<close> the program never
  serves, hands no job to a worker and leaves the socket path alone, and what it says and its exit
  code are the same whatever state the store and the socket are in.
\<close>

theorem inspection_starts_nothing:
  assumes "fl_version f \<or> fl_pin f \<or> fl_check f"
  shows "run_queue (run_desk ops f b) = None \<and> run_fs (run_desk ops f b) = bx_fs b
    \<and> (\<nexists>sv. run_ending (run_desk ops f b) = Serves sv)
    \<and> run_ending (run_desk ops f (b\<lparr>bx_mkdir := mk, bx_open := op, bx_sock := sk, bx_fs := fs\<rparr>))
        = run_ending (run_desk ops f b)"
proof -
  have q: "run_queue (run_desk ops f b) = None"
    using run_desk_live[of ops f b] assms by blast
  moreover have "run_ending (run_desk ops f b) \<noteq> Serves sv" for sv using served_live q by fastforce
  moreover have "run_fs (run_desk ops f b) = bx_fs b"
    using assms by (auto simp: run_desk_def start_desk_def split: sum.splits prod.splits)
  moreover have "configure f (b\<lparr>bx_mkdir := mk, bx_open := op, bx_sock := sk, bx_fs := fs\<rparr>) = configure f b"
    by (simp add: configure_def cong: prod.case_cong option.case_cong sum.case_cong)
  then have "run_ending (run_desk ops f (b\<lparr>bx_mkdir := mk, bx_open := op, bx_sock := sk, bx_fs := fs\<rparr>))
      = run_ending (run_desk ops f b)"
    using assms by (auto simp: run_desk_def start_desk_def split: sum.splits prod.splits)
  ultimately show ?thesis by blast
qed

text \<open>
  C21: A desk that cannot bind its address has by then resumed every job of its store. Starting a
  second desk by mistake, on the store and address of a running one, ends with the error of the
  bind, and before that every job the first desk has queued or is running is put on the backlog of
  the second one, whose workers are up.
\<close>

theorem bind_failure_after_resume:
  assumes "run_ending (run_desk sqlite_ops f b) = Fatal (FListen e)" "run_queue (run_desk sqlite_ops f b) = Some q"
    and "configure f b = Inr u" "open_store b u = Inr (Some db)" "sqlite_ok db"
    and "so_load_incomplete sqlite_ops db = (Inr js, db')"
    and "sqlite_view db i = Some j" "\<not> is_terminal (jb_status j)"
  shows "\<exists>p\<in>set (q_pending q). q_heap q p = j\<lparr>jb_status := Queued\<rparr> \<and> lookup_job q i = Some p"
proof -
  obtain u' tools p prog store where r: "configure f b = Inr u'" "open_store b u' = Inr store"
    "run_desk sqlite_ops f b = go_live sqlite_ops b u' tools p prog store"
    using run_desk_live[of sqlite_ops f b] assms(2) by (metis option.distinct(1))
  with assms(3,4) have "u' = u" "store = Some db" by simp_all
  define q0 where "q0 = new_queue (su_workers u) (Some db)"
  have q0: "q_store q0 = Some db" "\<not> q_stopped q0" "q_pending q0 = []" by (simp_all add: q0_def new_queue_def)
  obtain n q2 where res: "resume sqlite_ops q0 = (n, None, q2)"
    using resume_loads[OF q0(1,2) assms(6)] by blast
  have "q = q2"
    using assms(2) res \<open>u' = u\<close> \<open>store = Some db\<close> unfolding r(3) go_live_queue q0_def by simp
  with sq.resume_recovers[OF assms(5) q0(1,2) res] assms(7,8) q0(3) show ?thesis by auto
qed

lemma inspection_starts_nothing_witness:
  "run_queue (run_desk sqlite_ops (strict_flags\<lparr>fl_check := True\<rparr>) (sample_box False)) = None"
  using inspection_starts_nothing[of "strict_flags\<lparr>fl_check := True\<rparr>" sqlite_ops "sample_box False"] by simp

lemma bind_failure_after_resume_witness:
  "\<exists>q. run_queue (run_desk sqlite_ops strict_flags (sample_box True)) = Some q
     \<and> (\<exists>p\<in>set (q_pending q). jb_id (q_heap q p) = ''a'' \<and> jb_status (q_heap q p) = Queued)"
proof -
  let ?b = "sample_box True" and ?j = "sample_job ''a'' [] [] 0"
  obtain p prog tools where r: "run_desk sqlite_ops strict_flags ?b
      = go_live sqlite_ops ?b strict_setup tools p prog (Some (one_job_db ''a'' []))"
    by (rule sample_run)
  have l: "fst (listen (bx_sock ?b) (se_listen_addr (su_settings strict_setup)) (bx_fs ?b))
      = Inl (BindFailed ''/run/desk.sock'')"
    by (simp add: listen_def is_unix_socket_def has_prefix_def remove_stale_def bind_socket_def sample_box_def
        strict_setup_def Let_def)
  obtain q where q: "run_queue (run_desk sqlite_ops strict_flags ?b) = Some q"
    by (simp add: r go_live_queue)
  have e: "run_ending (run_desk sqlite_ops strict_flags ?b) = Fatal (FListen (BindFailed ''/run/desk.sock''))"
    unfolding r by (rule go_live_ending(2)[OF l])
  have load: "so_load_incomplete sqlite_ops (one_job_db ''a'' []) = (Inr [?j], one_job_db ''a'' [])"
    by (simp add: sqlite_ops_def one_job_db_def sqlite_load_incomplete_def query_def exec_stmt_def draw_def
        insert_row_simps sample_scan)
  have v: "\<not> is_terminal (jb_status ?j)" by (simp add: sample_job_def is_terminal_def)
  from bind_failure_after_resume[OF e q sample_configured sample_store one_job_db_ok(1) load one_job_db_ok(2) v]
  obtain k where "k \<in> set (q_pending q)" "q_heap q k = ?j\<lparr>jb_status := Queued\<rparr>" by blast
  then have "k \<in> set (q_pending q)" "jb_id (q_heap q k) = ''a''" "jb_status (q_heap q k) = Queued"
    by (simp_all add: sample_job_def)
  with q show ?thesis by blast
qed


end
