(* ===== verification/Routes.thy ===== *)
theory Routes
  imports Start_Up
begin

text \<open>
  Requests: the route table of \<^verbatim>\<open>main\<close> in \<^verbatim>\<open>cmd/agent-desk/main.go\<close> and how a serving desk
  answers a request, from the authentication wrapper through the choice of the route to the
  handler. The choice is that of the standard library's \<^verbatim>\<open>ServeMux\<close>: segment by segment, a
  literal before a wildcard before a rest. A path is given as its decoded segments; it is
  clean, a path that is not is redirected before any route is looked for.
\<close>

subsection \<open>Patterns\<close>

datatype segment = Lit string | Wild string | Rest string

fun match_segs :: "segment list \<Rightarrow> string list \<Rightarrow> (string \<times> string) list option" where
  "match_segs [] [] = Some []"
| "match_segs (Lit l # ps) (s # ss) = (if s = l then match_segs ps ss else None)"
| "match_segs (Wild n # ps) (s # ss) =
     (if s = [] then None else map_option (Cons (n, s)) (match_segs ps ss))"
| "match_segs (Rest n # ps) (s # ss) = Some (if n = [] then [] else [(n, join_with ''/'' (s # ss))])"
| "match_segs ps ss = None"

text \<open>A level of the tree: the patterns whose first segment is a literal, a wildcard, a rest.\<close>

fun step_lit :: "string \<Rightarrow> segment list \<times> 'a \<Rightarrow> (segment list \<times> 'a) option" where
  "step_lit s (Lit l # ps, x) = (if l = s then Some (ps, x) else None)"
| "step_lit s p = None"

fun step_wild :: "segment list \<times> 'a \<Rightarrow> (segment list \<times> 'a) option" where
  "step_wild (Wild n # ps, x) = Some (ps, x)"
| "step_wild p = None"

fun step_rest :: "segment list \<times> 'a \<Rightarrow> 'a option" where
  "step_rest (Rest n # ps, x) = Some x"
| "step_rest p = None"

definition or_else :: "'a option \<Rightarrow> 'a option \<Rightarrow> 'a option" where
  "or_else a b = (case a of None \<Rightarrow> b | Some x \<Rightarrow> Some x)"

definition first_some :: "'a list \<Rightarrow> 'a option" where
  "first_some xs = (case xs of [] \<Rightarrow> None | x # _ \<Rightarrow> Some x)"

fun tree_find :: "(segment list \<times> 'a) list \<Rightarrow> string list \<Rightarrow> 'a option" where
  "tree_find t [] = first_some (List.map_filter (\<lambda>(ps, x). if ps = [] then Some x else None) t)"
| "tree_find t (s # ss) =
     or_else (tree_find (List.map_filter (step_lit s) t) ss)
       (or_else (if s = [] then None else tree_find (List.map_filter step_wild t) ss)
          (first_some (List.map_filter step_rest t)))"

subsection \<open>The table\<close>

datatype endpoint =
    EStatus
  | EListTools
  | EGetTool
  | ESubmit
  | EListInbox
  | EWaitAny
  | EGetJob
  | EWaitJob
  | EAckJob
  | ECancelJob
  | EGetOutFile
  | ECreateBatch
  | EGetBatch
  | EQueueStats
  | EPreflight

definition routes :: "(string \<times> segment list \<times> endpoint) list" where
  "routes =
     [(''GET'', [Rest []], EStatus),
      (''GET'', [Lit ''tools''], EListTools),
      (''GET'', [Lit ''tools'', Wild ''name''], EGetTool),
      (''POST'', [Lit ''tools'', Wild ''name''], ESubmit),
      (''GET'', [Lit ''jobs''], EListInbox),
      (''GET'', [Lit ''jobs'', Lit ''wait-any''], EWaitAny),
      (''GET'', [Lit ''jobs'', Wild ''id''], EGetJob),
      (''GET'', [Lit ''jobs'', Wild ''id'', Lit ''wait''], EWaitJob),
      (''POST'', [Lit ''jobs'', Wild ''id'', Lit ''ack''], EAckJob),
      (''DELETE'', [Lit ''jobs'', Wild ''id''], ECancelJob),
      (''GET'', [Lit ''jobs'', Wild ''id'', Lit ''out'', Rest ''file''], EGetOutFile),
      (''POST'', [Lit ''batches''], ECreateBatch),
      (''GET'', [Lit ''batches'', Wild ''id''], EGetBatch),
      (''GET'', [Lit ''queue''], EQueueStats),
      (''GET'', [Lit ''preflight''], EPreflight)]"

definition patterns_of :: "string \<Rightarrow> (segment list \<times> segment list \<times> endpoint) list" where
  "patterns_of m = map (\<lambda>(m', ps, e). (ps, ps, e)) (filter (\<lambda>(m', ps, e). m' = m) routes)"

definition lookup_method :: "string \<Rightarrow> string list \<Rightarrow> (segment list \<times> endpoint) option" where
  "lookup_method m ss = tree_find (patterns_of m) ss"

text \<open>A \<^verbatim>\<open>GET\<close> pattern also takes \<^verbatim>\<open>HEAD\<close> requests.\<close>

definition lookup_route :: "string \<Rightarrow> string list \<Rightarrow> (segment list \<times> endpoint) option" where
  "lookup_route m ss =
     or_else (lookup_method m ss) (if m = ''HEAD'' then lookup_method ''GET'' ss else None)"

definition exact_match :: "segment list \<Rightarrow> string list \<Rightarrow> bool" where
  "exact_match ps ss \<longleftrightarrow>
     (case last ps of Rest n \<Rightarrow> last ss = [] \<and> length ps = length ss | _ \<Rightarrow> True)"

datatype routed = Routed endpoint "(string \<times> string) list" | SlashRedirect | NoMethod | NoRoute

text \<open>
  \<^verbatim>\<open>findHandler\<close>: a path without a trailing slash whose match is not exact is redirected when it
  matches exactly with the slash; a request that no pattern of its method takes is refused by
  its method when another method would take it.
\<close>

definition matches_exactly :: "string \<Rightarrow> string list \<Rightarrow> bool" where
  "matches_exactly m ss = (case lookup_route m ss of None \<Rightarrow> False | Some (ps, e) \<Rightarrow> exact_match ps ss)"

definition route :: "string \<Rightarrow> string list \<Rightarrow> routed" where
  "route m ss =
     (if \<not> matches_exactly m ss \<and> last ss \<noteq> [] \<and> matches_exactly m (ss @ [[]]) then SlashRedirect
      else case lookup_route m ss of
             Some (ps, e) \<Rightarrow> Routed e (case match_segs ps ss of None \<Rightarrow> [] | Some caps \<Rightarrow> caps)
           | None \<Rightarrow>
               if list_ex (\<lambda>m'. lookup_method m' ss \<noteq> None) (map fst routes) then NoMethod else NoRoute)"

subsection \<open>Answering a request\<close>

record request =
  rq_method :: string
  rq_segs :: "string list"
  rq_auth :: string
  rq_query :: "string \<Rightarrow> string"
  rq_body :: string

text \<open>What the handlers take from outside while they answer one request.\<close>

record 's surroundings =
  sr_decode_submit :: "string \<Rightarrow> submit_request scan"
  sr_decode_batch :: "string \<Rightarrow> batch_request scan"
  sr_wait :: "'s waiter"
  sr_wait_any :: "'s any_waiter"
  sr_random :: "8 word list"
  sr_now :: gtime
  sr_draws :: "nat \<Rightarrow> 8 word list \<times> gtime"
  sr_os :: os_env
  sr_generic :: "string \<Rightarrow> gmap option"
  sr_shim_yaml :: "string \<Rightarrow> exec_elem list option"
  sr_version :: string
  sr_limits :: bool

definition path_value :: "(string \<times> string) list \<Rightarrow> string \<Rightarrow> string" where
  "path_value caps n = (case map_of caps n of None \<Rightarrow> [] | Some v \<Rightarrow> v)"

fun dispatch ::
    "'s store_ops \<Rightarrow> 's server \<Rightarrow> 's surroundings \<Rightarrow> request \<Rightarrow> endpoint \<Rightarrow> (string \<times> string) list
     \<Rightarrow> 's queue \<Rightarrow> response option \<times> 's queue" where
  "dispatch ops sv x rq EStatus caps q =
     (Some (handle_status (sv_tools sv) (sr_version x) ((sv_posture sv)\<lparr>po_limits := sr_limits x\<rparr>) q), q)"
| "dispatch ops sv x rq EListTools caps q = (Some (handle_list_tools (sv_tools sv)), q)"
| "dispatch ops sv x rq EGetTool caps q =
     (Some (handle_get_tool (sv_tools sv) (sr_generic x) (path_value caps ''name'')), q)"
| "dispatch ops sv x rq ESubmit caps q =
     handle_submit ops (sv_tools sv) (sr_decode_submit x) (sr_wait x) (sr_random x) (sr_now x)
       (path_value caps ''name'') (rq_body rq) (rq_query rq ''wait'') q"
| "dispatch ops sv x rq EListInbox caps q =
     apfst Some (handle_list_inbox ops (rq_query rq ''limit'') q)"
| "dispatch ops sv x rq EWaitAny caps q =
     apfst Some (handle_wait_any (sr_wait_any x) (rq_query rq ''timeout'') q)"
| "dispatch ops sv x rq EGetJob caps q = apfst Some (handle_get_job ops (path_value caps ''id'') q)"
| "dispatch ops sv x rq EWaitJob caps q =
     apfst Some (handle_wait_job (sr_wait x) (path_value caps ''id'') (rq_query rq ''timeout'') q)"
| "dispatch ops sv x rq EAckJob caps q =
     apfst Some (handle_ack_job ops (sr_now x) (path_value caps ''id'') q)"
| "dispatch ops sv x rq ECancelJob caps q =
     apfst Some (handle_cancel_job ops (sr_now x) (path_value caps ''id'') q)"
| "dispatch ops sv x rq EGetOutFile caps q =
     apfst Some (handle_get_out_file ops (sv_tools sv) (sr_os x) (sv_data_dir sv) (path_value caps ''id'')
       (path_value caps ''file'') q)"
| "dispatch ops sv x rq ECreateBatch caps q =
     apfst Some (handle_create_batch ops (sv_tools sv) (sr_decode_batch x) (sr_random x) (sr_draws x)
       (rq_body rq) q)"
| "dispatch ops sv x rq EGetBatch caps q = apfst Some (handle_get_batch ops (path_value caps ''id'') q)"
| "dispatch ops sv x rq EQueueStats caps q = (Some (handle_queue_stats q), q)"
| "dispatch ops sv x rq EPreflight caps q =
     (Some (respond 200 (BPreflight (handle_preflight (sr_os x) (sr_shim_yaml x) (sv_tools sv)
        (po_sandbox (sv_posture sv))))), q)"

definition serve_mux ::
    "'s store_ops \<Rightarrow> 's server \<Rightarrow> 's surroundings \<Rightarrow> request \<Rightarrow> 's queue \<Rightarrow> response option \<times> 's queue" where
  "serve_mux ops sv x rq q =
     (case route (rq_method rq) (rq_segs rq) of
        Routed e caps \<Rightarrow> dispatch ops sv x rq e caps q
      | SlashRedirect \<Rightarrow>
          (Some ((respond 307 BRedirect)\<lparr>rs_location := Some (''/'' @ join_with ''/'' (rq_segs rq @ [[]]))\<rparr>), q)
      | NoMethod \<Rightarrow> (Some (failing 405 MNoMethod), q)
      | NoRoute \<Rightarrow> (Some (failing 404 MNoRoute), q))"

definition serve_request ::
    "'s store_ops \<Rightarrow> 's server \<Rightarrow> 's surroundings \<Rightarrow> request \<Rightarrow> 's queue \<Rightarrow> response option \<times> 's queue" where
  "serve_request ops sv x rq q = guarded (sv_settings sv) (serve_mux ops sv x rq) (rq_auth rq) q"

subsection \<open>The chosen pattern\<close>

text \<open>\<open>narrower p q\<close>: the patterns say that every path of \<open>p\<close> is one of \<open>q\<close>; \<open>apart p q\<close>: that they share none.\<close>

fun narrower :: "segment list \<Rightarrow> segment list \<Rightarrow> bool" where
  "narrower [] [] = True"
| "narrower (Lit a # ps) (Lit b # qs) = (a = b \<and> narrower ps qs)"
| "narrower (Lit a # ps) (Wild n # qs) = (a \<noteq> [] \<and> narrower ps qs)"
| "narrower (Wild m # ps) (Wild n # qs) = narrower ps qs"
| "narrower (p # ps) (Rest n # qs) = True"
| "narrower ps qs = False"

fun apart :: "segment list \<Rightarrow> segment list \<Rightarrow> bool" where
  "apart [] (q # qs) = True"
| "apart (p # ps) [] = True"
| "apart (Lit a # ps) (Lit b # qs) = (a \<noteq> b \<or> apart ps qs)"
| "apart (Lit a # ps) (Wild n # qs) = (a = [] \<or> apart ps qs)"
| "apart (Wild n # ps) (Lit a # qs) = (a = [] \<or> apart ps qs)"
| "apart (Wild m # ps) (Wild n # qs) = apart ps qs"
| "apart ps qs = False"

abbreviation takes :: "segment list \<Rightarrow> string list \<Rightarrow> bool" where
  "takes ps ss \<equiv> match_segs ps ss \<noteq> None"

lemma match_segs_Nil [simp]: "match_segs ps [] = (if ps = [] then Some [] else None)"
proof (cases ps)
  case (Cons p qs)
  then show ?thesis by (cases p) auto
qed simp

lemma takes_Cons:
  "takes ps (s # ss) \<longleftrightarrow>
     (\<exists>qs. ps = Lit s # qs \<and> takes qs ss) \<or> (\<exists>n qs. ps = Wild n # qs \<and> s \<noteq> [] \<and> takes qs ss)
   \<or> (\<exists>n qs. ps = Rest n # qs)"
proof (cases ps)
  case (Cons p qs)
  then show ?thesis by (cases p) auto
qed simp

lemma narrower_takes: "narrower ps qs \<Longrightarrow> takes ps ss \<Longrightarrow> takes qs ss"
  by (induction ps qs arbitrary: ss rule: narrower.induct; case_tac ss) (auto split: if_splits)

lemma apart_takes: "apart ps qs \<Longrightarrow> takes ps ss \<Longrightarrow> \<not> takes qs ss"
  by (induction ps qs arbitrary: ss rule: apart.induct; case_tac ss) (auto split: if_splits)

lemma in_map_filter: "y \<in> set (List.map_filter f xs) \<longleftrightarrow> (\<exists>x\<in>set xs. f x = Some y)"
  by (auto simp: List.map_filter_def) force

lemma first_some_in: "first_some xs = Some x \<Longrightarrow> x \<in> set xs"
  by (cases xs) (auto simp: first_some_def)

lemma first_some_None: "first_some xs = None \<longleftrightarrow> xs = []"
  by (cases xs) (auto simp: first_some_def)

lemma step_lit_Some: "step_lit s e = Some (ps, x) \<longleftrightarrow> e = (Lit s # ps, x)"
  by (cases "(s, e)" rule: step_lit.cases) (auto split: if_splits)

lemma step_wild_Some: "step_wild e = Some (ps, x) \<longleftrightarrow> (\<exists>n. e = (Wild n # ps, x))"
  by (cases e rule: step_wild.cases) auto

lemma step_rest_Some: "step_rest e = Some x \<longleftrightarrow> (\<exists>n ps. e = (Rest n # ps, x))"
  by (cases e rule: step_rest.cases) auto

lemma lit_entries: "(ps, x) \<in> set (List.map_filter (step_lit s) t) \<longleftrightarrow> (Lit s # ps, x) \<in> set t"
  by (auto simp: in_map_filter step_lit_Some)

lemma wild_entries: "(ps, x) \<in> set (List.map_filter step_wild t) \<longleftrightarrow> (\<exists>n. (Wild n # ps, x) \<in> set t)"
  by (auto simp: in_map_filter step_wild_Some)

lemma rest_entries: "x \<in> set (List.map_filter step_rest t) \<longleftrightarrow> (\<exists>n ps. (Rest n # ps, x) \<in> set t)"
  by (auto simp: in_map_filter step_rest_Some)

lemma takes_Cons_entries:
  "(\<forall>ps x. (ps, x) \<in> set t \<longrightarrow> \<not> takes ps (s # ss)) \<longleftrightarrow>
     (\<forall>qs x. (Lit s # qs, x) \<in> set t \<longrightarrow> \<not> takes qs ss)
   \<and> (s \<noteq> [] \<longrightarrow> (\<forall>n qs x. (Wild n # qs, x) \<in> set t \<longrightarrow> \<not> takes qs ss))
   \<and> (\<forall>n ps x. (Rest n # ps, x) \<notin> set t)" (is "?all \<longleftrightarrow> ?parts")
proof
  assume a: ?all
  show ?parts
  proof (intro conjI allI impI notI)
    fix qs x assume "(Lit s # qs, x) \<in> set t" "takes qs ss"
    with a[rule_format, of "Lit s # qs" x] show False by simp
  next
    fix n qs x assume "s \<noteq> []" "(Wild n # qs, x) \<in> set t" "takes qs ss"
    with a[rule_format, of "Wild n # qs" x] show False by simp
  next
    fix n ps x assume "(Rest n # ps, x) \<in> set t"
    with a[rule_format, of "Rest n # ps" x] show False by simp
  qed
next
  assume p: ?parts
  show ?all
  proof (intro allI impI notI)
    fix ps x assume i: "(ps, x) \<in> set t" and m: "takes ps (s # ss)"
    from m show False unfolding takes_Cons
    proof (elim disjE exE conjE)
      fix qs assume "ps = Lit s # qs" "takes qs ss"
      then show False using p i by blast
    next
      fix n qs assume "ps = Wild n # qs" "s \<noteq> []" "takes qs ss"
      then show False using p i by blast
    next
      fix n qs assume "ps = Rest n # qs"
      then show False using p i by blast
    qed
  qed
qed

lemma tree_find_None: "tree_find t ss = None \<longleftrightarrow> (\<forall>ps x. (ps, x) \<in> set t \<longrightarrow> \<not> takes ps ss)"
proof (induction t ss rule: tree_find.induct)
  case (1 t)
  have "(\<forall>e\<in>set t. (case e of (ps, x) \<Rightarrow> if ps = [] then Some x else None) = None)
      \<longleftrightarrow> (\<forall>x. ([], x) \<notin> set t)" by (auto split: if_splits)
  then show ?case by (simp add: first_some_None map_filter_Nil)
next
  case (2 t s ss)
  have r: "first_some (List.map_filter step_rest t) = None \<longleftrightarrow> (\<forall>n ps x. (Rest n # ps, x) \<notin> set t)"
    using rest_entries[of _ t] unfolding first_some_None set_empty[symmetric] set_eq_iff empty_iff by blast
  have "tree_find t (s # ss) = None \<longleftrightarrow>
      tree_find (List.map_filter (step_lit s) t) ss = None
    \<and> (s \<noteq> [] \<longrightarrow> tree_find (List.map_filter step_wild t) ss = None)
    \<and> first_some (List.map_filter step_rest t) = None"
    by (auto simp: or_else_def split: option.splits)
  also have "\<dots> \<longleftrightarrow> (\<forall>qs x. (Lit s # qs, x) \<in> set t \<longrightarrow> \<not> takes qs ss)
      \<and> (s \<noteq> [] \<longrightarrow> (\<forall>n qs x. (Wild n # qs, x) \<in> set t \<longrightarrow> \<not> takes qs ss))
      \<and> (\<forall>n ps x. (Rest n # ps, x) \<notin> set t)"
  proof (cases "s = []")
    case True
    then show ?thesis using 2(1) unfolding r lit_entries by simp
  next
    case False
    then have "tree_find (List.map_filter step_wild t) ss = None
        \<longleftrightarrow> (\<forall>n qs x. (Wild n # qs, x) \<in> set t \<longrightarrow> \<not> takes qs ss)"
      using 2(2) unfolding wild_entries by blast
    with False show ?thesis using 2(1) unfolding r lit_entries by simp
  qed
  also have "\<dots> \<longleftrightarrow> (\<forall>ps x. (ps, x) \<in> set t \<longrightarrow> \<not> takes ps (s # ss))"
    by (rule takes_Cons_entries[symmetric])
  finally show ?case .
qed

text \<open>What is found takes the path, and nothing else that takes it is narrower.\<close>

lemma tree_find_Some:
  assumes "tree_find t ss = Some x"
  shows "\<exists>ps. (ps, x) \<in> set t \<and> takes ps ss
    \<and> (\<forall>qs y. (qs, y) \<in> set t \<longrightarrow> takes qs ss \<longrightarrow> narrower qs ps \<longrightarrow> narrower ps qs)"
  using assms
proof (induction t ss rule: tree_find.induct)
  case (1 t)
  from first_some_in[OF 1[unfolded tree_find.simps]] have "([], x) \<in> set t"
    by (auto simp: in_map_filter split: if_splits)
  then show ?case by (intro exI[of _ "[]"]) simp
next
  case (2 t s ss)
  let ?l = "List.map_filter (step_lit s) t" and ?w = "List.map_filter step_wild t"
  consider (lit) "tree_find ?l ss = Some x"
    | (wild) "tree_find ?l ss = None" "s \<noteq> []" "tree_find ?w ss = Some x"
    | (rest) "tree_find ?l ss = None" "s \<noteq> [] \<longrightarrow> tree_find ?w ss = None"
        "first_some (List.map_filter step_rest t) = Some x"
    using "2.prems" by (auto simp: or_else_def split: option.splits if_splits)
  then show ?case
  proof cases
    case lit
    from "2.IH"(1)[OF lit] obtain ps where ps: "(Lit s # ps, x) \<in> set t" "takes ps ss"
        "\<And>qs y. (Lit s # qs, y) \<in> set t \<Longrightarrow> takes qs ss \<Longrightarrow> narrower qs ps \<Longrightarrow> narrower ps qs"
      unfolding lit_entries by blast
    have "narrower (Lit s # ps) qs"
      if e: "(qs, y) \<in> set t" "takes qs (s # ss)" "narrower qs (Lit s # ps)" for qs y
      using e ps(3) unfolding takes_Cons by auto
    moreover have "takes (Lit s # ps) (s # ss)" using ps(2) by simp
    ultimately show ?thesis using ps(1) by blast
  next
    case wild
    from "2.IH"(2)[OF wild(2,3)] obtain n ps where ps: "(Wild n # ps, x) \<in> set t" "takes ps ss"
        "\<And>m qs y. (Wild m # qs, y) \<in> set t \<Longrightarrow> takes qs ss \<Longrightarrow> narrower qs ps \<Longrightarrow> narrower ps qs"
      unfolding wild_entries by blast
    have "narrower (Wild n # ps) qs"
      if e: "(qs, y) \<in> set t" "takes qs (s # ss)" "narrower qs (Wild n # ps)" for qs y
      using e ps(3) wild(1) unfolding takes_Cons tree_find_None lit_entries by auto
    moreover have "takes (Wild n # ps) (s # ss)" using ps(2) wild(2) by simp
    ultimately show ?thesis using ps(1) by blast
  next
    case rest
    from first_some_in[OF rest(3)] obtain n ps where n: "(Rest n # ps, x) \<in> set t"
      unfolding rest_entries by blast
    have "narrower (Rest n # ps) qs" if e: "(qs, y) \<in> set t" "takes qs (s # ss)" for qs y
    proof -
      have "\<exists>m qs'. qs = Rest m # qs'"
        using e rest(1,2) unfolding takes_Cons tree_find_None lit_entries wild_entries by blast
      then show ?thesis by auto
    qed
    then show ?thesis using n by (intro exI[of _ "Rest n # ps"]) simp
  qed
qed

subsection \<open>Properties\<close>

text \<open>
  What registration insists on, a panic otherwise: two patterns of a method share no path or
  one is narrower; and no two are the same.
\<close>

lemma routes_compatible:
  assumes "(m, ps, e) \<in> set routes" "(m, qs, e') \<in> set routes"
  shows "narrower ps qs \<or> narrower qs ps \<or> apart ps qs"
    and "narrower ps qs \<and> narrower qs ps \<longrightarrow> ps = qs \<and> e = e'"
proof -
  have "list_all (\<lambda>(m, ps, e). list_all (\<lambda>(m', qs, e'). m = m' \<longrightarrow>
      (narrower ps qs \<or> narrower qs ps \<or> apart ps qs)
    \<and> (narrower ps qs \<and> narrower qs ps \<longrightarrow> ps = qs \<and> e = e')) routes) routes"
    by code_simp
  with assms show "narrower ps qs \<or> narrower qs ps \<or> apart ps qs"
    and "narrower ps qs \<and> narrower qs ps \<longrightarrow> ps = qs \<and> e = e'"
    unfolding list_all_iff by fast+
qed

lemma patterns_of_iff: "(ps, x) \<in> set (patterns_of m) \<longleftrightarrow> (\<exists>e. x = (ps, e) \<and> (m, ps, e) \<in> set routes)"
  by (force simp: patterns_of_def)

text \<open>
  The route of a request is the most specific one that takes it. What the search through the
  tree finds, for a method and a path, is the one pattern of the method that takes the path and is
  narrower than every other that does; in particular no two registered patterns conflict, and the
  order of the registrations does not matter.
\<close>

theorem route_most_specific:
  "lookup_method m ss = Some (ps, e) \<longleftrightarrow>
     (m, ps, e) \<in> set routes \<and> match_segs ps ss \<noteq> None
   \<and> (\<forall>qs e'. (m, qs, e') \<in> set routes \<and> match_segs qs ss \<noteq> None \<longrightarrow> narrower ps qs)"
proof -
  have found: "(m, ps, e) \<in> set routes \<and> takes ps ss
      \<and> (\<forall>qs e'. (m, qs, e') \<in> set routes \<and> takes qs ss \<longrightarrow> narrower ps qs)"
    if l: "lookup_method m ss = Some (ps, e)" for ps e
  proof -
    from tree_find_Some[OF l[unfolded lookup_method_def]]
    have p: "(m, ps, e) \<in> set routes" "takes ps ss"
      "\<And>qs e'. (m, qs, e') \<in> set routes \<Longrightarrow> takes qs ss \<Longrightarrow> narrower qs ps \<Longrightarrow> narrower ps qs"
      unfolding patterns_of_iff by blast+
    moreover have "narrower ps qs" if "(m, qs, e') \<in> set routes" "takes qs ss" for qs e'
      using routes_compatible(1)[OF p(1) that(1)] p(2,3) that apart_takes by blast
    ultimately show ?thesis by blast
  qed
  show ?thesis
  proof
    assume "lookup_method m ss = Some (ps, e)"
    from found[OF this] show "(m, ps, e) \<in> set routes \<and> takes ps ss
      \<and> (\<forall>qs e'. (m, qs, e') \<in> set routes \<and> takes qs ss \<longrightarrow> narrower ps qs)" .
  next
    assume r: "(m, ps, e) \<in> set routes \<and> takes ps ss
      \<and> (\<forall>qs e'. (m, qs, e') \<in> set routes \<and> takes qs ss \<longrightarrow> narrower ps qs)"
    then obtain ps' e' where l: "lookup_method m ss = Some (ps', e')"
      unfolding lookup_method_def using tree_find_None[of "patterns_of m" ss] patterns_of_iff
      by (metis not_None_eq surj_pair)
    from found[OF l] r have "narrower ps ps'" "narrower ps' ps" "(m, ps', e') \<in> set routes" by blast+
    with routes_compatible(2)[of m ps e ps' e'] r l show "lookup_method m ss = Some (ps, e)" by blast
  qed
qed

lemma route_most_specific_witness:
  "lookup_method ''GET'' [''jobs'', ''wait-any''] = Some ([Lit ''jobs'', Lit ''wait-any''], EWaitAny)
   \<and> narrower [Lit ''jobs'', Lit ''wait-any''] [Lit ''jobs'', Wild ''id'']"
proof -
  let ?p = "[Lit ''jobs'', Lit ''wait-any'']" and ?s = "[''jobs'', ''wait-any'']"
  have l: "lookup_method ''GET'' ?s = Some (?p, EWaitAny)" by code_simp
  have "(''GET'', [Lit ''jobs'', Wild ''id''], EGetJob) \<in> set routes" by code_simp
  moreover have "match_segs [Lit ''jobs'', Wild ''id''] ?s \<noteq> None" by code_simp
  ultimately show ?thesis
    using route_most_specific[of "''GET''" ?s ?p EWaitAny] l by blast
qed

lemma routes_simps:
  "lookup_method ''GET'' ss = tree_find (patterns_of ''GET'') ss"
  "lookup_method ''POST'' ss = tree_find (patterns_of ''POST'') ss"
  "lookup_method ''DELETE'' ss = tree_find (patterns_of ''DELETE'') ss"
  by (simp_all add: lookup_method_def)

lemma lookup_job:
  assumes "i \<noteq> []" "i \<noteq> ''wait-any''"
  shows "lookup_method ''GET'' [''jobs'', i] = Some ([Lit ''jobs'', Wild ''id''], EGetJob)"
    and "lookup_method ''GET'' [''jobs'', i, ''wait''] = Some ([Lit ''jobs'', Wild ''id'', Lit ''wait''], EWaitJob)"
    and "lookup_method ''POST'' [''jobs'', i, ''ack''] = Some ([Lit ''jobs'', Wild ''id'', Lit ''ack''], EAckJob)"
    and "lookup_method ''DELETE'' [''jobs'', i] = Some ([Lit ''jobs'', Wild ''id''], ECancelJob)"
  using assms
  by (simp_all add: lookup_method_def patterns_of_def routes_def map_filter_simps or_else_def first_some_def)

lemma exact_lookup:
  assumes "lookup_method m ss = Some (ps, e)" "\<And>n. last ps \<noteq> Rest n" "match_segs ps ss = Some caps"
  shows "route m ss = Routed e caps"
proof -
  have r: "lookup_route m ss = Some (ps, e)" by (simp add: lookup_route_def or_else_def assms(1))
  have "exact_match ps ss" using assms(2) by (auto simp: exact_match_def split: segment.split)
  with r have "matches_exactly m ss" by (simp add: matches_exactly_def)
  with r assms(3) show ?thesis by (simp add: route_def)
qed

lemma job_id_not_literal: "new_job_id random \<noteq> []" "new_job_id random \<noteq> ''wait-any''"
  by (simp_all add: new_job_id_def new_id_def)

text \<open>
  C23: The URLs of a job reach the handlers of that job. For every id the desk draws, the address it
  answers a submission with, taken apart at its slashes, is routed to the lookup of exactly that
  id, and the addresses below it to the wait, the acknowledgment and, by its method, the
  cancellation; no id is mistaken for the inbox poll.
\<close>

theorem job_urls_reach_job:
  "map (\<lambda>m. route m (tl (split_on (CHR ''/'') (''/jobs/'' @ new_job_id random)))) [''GET'', ''DELETE'']
     = [Routed EGetJob [(''id'', new_job_id random)], Routed ECancelJob [(''id'', new_job_id random)]]
   \<and> route ''GET'' (tl (split_on (CHR ''/'') (''/jobs/'' @ new_job_id random @ ''/wait'')))
     = Routed EWaitJob [(''id'', new_job_id random)]
   \<and> route ''POST'' (tl (split_on (CHR ''/'') (''/jobs/'' @ new_job_id random @ ''/ack'')))
     = Routed EAckJob [(''id'', new_job_id random)]"
proof -
  let ?i = "new_job_id random"
  have plain: "CHR ''/'' \<notin> set ?i" using job_ids_distinct_and_plain[of random random] by (simp add: plain_comp_def)
  have u: "tl (split_on (CHR ''/'') (''/'' @ join_with ''/'' ws)) = ws"
    if "ws \<noteq> []" "\<forall>w\<in>set ws. CHR ''/'' \<notin> set w" for ws
    using split_join_on[of "[] # ws" "CHR ''/''"] that by (simp add: join_with_Cons)
  have u1: "tl (split_on (CHR ''/'') (''/jobs/'' @ ?i)) = [''jobs'', ?i]"
    using u[of "[''jobs'', ?i]"] plain by simp
  have u2: "tl (split_on (CHR ''/'') (''/jobs/'' @ ?i @ ''/wait'')) = [''jobs'', ?i, ''wait'']"
    using u[of "[''jobs'', ?i, ''wait'']"] plain by simp
  have u3: "tl (split_on (CHR ''/'') (''/jobs/'' @ ?i @ ''/ack'')) = [''jobs'', ?i, ''ack'']"
    using u[of "[''jobs'', ?i, ''ack'']"] plain by simp
  note l = lookup_job[OF job_id_not_literal[of random]]
  have "route ''GET'' [''jobs'', ?i] = Routed EGetJob [(''id'', ?i)]"
    "route ''DELETE'' [''jobs'', ?i] = Routed ECancelJob [(''id'', ?i)]"
    "route ''GET'' [''jobs'', ?i, ''wait''] = Routed EWaitJob [(''id'', ?i)]"
    "route ''POST'' [''jobs'', ?i, ''ack''] = Routed EAckJob [(''id'', ?i)]"
    by (rule exact_lookup[OF l(1)] exact_lookup[OF l(4)] exact_lookup[OF l(2)] exact_lookup[OF l(3)];
        simp add: job_id_not_literal)+
  with u1 u2 u3 show ?thesis by simp
qed

text \<open>The first segments that the table knows.\<close>

definition known_roots :: "string list" where
  "known_roots = [''tools'', ''jobs'', ''batches'', ''queue'', ''preflight'']"

lemma unknown_lookup:
  assumes "s \<notin> set known_roots"
  shows "lookup_method ''GET'' (s # ss) = Some ([Rest []], EStatus)"
proof -
  have e: "tree_find [] ss = None" for ss :: "string list" by (simp add: tree_find_None)
  have l: "List.map_filter (step_lit s) (patterns_of ''GET'') = []"
    using assms by (simp add: patterns_of_def routes_def map_filter_simps known_roots_def) fast
  have w: "List.map_filter step_wild (patterns_of ''GET'') = []"
    and r: "List.map_filter step_rest (patterns_of ''GET'') = [([Rest []], EStatus)]" by code_simp+
  show ?thesis by (simp add: lookup_method_def l w r e or_else_def first_some_def)
qed

text \<open>
  A mistyped path is answered with the status page. Since the pattern of the status page ends in
  a slash, it takes every path that nothing else takes: a \<^verbatim>\<open>GET\<close> for a path outside the table is
  not refused, it gets code 200 and the status of the desk.
\<close>

theorem unknown_path_answers_status:
  assumes "rq_method rq = ''GET''" "rq_segs rq = s # ss" "s \<notin> set known_roots"
  shows "serve_mux ops sv x rq q
    = (Some (handle_status (sv_tools sv) (sr_version x) ((sv_posture sv)\<lparr>po_limits := sr_limits x\<rparr>) q), q)"
proof -
  have r: "lookup_route ''GET'' (s # ts) = Some ([Rest []], EStatus)" for ts
    by (simp add: lookup_route_def or_else_def unknown_lookup[OF assms(3)])
  have "\<not> matches_exactly ''GET'' ((s # ss) @ [[]])"
    by (simp add: matches_exactly_def r exact_match_def)
  then have "route ''GET'' (s # ss) = Routed EStatus []" by (simp add: route_def r)
  with assms(1,2) show ?thesis by (simp add: serve_mux_def)
qed

lemma unknown_path_answers_status_witness:
  "\<forall>(sv :: sqlite_db server) x q. \<exists>r. serve_mux sqlite_ops sv x
     \<lparr>rq_method = ''GET'', rq_segs = [''job'', ''job-00''], rq_auth = [], rq_query = (\<lambda>k. []), rq_body = []\<rparr> q
     = (Some r, q) \<and> rs_code r = 200"
proof (intro allI)
  fix sv :: "sqlite_db server" and x q
  let ?rq = "\<lparr>rq_method = ''GET'', rq_segs = [''job'', ''job-00''], rq_auth = [], rq_query = (\<lambda>k. []), rq_body = []\<rparr>"
  show "\<exists>r. serve_mux sqlite_ops sv x ?rq q = (Some r, q) \<and> rs_code r = 200"
    using unknown_path_answers_status[of ?rq "''job''" "[''job-00'']" sqlite_ops sv x q]
    by (simp add: known_roots_def handle_status_def)
qed

end
