(* ===== verification/Responses.thy ===== *)
theory Responses
  imports Routes
begin

text \<open>
  What goes over the wire: the document of every response, with the names of the struct tags and of
  the map literals of \<^verbatim>\<open>cmd/agent-desk/main.go\<close> and \<^verbatim>\<open>queue.go\<close>, the texts of the errors, and
  \<^verbatim>\<open>writeJSON\<close>. A document is a value before it is encoded; \<open>json_value\<close> is what the encoder makes of
  it and a client reads, or \<open>None\<close> when the encoder refuses it. The order of the fields is not
  significant. Texts that the library or the schema gate words are arguments.
\<close>

subsection \<open>Texts\<close>

record wording =
  wd_violation :: "violation \<Rightarrow> string"
  wd_duration :: "string \<Rightarrow> string"
  wd_body :: string
  wd_store :: "store_error \<Rightarrow> string"
  wd_contract :: string

fun status_text :: "job_status \<Rightarrow> string" where
  "status_text Queued = ''queued''"
| "status_text Running = ''running''"
| "status_text Done = ''done''"
| "status_text Failed = ''failed''"
| "status_text Canceled = ''canceled''"

definition status_of_text :: "string \<Rightarrow> job_status option" where
  "status_of_text s = find (\<lambda>st. status_text st = s) [Queued, Running, Done, Failed, Canceled]"

fun dep_status_text :: "dep_status \<Rightarrow> string" where
  "dep_status_text DepOk = ''ok''"
| "dep_status_text DepMissing = ''missing''"
| "dep_status_text DepOutside = ''outside_sandbox''"
| "dep_status_text DepUnknown = ''unknown''"

fun queue_error_text :: "wording \<Rightarrow> queue_error \<Rightarrow> string" where
  "queue_error_text wd QueueFull = ''queue is full, too many jobs waiting for a worker''"
| "queue_error_text wd QueueStopped = ''queue stopped''"
| "queue_error_text wd (PersistJob e) = ''persist job: '' @ wd_store wd e"
| "queue_error_text wd (StoreFailed e) = wd_store wd e"
| "queue_error_text wd ResumeStopped = ''queue stopped during resume: queue stopped''"
| "queue_error_text wd JobNotFound = ''job not found''"
| "queue_error_text wd JobNotTerminal = ''job has not reached a terminal state yet, nothing to ack''"

fun error_message_text :: "wording \<Rightarrow> error_message \<Rightarrow> string" where
  "error_message_text wd (MToolNotFound n) = ''tool not found: '' @ n"
| "error_message_text wd MNoSuchTool = ''tool not found''"
| "error_message_text wd MBadBody = ''invalid JSON body: '' @ wd_body wd"
| "error_message_text wd MBodyTooLarge =
     ''request body is larger than the '' @ nat_str max_request_body @ ''-byte limit''"
| "error_message_text wd MTrailingContent = ''request body has trailing content after the JSON document''"
| "error_message_text wd MContractViolation = ''contract violation: input does not conform to the tool contract''"
| "error_message_text wd (MBadWait raw) = ''invalid wait duration '' @ go_quote raw @ '': '' @ wd_duration wd raw"
| "error_message_text wd MNegativeWait = ''wait must not be negative''"
| "error_message_text wd (MQueue e) = queue_error_text wd e"
| "error_message_text wd MStoreUnavailable = ''job store temporarily unavailable''"
| "error_message_text wd MJobNotFound = ''job not found''"
| "error_message_text wd (MBadTimeout raw) = ''invalid timeout duration '' @ go_quote raw @ '': '' @ wd_duration wd raw"
| "error_message_text wd MNegativeTimeout = ''timeout must not be negative''"
| "error_message_text wd MBadLimit = ''limit must be a positive integer''"
| "error_message_text wd MNotTerminal = queue_error_text wd JobNotTerminal"
| "error_message_text wd MNoItems = ''items must be a non-empty array''"
| "error_message_text wd (MTooManyItems n) =
     ''batch has '' @ nat_str n @ '' items, over the '' @ nat_str max_batch_items @ ''-item limit; split it''"
| "error_message_text wd MBatchNotFound = ''batch not found''"
| "error_message_text wd MInvalidPath = ''invalid path''"
| "error_message_text wd MNotDeclaredOut = ''not a declared output file for this tool''"
| "error_message_text wd MNotYetWritten = ''output file not yet written''"
| "error_message_text wd MNotRegular = ''refusing to serve a non-regular file''"
| "error_message_text wd MContractUndecodable = ''contract failed to decode: '' @ wd_contract wd"
| "error_message_text wd MUnauthorized = ''missing or invalid bearer token''"
| "error_message_text wd MNoRoute = ''404 page not found''"
| "error_message_text wd MNoMethod = ''Method Not Allowed''"

fun warning_text :: "warning \<Rightarrow> string" where
  "warning_text WNoSandbox =
     ''bubblewrap not found: tools run unsandboxed, and network:false is advisory only rather than enforced by the kernel''"
| "warning_text WNoSeccomp =
     ''seccomp filter not applied: a tool can make any syscall its uid is allowed to (ptrace, kernel modules, mount, reboot) ''
     @ em_dash @ '' namespaces still limit what it can reach, not what it can ask for''"
| "warning_text WNoLimits =
     ''systemd-run --user --scope not usable: per-job memory and task-count limits are not enforced''"
| "warning_text (WAuthOffRoutable a) =
     ''auth disabled on a routable address ('' @ a @ ''): anything that can route to this box can submit jobs''"
| "warning_text (WAuthOffLocal u) =
     ''auth disabled: any local process, as any user on this box, can submit jobs that then run as '' @ u
     @ '' '' @ em_dash @ '' loopback stops the network, not other accounts''"
| "warning_text WRoot =
     ''running as root: tools run as uid 0 inside their sandbox, which is the one thing that makes the sandbox worth much less than it looks''"

subsection \<open>Documents\<close>

text \<open>A field tagged \<^verbatim>\<open>omitempty\<close> is left out when it is empty.\<close>

definition opt_field :: "bool \<Rightarrow> string \<Rightarrow> gval \<Rightarrow> (string \<times> gval) list" where
  "opt_field present k v = (if present then [(k, v)] else [])"

definition time_value :: "gtime \<Rightarrow> gval" where
  "time_value t = GStr (fmt_time t)"

definition opt_time :: "string \<Rightarrow> gtime option \<Rightarrow> (string \<times> gval) list" where
  "opt_time k t = (case t of None \<Rightarrow> [] | Some x \<Rightarrow> [(k, time_value x)])"

definition nat_value :: "nat \<Rightarrow> gval" where
  "nat_value n = GInt (int n)"

definition strings_value :: "string list \<Rightarrow> gval" where
  "strings_value ss = GArr (map GStr ss)"

text \<open>A nil slice is null, an empty one is not.\<close>

definition slice_value :: "gval list \<Rightarrow> gval" where
  "slice_value vs = (if vs = [] then GNull else GArr vs)"

definition job_fields :: "job \<Rightarrow> schema" where
  "job_fields j =
     [(''id'', GStr (jb_id j)), (''tool'', GStr (jb_tool j))]
     @ opt_field (jb_key j \<noteq> []) ''idempotency_key'' (GStr (jb_key j))
     @ opt_field (jb_batch j \<noteq> []) ''batch_id'' (GStr (jb_batch j))
     @ [(''input'', map_value (jb_input j))]
     @ opt_field (jb_meta j \<noteq> None \<and> jb_meta j \<noteq> Some []) ''meta'' (map_value (jb_meta j))
     @ [(''status'', GStr (status_text (jb_status j))), (''attempt'', GInt (jb_attempt j)),
        (''max_retries'', GInt (jb_max_retries j))]
     @ opt_field (jb_result j \<noteq> GNull) ''result'' (jb_result j)
     @ opt_field (jb_error j \<noteq> []) ''error'' (GStr (jb_error j))
     @ [(''created'', time_value (jb_created j))]
     @ opt_time ''started'' (jb_started j) @ opt_time ''finished'' (jb_finished j)
     @ [(''acked'', GBool (jb_acked j))] @ opt_time ''acked_at'' (jb_acked_at j)"

definition job_value :: "job \<Rightarrow> gval" where
  "job_value j = GObj (job_fields j)"

definition effects_value :: "side_effects \<Rightarrow> gval" where
  "effects_value e =
     GObj [(''files'', case se_files e of None \<Rightarrow> GNull | Some fs \<Rightarrow> strings_value fs),
           (''network'', GBool (se_network e))]"

definition listing_value :: "tool_listing \<Rightarrow> gval" where
  "listing_value t =
     GObj [(''name'', GStr (tg_name t)), (''summary'', GStr (tg_summary t)), (''execution_mode'', GStr (tg_mode t)),
           (''max_retries'', GInt (tg_max_retries t)), (''timeout_ms'', GInt (tg_timeout_ms t)),
           (''allowed_side_effects'', effects_value (tg_effects t))]"

definition stats_fields :: "stats \<Rightarrow> schema" where
  "stats_fields s =
     [(''workers'', nat_value (sts_workers s)), (''queued'', nat_value (sts_queued s)),
      (''running'', nat_value (sts_running s)), (''done'', nat_value (sts_done s)),
      (''failed'', nat_value (sts_failed s)),
      (''recent'', GArr (map (\<lambda>x. GObj [(''id'', GStr (st_id x)), (''tool'', GStr (st_tool x)),
         (''status'', GStr (status_text (st_status x))), (''attempt'', GInt (st_attempt x)),
         (''error'', GStr (st_error x)), (''created'', time_value (st_created x))]) (sts_recent s)))]"

definition enforcement_value :: "enforcement_report \<Rightarrow> gval" where
  "enforcement_value e =
     GObj [(''strict'', GBool (er_strict e)), (''sandbox'', GBool (er_sandbox e)), (''seccomp'', GBool (er_seccomp e)),
           (''resource_limits'', GBool (er_limits e)), (''auth'', GBool (er_auth e)), (''listen'', GStr (er_listen e)),
           (''user_scoped'', GBool (er_user_scoped e)), (''user'', GStr (er_user e)), (''root'', GBool (er_root e)),
           (''degraded'', GBool (er_degraded e)), (''warnings'', strings_value (map warning_text (er_warnings e)))]"

definition dependency_value :: "dependency \<Rightarrow> gval" where
  "dependency_value d =
     GObj ([(''tool'', GStr (dp_tool d)), (''kind'', GStr (dp_kind d)), (''name'', GStr (dp_name d))]
       @ opt_field (dp_path d \<noteq> []) ''path'' (GStr (dp_path d))
       @ [(''status'', GStr (dep_status_text (dp_status d)))]
       @ opt_field (dp_detail d \<noteq> []) ''detail'' (GStr (dp_detail d)))"

definition preflight_value :: "preflight_report \<Rightarrow> gval" where
  "preflight_value r =
     GObj [(''sandboxed'', GBool (pf_sandboxed r)), (''path'', GStr (pf_path r)),
           (''dependencies'', slice_value (map dependency_value (pf_deps r))),
           (''problems'', nat_value (pf_problems r)), (''unusable'', nat_value (pf_unusable r)),
           (''ok'', GBool (pf_ok r))]"

definition batch_value :: "batch_progress \<Rightarrow> gval" where
  "batch_value p =
     GObj [(''batch_id'', GStr (bp_id p)), (''total'', nat_value (bp_total p)), (''queued'', nat_value (bp_queued p)),
           (''running'', nat_value (bp_running p)), (''done'', nat_value (bp_done p)),
           (''failed'', nat_value (bp_failed p)), (''canceled'', nat_value (bp_canceled p)),
           (''jobs'', slice_value (map job_value (bp_jobs p)))]"

definition error_field :: "string \<Rightarrow> string \<times> gval" where
  "error_field msg = (''error'', GStr msg)"

text \<open>
  The document of a body; \<open>None\<close> for a file and for what the route table answers itself, which the
  library writes.
\<close>

fun body_value :: "wording \<Rightarrow> body \<Rightarrow> gval option" where
  "body_value wd (BError m) =
     (if m = MNoRoute \<or> m = MNoMethod then None else Some (GObj [error_field (error_message_text wd m)]))"
| "body_value wd (BViolations vs) =
     Some (GObj [error_field (error_message_text wd MContractViolation),
                 (''violations'', strings_value (map (wd_violation wd) vs))])"
| "body_value wd (BItemViolations ivs) =
     Some (GObj [error_field ''contract violation: one or more items do not conform to the tool contract'',
                 (''violations'', GObj (map (\<lambda>(i, vs). (nat_str i, strings_value (map (wd_violation wd) vs))) ivs))])"
| "body_value wd (BJob j) = Some (job_value j)"
| "body_value wd (BConflict j) =
     Some (GObj [error_field (''job already '' @ status_text (jb_status j) @ '', nothing to cancel''),
                 (''job'', job_value j)])"
| "body_value wd (BJobs js) = Some (GObj [(''jobs'', GArr (map job_value js))])"
| "body_value wd (BInbox js) = Some (GObj [(''jobs'', slice_value (map job_value js))])"
| "body_value wd (BBatchAccepted bid t ids) =
     Some (GObj [(''batch_id'', GStr bid), (''tool'', GStr t), (''job_ids'', strings_value ids)])"
| "body_value wd (BBatchPartial e bid ids n) =
     Some (GObj [error_field (queue_error_text wd e), (''batch_id'', GStr bid), (''job_ids'', strings_value ids),
                 (''items_pending'', nat_value n)])"
| "body_value wd (BBatch p) = Some (batch_value p)"
| "body_value wd (BStats s) = Some (GObj (stats_fields s))"
| "body_value wd (BStatus s v n e) =
     Some (GObj (stats_fields s @ [(''service'', GStr ''deskbox-agent-desk''), (''version'', GStr v),
                                    (''tools'', nat_value n), (''enforcement'', enforcement_value e)]))"
| "body_value wd (BTools ts) = Some (GArr (map listing_value ts))"
| "body_value wd (BContract m) = Some (map_value m)"
| "body_value wd (BFile p) = None"
| "body_value wd (BPreflight r) = Some (preflight_value r)"
| "body_value wd BRedirect = None"

subsection \<open>Writing a response\<close>

text \<open>
  \<^verbatim>\<open>writeJSON\<close> sets the type and the code and then encodes; what the encoder refuses is not reported, the
  answer is then empty. \<open>FileOf\<close> and \<open>LibraryText\<close> are written by \<^verbatim>\<open>net/http\<close>.
\<close>

datatype content = Encoded "gval option" | FileOf string | LibraryText

record answer =
  an_code :: nat
  an_headers :: "(string \<times> string) list"
  an_content :: content

definition write_json :: "(string \<times> string) list \<Rightarrow> nat \<Rightarrow> gval \<Rightarrow> answer" where
  "write_json headers code v =
     \<lparr>an_code = code, an_headers = headers @ [(''Content-Type'', ''application/json'')],
      an_content = Encoded (json_value v)\<rparr>"

definition response_headers :: "response \<Rightarrow> (string \<times> string) list" where
  "response_headers r =
     (case rs_location r of None \<Rightarrow> [] | Some l \<Rightarrow> [(''Location'', l)])
     @ (if rs_retry_after r then [(''Retry-After'', ''5'')] else [])"

definition write_response :: "wording \<Rightarrow> response \<Rightarrow> answer" where
  "write_response wd r =
     (case body_value wd (rs_body r) of
        Some v \<Rightarrow> write_json (response_headers r) (rs_code r) v
      | None \<Rightarrow> \<lparr>an_code = rs_code r, an_headers = response_headers r,
                 an_content = (case rs_body r of BFile p \<Rightarrow> FileOf p | _ \<Rightarrow> LibraryText)\<rparr>)"

subsection \<open>Reading a job\<close>

text \<open>A client that decodes the document of a job into the fields of the same tags.\<close>

definition with_field :: "(gval \<Rightarrow> 'a option) \<Rightarrow> schema \<Rightarrow> string \<Rightarrow> ('a \<Rightarrow> 'b option) \<Rightarrow> 'b option" where
  "with_field rd kvs k f = (case rd (get_key kvs k) of None \<Rightarrow> None | Some x \<Rightarrow> f x)"

fun read_str :: "gval \<Rightarrow> string option" where
  "read_str GNull = Some []"
| "read_str (GStr s) = Some s"
| "read_str _ = None"

fun read_int :: "gval \<Rightarrow> int option" where
  "read_int (GFloat f) = (if f_integral f then Some (f_to_int f) else None)"
| "read_int _ = None"

fun read_bool :: "gval \<Rightarrow> bool option" where
  "read_bool (GBool b) = Some b"
| "read_bool _ = None"

fun read_status :: "gval \<Rightarrow> job_status option" where
  "read_status (GStr s) = status_of_text s"
| "read_status _ = None"

fun read_time :: "gval \<Rightarrow> gtime option" where
  "read_time (GStr s) = parse_time s"
| "read_time _ = None"

fun read_opt_time :: "gval \<Rightarrow> gtime option option" where
  "read_opt_time GNull = Some None"
| "read_opt_time v = map_option Some (read_time v)"

fun read_job :: "gval \<Rightarrow> job option" where
  "read_job (GObj kvs) =
     with_field read_str kvs ''id'' (\<lambda>i.
     with_field read_str kvs ''tool'' (\<lambda>tool.
     with_field read_str kvs ''idempotency_key'' (\<lambda>key.
     with_field read_str kvs ''batch_id'' (\<lambda>batch.
     with_field value_map kvs ''input'' (\<lambda>input.
     with_field value_map kvs ''meta'' (\<lambda>meta.
     with_field read_status kvs ''status'' (\<lambda>status.
     with_field read_int kvs ''attempt'' (\<lambda>attempt.
     with_field read_int kvs ''max_retries'' (\<lambda>retries.
     with_field Some kvs ''result'' (\<lambda>result.
     with_field read_str kvs ''error'' (\<lambda>err.
     with_field read_time kvs ''created'' (\<lambda>created.
     with_field read_opt_time kvs ''started'' (\<lambda>started.
     with_field read_opt_time kvs ''finished'' (\<lambda>finished.
     with_field read_bool kvs ''acked'' (\<lambda>acked.
     with_field read_opt_time kvs ''acked_at'' (\<lambda>acked_at.
       Some \<lparr>jb_id = i, jb_tool = tool, jb_key = key, jb_batch = batch, jb_input = input, jb_meta = meta,
         jb_status = status, jb_attempt = attempt, jb_max_retries = retries, jb_result = result,
         jb_error = err, jb_created = created, jb_started = started, jb_finished = finished,
         jb_acked = acked, jb_acked_at = acked_at\<rparr>))))))))))))))))"
| "read_job _ = None"

lemma json_fields_map_of:
  "json_fields kvs = Some ws \<Longrightarrow> map_of ws k = (case map_of kvs k of None \<Rightarrow> None | Some v \<Rightarrow> json_value v)"
  by (induction kvs arbitrary: ws) (auto split: option.splits)

lemma json_fields_total:
  "(\<And>k v. (k, v) \<in> set kvs \<Longrightarrow> json_value v \<noteq> None) \<Longrightarrow> \<exists>ws. json_fields kvs = Some ws"
proof (induction kvs)
  case (Cons kv kvs)
  obtain k v where kv: "kv = (k, v)" by (cases kv)
  obtain w where "json_value v = Some w" using Cons.prems[of k v] kv by auto
  moreover obtain ws where "json_fields kvs = Some ws" using Cons.IH Cons.prems by auto
  ultimately show ?case using kv by simp
qed simp

lemma map_of_app: "map_of (xs @ ys) k = (case map_of xs k of None \<Rightarrow> map_of ys k | Some v \<Rightarrow> Some v)"
  by (simp add: map_add_def split: option.split)

lemma map_of_opt:
  "map_of (opt_field b k' v) k = (if b \<and> k = k' then Some v else None)"
  "map_of (opt_time k' t) k = (if k = k' then map_option time_value t else None)"
  by (simp_all add: opt_field_def opt_time_def split: option.split)

lemma status_text_inverse [simp]: "status_of_text (status_text st) = Some st"
  by (cases st) (simp_all add: status_of_text_def)

lemma f64_exact:
  assumes "\<bar>n\<bar> < 2 ^ 53"
  shows "f64_of_int n = Fin (of_int n)"
proof -
  have "nat \<bar>n\<bar> < 2 ^ 53" using assms by (simp add: nat_less_iff)
  then have "bit_len (nat \<bar>n\<bar>) \<le> 53" by (rule bit_len_mono)
  then have "round53 (nat \<bar>n\<bar>) = nat \<bar>n\<bar>" by (simp add: round53_def)
  then have "sgn n * int (round53 (nat \<bar>n\<bar>)) = n" by (simp add: sgn_mult_abs)
  then show ?thesis by (simp add: f64_of_int_def)
qed

lemma read_int_exact:
  assumes "\<bar>n\<bar> < 2 ^ 53" "json_value (GInt n) = Some w"
  shows "read_int w = Some n"
proof -
  have "(2 :: int) ^ 53 < 2 ^ 63" by simp
  then have "- (2 ^ 63) \<le> n" "n < 2 ^ 63" using assms(1) by linarith+
  then show ?thesis using assms f64_exact[OF assms(1)] by (auto simp: Let_def)
qed

text \<open>What of a job can be written down: decoded values, times of four-digit years, small counts.\<close>

definition wire_ok :: "job \<Rightarrow> bool" where
  "wire_ok j \<longleftrightarrow>
     is_json (map_value (jb_input j)) \<and> is_json (map_value (jb_meta j)) \<and> is_json (jb_result j)
   \<and> times_ok valid_time j \<and> pred_option valid_time (jb_acked_at j)
   \<and> \<bar>jb_attempt j\<bar> < 2 ^ 53 \<and> \<bar>jb_max_retries j\<bar> < 2 ^ 53"

definition meta_read :: "job \<Rightarrow> gmap" where
  "meta_read j = (if jb_meta j = Some [] then None else jb_meta j)"

lemma job_fields_encode:
  assumes "wire_ok j"
  shows "\<exists>ws. json_fields (job_fields j) = Some ws"
  by (rule json_fields_total)
     (use assms in \<open>auto simp: wire_ok_def is_json_def job_fields_def opt_field_def opt_time_def time_value_def
        split: if_splits option.splits\<close>)

lemma read_opt_time_written:
  assumes "pred_option valid_time t"
  shows "read_opt_time (case map_option time_value t of None \<Rightarrow> GNull | Some v \<Rightarrow> v) = Some t"
  using assms by (cases t) (simp_all add: time_value_def parse_fmt_time)

lemma job_fields_lookup:
  "map_of (job_fields j) ''id'' = Some (GStr (jb_id j))"
  "map_of (job_fields j) ''tool'' = Some (GStr (jb_tool j))"
  "map_of (job_fields j) ''idempotency_key'' = (if jb_key j \<noteq> [] then Some (GStr (jb_key j)) else None)"
  "map_of (job_fields j) ''batch_id'' = (if jb_batch j \<noteq> [] then Some (GStr (jb_batch j)) else None)"
  "map_of (job_fields j) ''input'' = Some (map_value (jb_input j))"
  "map_of (job_fields j) ''meta'' =
     (if jb_meta j \<noteq> None \<and> jb_meta j \<noteq> Some [] then Some (map_value (jb_meta j)) else None)"
  "map_of (job_fields j) ''status'' = Some (GStr (status_text (jb_status j)))"
  "map_of (job_fields j) ''attempt'' = Some (GInt (jb_attempt j))"
  "map_of (job_fields j) ''max_retries'' = Some (GInt (jb_max_retries j))"
  "map_of (job_fields j) ''result'' = (if jb_result j \<noteq> GNull then Some (jb_result j) else None)"
  "map_of (job_fields j) ''error'' = (if jb_error j \<noteq> [] then Some (GStr (jb_error j)) else None)"
  "map_of (job_fields j) ''created'' = Some (time_value (jb_created j))"
  "map_of (job_fields j) ''started'' = map_option time_value (jb_started j)"
  "map_of (job_fields j) ''finished'' = map_option time_value (jb_finished j)"
  "map_of (job_fields j) ''acked'' = Some (GBool (jb_acked j))"
  "map_of (job_fields j) ''acked_at'' = map_option time_value (jb_acked_at j)"
  unfolding job_fields_def by (simp_all add: map_of_app map_of_opt del: map_of_append split: option.split)

text \<open>
  C39: The document of a job says what the job is. Encoded with the tags of the struct and decoded with
  the same tags, every field comes back, the times to the nanosecond and the counts exactly; only an
  empty \<^verbatim>\<open>meta\<close> is read as none.
\<close>

theorem job_document_roundtrip:
  assumes "wire_ok j"
  shows "\<exists>doc. json_value (job_value j) = Some doc \<and> read_job doc = Some (j\<lparr>jb_meta := meta_read j\<rparr>)"
proof -
  obtain ws where ws: "json_fields (job_fields j) = Some ws" using job_fields_encode[OF assms] by blast
  note w = assms[unfolded wire_ok_def is_json_def times_ok_def]
  have get: "get_key ws k = (case map_of (job_fields j) k of None \<Rightarrow> GNull
      | Some v \<Rightarrow> (case json_value v of None \<Rightarrow> GNull | Some x \<Rightarrow> x))" for k
    by (simp add: get_key_def json_fields_map_of[OF ws] split: option.split)
  have int: "read_int (case json_value (GInt n) of None \<Rightarrow> GNull | Some x \<Rightarrow> x) = Some n" if "\<bar>n\<bar> < 2 ^ 53" for n
    using read_int_exact[OF that] by (simp del: read_int.simps)
  have opt: "read_opt_time (case map_option time_value t of None \<Rightarrow> GNull
      | Some v \<Rightarrow> (case json_value v of None \<Rightarrow> GNull | Some x \<Rightarrow> x)) = Some t" if "pred_option valid_time t" for t
    using read_opt_time_written[OF that] by (cases t) (simp_all add: time_value_def)
  have strs: "read_str (get_key ws ''id'') = Some (jb_id j)" "read_str (get_key ws ''tool'') = Some (jb_tool j)"
    "read_str (get_key ws ''idempotency_key'') = Some (jb_key j)" "read_str (get_key ws ''batch_id'') = Some (jb_batch j)"
    "read_str (get_key ws ''error'') = Some (jb_error j)" "read_status (get_key ws ''status'') = Some (jb_status j)"
    "read_bool (get_key ws ''acked'') = Some (jb_acked j)"
    unfolding get job_fields_lookup by simp_all
  have vals: "value_map (get_key ws ''input'') = Some (jb_input j)" "value_map (get_key ws ''meta'') = Some (meta_read j)"
    "get_key ws ''result'' = jb_result j"
    unfolding get job_fields_lookup using w by (auto simp: meta_read_def)
  have times: "read_time (get_key ws ''created'') = Some (jb_created j)"
    unfolding get job_fields_lookup using w by (simp add: time_value_def parse_fmt_time)
  have opts: "read_opt_time (get_key ws ''started'') = Some (jb_started j)"
    "read_opt_time (get_key ws ''finished'') = Some (jb_finished j)"
    "read_opt_time (get_key ws ''acked_at'') = Some (jb_acked_at j)"
    unfolding get job_fields_lookup using w by (simp_all only: opt)
  have ints: "read_int (get_key ws ''attempt'') = Some (jb_attempt j)"
    "read_int (get_key ws ''max_retries'') = Some (jb_max_retries j)"
    unfolding get job_fields_lookup option.case using w by (simp_all only: int)
  have "read_job (GObj ws) = Some (j\<lparr>jb_meta := meta_read j\<rparr>)"
    by (simp only: read_job.simps with_field_def strs vals times opts ints option.case) simp
  with ws show ?thesis by (simp add: job_value_def)
qed

definition answered_job :: job where
  "answered_job = (sample_job ''j1'' [] [] 7)\<lparr>jb_meta := Some [(''by'', GStr ''mark'')], jb_status := Failed,
     jb_attempt := 2, jb_max_retries := 1, jb_error := ''exit status 3'',
     jb_finished := Some (GTime 2025 1 2 3 4 6 0)\<rparr>"

lemma job_document_roundtrip_witness:
  "\<exists>doc. json_value (job_value answered_job) = Some doc \<and> read_job doc = Some answered_job"
proof -
  have "wire_ok answered_job"
    by (simp add: wire_ok_def answered_job_def sample_job_def is_json_def map_value_def times_ok_def
        valid_time_def days_in_def)
  moreover have "answered_job\<lparr>jb_meta := meta_read answered_job\<rparr> = answered_job"
    by (simp add: meta_read_def answered_job_def sample_job_def)
  ultimately show ?thesis using job_document_roundtrip by metis
qed

subsection \<open>Refusals\<close>

fun refusal :: "body \<Rightarrow> bool" where
  "refusal (BError m) = True"
| "refusal (BViolations vs) = True"
| "refusal (BItemViolations ivs) = True"
| "refusal (BConflict j) = True"
| "refusal (BBatchPartial e bid ids n) = True"
| "refusal _ = False"

definition well_coded :: "response \<Rightarrow> bool" where
  "well_coded r \<longleftrightarrow> (400 \<le> rs_code r \<longleftrightarrow> refusal (rs_body r))"

lemma well_coded_simps [simp]:
  "well_coded (failing c m) \<longleftrightarrow> 400 \<le> c"
  "well_coded (respond c b) \<longleftrightarrow> (400 \<le> c \<longleftrightarrow> refusal b)"
  "well_coded (r\<lparr>rs_location := l\<rparr>) \<longleftrightarrow> well_coded r"
  "well_coded (r\<lparr>rs_retry_after := ra\<rparr>) \<longleftrightarrow> well_coded r"
  "well_coded (job_response j)"
  by (auto simp: well_coded_def failing_def respond_def job_response_def)

lemma after_submit_coded: "after_submit waiter t wait j q = (Some r, q') \<Longrightarrow> well_coded r"
  by (auto simp: after_submit_def split: if_splits prod.splits sum.splits option.splits)

lemma handle_submit_coded:
  "handle_submit ops tools scan waiter random now name b wp q = (Some r, q') \<Longrightarrow> well_coded r"
  by (auto simp: handle_submit_def Let_def split: option.splits sum.splits if_splits prod.splits dest: after_submit_coded)

lemma handle_create_batch_coded: "well_coded (fst (handle_create_batch ops tools scan random draws b q))"
  by (simp add: handle_create_batch_def Let_def split: option.split sum.split prod.split)

lemma job_handlers_coded:
  "well_coded (fst (handle_get_job ops i q))" "well_coded (fst (handle_wait_job waiter i raw q))"
  "well_coded (fst (handle_cancel_job ops now i q))" "well_coded (fst (handle_list_inbox ops raw q))"
  "well_coded (fst (handle_wait_any any_waiter raw q))" "well_coded (fst (handle_ack_job ops now i q))"
  "well_coded (fst (handle_get_batch ops i q))"
  by (simp_all add: handle_get_job_def handle_wait_job_def handle_cancel_job_def handle_list_inbox_def
      handle_wait_any_def handle_ack_job_def handle_get_batch_def split: option.split sum.split prod.split)

lemma handle_get_out_file_coded: "well_coded (fst (handle_get_out_file ops tools env dir i rel q))"
  by (simp add: handle_get_out_file_def Let_def split: option.split sum.split prod.split)

lemma dispatch_coded:
  assumes "dispatch ops sv x rq e caps q = (Some r, q')"
  shows "well_coded r"
proof -
  have first: "well_coded r" if "apfst Some a = (Some r, q')" "well_coded (fst a)" for a :: "response \<times> 'a queue"
    using that by (cases a) simp
  show ?thesis
    using assms
    by (cases e)
       (auto simp: handle_status_def handle_list_tools_def handle_get_tool_def handle_queue_stats_def
         elim!: first[OF _ job_handlers_coded(1)] first[OF _ job_handlers_coded(2)] first[OF _ job_handlers_coded(3)]
           first[OF _ job_handlers_coded(4)] first[OF _ job_handlers_coded(5)] first[OF _ job_handlers_coded(6)]
           first[OF _ job_handlers_coded(7)] first[OF _ handle_get_out_file_coded] first[OF _ handle_create_batch_coded]
         dest: handle_submit_coded split: option.splits)
qed

lemma serve_request_coded:
  assumes "serve_request ops sv x rq q = (Some r, q')"
  shows "well_coded r"
  using assms
  by (auto simp: serve_request_def guarded_def require_auth_def serve_mux_def
      split: if_splits option.splits routed.splits dest: dispatch_coded)

lemma refusal_value:
  assumes "refusal b" "b \<noteq> BError MNoRoute" "b \<noteq> BError MNoMethod"
  shows "\<exists>fs msg. body_value wd b = Some (GObj fs) \<and> map_of fs ''error'' = Some (GStr msg)"
  using assms by (cases b) (auto simp: error_field_def)

text \<open>
  C40: An error says so twice. Whatever the request, a response has a code of 400 or more exactly when
  it refuses something, and then its document is an object whose \<^verbatim>\<open>error\<close> is a text, except for the two
  answers that the route table writes itself.
\<close>

theorem refusals_carry_error:
  assumes "serve_request ops sv x rq q = (Some r, q')"
  shows "if 400 \<le> rs_code r
    then rs_body r = BError MNoRoute \<or> rs_body r = BError MNoMethod
       \<or> (\<exists>fs msg. body_value wd (rs_body r) = Some (GObj fs) \<and> map_of fs ''error'' = Some (GStr msg))
    else \<not> refusal (rs_body r)"
  using serve_request_coded[OF assms] refusal_value[of "rs_body r" wd] by (auto simp: well_coded_def)

definition no_tools :: "'s server \<Rightarrow> 's server" where
  "no_tools sv = sv\<lparr>sv_tools := [], sv_settings := su_settings strict_setup\<rparr>"

lemma refusals_carry_error_witness:
  "\<forall>(sv :: sqlite_db server) x q wd. \<exists>r fs msg. serve_request sqlite_ops (no_tools sv) x
     \<lparr>rq_method = ''GET'', rq_segs = [''tools'', ''greet''], rq_auth = [], rq_query = (\<lambda>k. []), rq_body = []\<rparr> q
     = (Some r, q) \<and> rs_code r = 404 \<and> body_value wd (rs_body r) = Some (GObj fs)
     \<and> map_of fs ''error'' = Some (GStr msg)"
proof (intro allI)
  fix sv :: "sqlite_db server" and x q wd
  let ?rq = "\<lparr>rq_method = ''GET'', rq_segs = [''tools'', ''greet''], rq_auth = [], rq_query = (\<lambda>k. []), rq_body = []\<rparr>"
  have r: "route ''GET'' [''tools'', ''greet''] = Routed EGetTool [(''name'', ''greet'')]" by code_simp
  have s: "serve_request sqlite_ops (no_tools sv) x ?rq q = (Some (failing 404 MNoSuchTool), q)"
    by (simp add: serve_request_def guarded_def no_tools_def strict_setup_def serve_mux_def r path_value_def
        handle_get_tool_def)
  from refusals_carry_error[OF this, of wd] s
  show "\<exists>r fs msg. serve_request sqlite_ops (no_tools sv) x ?rq q = (Some r, q) \<and> rs_code r = 404
      \<and> body_value wd (rs_body r) = Some (GObj fs) \<and> map_of fs ''error'' = Some (GStr msg)"
    by (intro exI[of _ "failing 404 MNoSuchTool"]) (simp only: failing_simps, simp)
qed

subsection \<open>Empty lists and values that cannot be encoded\<close>

text \<open>An inbox with nothing in it is null, a wait that saw nothing is an empty list.\<close>

lemma empty_inbox_is_null:
  assumes "inbox_limit raw = Some n" "inbox ops n q = (Inr [], q1)"
  shows "write_response wd (fst (handle_list_inbox ops raw q))
    = write_json [] 200 (GObj [(''jobs'', GNull)])"
  using assms by (simp add: handle_list_inbox_def write_response_def response_headers_def respond_def slice_value_def)

lemma empty_wait_is_empty:
  assumes "poll_timeout raw = Inr tmo" "waiter tmo q = (Inr [], q1)"
  shows "write_response wd (fst (handle_wait_any waiter raw q))
    = write_json [] 200 (GObj [(''jobs'', GArr [])])"
  using assms by (simp add: handle_wait_any_def write_response_def response_headers_def respond_def)

text \<open>A contract that holds an infinity is answered with 200 and nothing else.\<close>

lemma infinite_contract_is_empty:
  "write_response wd (respond 200 (BContract (Some [(''limit'', GFloat PosInf)])))
   = \<lparr>an_code = 200, an_headers = [(''Content-Type'', ''application/json'')], an_content = Encoded None\<rparr>"
  by (simp add: write_response_def write_json_def response_headers_def respond_def map_value_def)

end
