(* ===== verification/Late_Writes.thy ===== *)
theory Late_Writes
  imports Queue_Ops
begin

text \<open>
  The order of the writes to the store. A worker and the calls of the handlers copy a job
  under the lock and persist the copy after they released it (\<^verbatim>\<open>process\<close>, \<^verbatim>\<open>Cancel\<close> and \<^verbatim>\<open>finish\<close>
  of \<^verbatim>\<open>cmd/agent-desk/queue.go\<close>), so the store may see the copies in another order than they were
  made.
\<close>

context job_store begin

lemma persist_Some: "q_store q = Some s \<Longrightarrow> persist ops j q = q\<lparr>q_store := Some (snd (so_update ops s j))\<rparr>"
  by (simp add: persist_def)

lemma update_view:
  assumes "ok s" "times_ok time_ok j" "view s (jb_id j) = Some r"
  shows "ok (snd (so_update ops s j))" "\<exists>r'. view (snd (so_update ops s j)) (jb_id j) = Some r'"
proof -
  obtain e s' where u: "so_update ops s j = (e, s')" by fastforce
  from update[OF assms(1,2) u] assms(3) u
  show "ok (snd (so_update ops s j))" "\<exists>r'. view (snd (so_update ops s j)) (jb_id j) = Some r'"
    by (auto simp: view_update_def)
qed

lemma late_running_write:
  assumes "ok s" "q_store q = Some s" "lookup_job q i = Some p" "jb_id (q_heap q p) = i" "view s i = Some r"
    and "\<not> is_terminal (jb_status (q_heap q p))" "times_ok time_ok (q_heap q p)" "time_ok start" "time_ok now"
    and start: "begin_attempt p start q = (Some (ctx, cp), q1)"
    and cancel: "cancel_job ops i now q1 = (Inr (Some k, canceled), q2)"
    and late: "q_store q2 = Some s2" "fst (so_update ops s2 cp) = Inr ()"
    and again: "resume ops (new_queue w (q_store (persist ops cp q2))) = (n, None, q3)"
  shows "canceled \<and> jb_status k = Canceled
    \<and> (\<exists>p'\<in>set (q_pending q3). lookup_job q3 i = Some p' \<and> jb_id (q_heap q3 p') = i
         \<and> jb_status (q_heap q3 p') = Queued)"
proof -
  let ?j = "q_heap q p"
  have b: "cp = ?j\<lparr>jb_status := Running, jb_attempt := jb_attempt ?j + 1, jb_started := Some start\<rparr>"
    "q_heap q1 p = cp" "q_store q1 = Some s" "lookup_job q1 i = Some p"
    using start assms(2,3) by (auto simp: begin_attempt_def lookup_job_def Let_def split: if_splits)
  have cp: "jb_id cp = i" "times_ok time_ok cp" "jb_status cp = Running" "\<not> is_terminal (jb_status cp)"
    using assms(4,7,8) by (simp_all add: b(1) times_ok_def is_terminal_def)
  define k' where "k' = (if jb_finished cp = None then cp\<lparr>jb_status := Canceled, jb_finished := Some now\<rparr>
    else cp\<lparr>jb_status := Canceled\<rparr>)"
  have k': "jb_status k' = Canceled" "jb_id k' = i" "times_ok time_ok k'"
    using cp(1,2) assms(9) by (auto simp: k'_def times_ok_def)
  have t: "cancel_tracked i p now q1 = ((k', True, q_cancels q1 i), q1\<lparr>q_heap := (q_heap q1)(p := k')\<rparr>)"
    using b(2) cp(4) by (auto simp: cancel_tracked_def k'_def Let_def)
  have store: "q_store (cancel_ctx c (q1\<lparr>q_heap := h\<rparr>)) = Some s" for c h
    using b(3) by (simp add: cancel_ctx_def split: option.split)
  have c: "k = k'" "canceled" "s2 = snd (so_update ops s k')"
    using cancel late(1) b(4) t store by (auto simp: cancel_job_def persist_Some)
  obtain r2 where s2: "ok s2" "view s2 i = Some r2"
    using update_view[OF assms(1) k'(3), of r] assms(5) k'(2) c(3) by auto
  obtain s3 where s3: "so_update ops s2 cp = (Inr (), s3)" using late(2) by (metis prod.collapse)
  from update[OF s2(1) cp(2) s3] s2(2) cp(1)
  have v: "ok s3" "view s3 i = Some (set_lifecycle (stored_as st cp) r2)"
    by (auto simp: view_update_def)
  have "q_store (persist ops cp q2) = Some s3" using late(1) s3 by (simp add: persist_Some)
  with again have again: "resume ops (new_queue w (Some s3)) = (n, None, q3)" by simp
  have "\<not> is_terminal (jb_status (set_lifecycle (stored_as st cp) r2))" using cp(4) by simp
  moreover have "q_store (new_queue w (Some s3)) = Some s3" "\<not> q_stopped (new_queue w (Some s3))"
    by (simp_all add: new_queue_def)
  from resume_recovers[OF v(1) this again]
  have "\<forall>j. view s3 i = Some j \<longrightarrow> \<not> is_terminal (jb_status j) \<longrightarrow>
      (\<exists>p'\<in>set (q_pending q3). q_heap q3 p' = j\<lparr>jb_status := Queued\<rparr> \<and> lookup_job q3 i = Some p')"
    by (simp add: new_queue_def)
  ultimately obtain p' where p': "p' \<in> set (q_pending q3)"
      "q_heap q3 p' = (set_lifecycle (stored_as st cp) r2)\<lparr>jb_status := Queued\<rparr>" "lookup_job q3 i = Some p'"
    using v(2) by blast
  have "jb_id r2 = i" using view_ok[OF s2(1)] s2(2) by (simp add: view_ok_def)
  with p' c(1,2) k'(1) show ?thesis by auto
qed

end

text \<open>
  C22: A canceled job comes back after a crash when the worker's write is late. The worker marks a
  job running and copies it under the lock; a cancellation that comes before the copy is persisted
  is answered, and persisted, as canceled; then the worker's copy overwrites that row. If the desk
  is stopped before the run is wound up, the next one finds the row running and runs the canceled
  job again.
\<close>

theorem late_write_revives_canceled:
  assumes "sqlite_ok db" "q_store q = Some db" "lookup_job q i = Some p" "jb_id (q_heap q p) = i"
    and "sqlite_view db i = Some r" "\<not> is_terminal (jb_status (q_heap q p))"
    and "times_ok valid_time (q_heap q p)" "valid_time start" "valid_time now"
    and "begin_attempt p start q = (Some (ctx, cp), q1)"
    and "cancel_job sqlite_ops i now q1 = (Inr (Some k, canceled), q2)"
    and "q_store q2 = Some db2" "fst (so_update sqlite_ops db2 cp) = Inr ()"
    and "resume sqlite_ops (new_queue w (q_store (persist sqlite_ops cp q2))) = (n, None, q3)"
  shows "canceled \<and> jb_status k = Canceled
    \<and> (\<exists>p'\<in>set (q_pending q3). lookup_job q3 i = Some p' \<and> jb_id (q_heap q3 p') = i
         \<and> jb_status (q_heap q3 p') = Queued)"
  by (rule sq.late_running_write[OF assms])

text \<open>On a database whose calls all succeed, updates and listings do.\<close>

lemma calm_update:
  assumes "db_net db = []" "jb_result j = GNull"
  shows "fst (so_update sqlite_ops db j) = Inr ()" "db_net (snd (so_update sqlite_ops db j)) = []"
  using assms by (simp_all add: sqlite_ops_def sqlite_update_def marshal_nullable_def exec_stmt_def draw_def)

lemma calm_load:
  assumes "sqlite_ok db" "db_net db = []"
  shows "\<exists>js. so_load_incomplete sqlite_ops db = (Inr js, db)"
proof -
  have t: "table_ok sr_id (\<lambda>r. result_option (scan_sqlite_job r)) (db_rows db)"
    using assms(1) by (simp add: sqlite_ok_def sqlite_read_scan)
  from scan_all[OF t] assms(2) show ?thesis
    by (simp add: sqlite_ops_def sqlite_load_incomplete_def query_def exec_stmt_def draw_def)
qed

lemma late_write_revives_canceled_witness:
  "\<exists>ctx cp q1 k q2 n q3.
     begin_attempt 0 (GTime 2025 1 2 3 4 6 0)
       ((one_waiting (sample_job ''a'' [] [] 0))\<lparr>q_store := Some (one_job_db ''a'' [])\<rparr>) = (Some (ctx, cp), q1)
   \<and> cancel_job sqlite_ops ''a'' (GTime 2025 1 2 3 4 7 0) q1 = (Inr (Some k, True), q2) \<and> jb_status k = Canceled
   \<and> resume sqlite_ops (new_queue 1 (q_store (persist sqlite_ops cp q2))) = (n, None, q3)
   \<and> (\<exists>p\<in>set (q_pending q3). jb_id (q_heap q3 p) = ''a'' \<and> jb_status (q_heap q3 p) = Queued)"
proof -
  let ?j = "sample_job ''a'' [] [] 0" and ?t = "GTime 2025 1 2 3 4 6 0" and ?u = "GTime 2025 1 2 3 4 7 0"
  define q :: "sqlite_db queue" where "q = (one_waiting ?j)\<lparr>q_store := Some (one_job_db ''a'' [])\<rparr>"
  have q: "q_store q = Some (one_job_db ''a'' [])" "lookup_job q ''a'' = Some 0" "q_heap q 0 = ?j"
    by (simp_all add: q_def one_waiting_def lookup_job_def sample_job_def)
  have j: "jb_id (q_heap q 0) = ''a''" "\<not> is_terminal (jb_status (q_heap q 0))" "times_ok valid_time (q_heap q 0)"
    using sample_job_ok by (simp_all add: q(3) is_terminal_def sample_job_def)
  have times: "valid_time ?t" "valid_time ?u" by (simp_all add: valid_time_def days_in_def)
  obtain ctx cp q1 where b: "begin_attempt 0 ?t q = (Some (ctx, cp), q1)"
    using j(2) by (auto simp: begin_attempt_def Let_def is_terminal_def)
  have q1: "q_store q1 = q_store q" "lookup_job q1 ''a'' = Some 0" "q_heap q1 0 = cp" "jb_status cp = Running"
    using b q(2) by (auto simp: begin_attempt_def lookup_job_def Let_def split: if_splits)
  obtain k q2 where c: "cancel_job sqlite_ops ''a'' ?u q1 = (Inr (Some k, True), q2)"
    using q1(2-4) by (auto simp: cancel_job_def cancel_tracked_def is_terminal_def Let_def)
  define db where "db = one_job_db ''a'' []"
  have db: "sqlite_ok db" "db_net db = []" "sqlite_view db ''a'' = Some ?j"
    using one_job_db_ok[of "''a''" "[]"] by (simp_all add: db_def one_job_db_def)
  have k: "k = (if jb_finished cp = None then cp\<lparr>jb_status := Canceled, jb_finished := Some ?u\<rparr>
      else cp\<lparr>jb_status := Canceled\<rparr>)"
    and store2: "q_store q2 = Some (snd (so_update sqlite_ops db k))"
    using c q1(2-4) q1(1)[unfolded q(1)]
    by (auto simp: cancel_job_def cancel_tracked_def is_terminal_def Let_def persist_def db_def cancel_ctx_def
        split: option.splits)
  have cp: "jb_result cp = GNull" "jb_id cp = ''a''" "times_ok valid_time cp"
    using b q(3) j(3) times by (auto simp: begin_attempt_def sample_job_def times_ok_def Let_def split: if_splits)
  have rk: "jb_result k = GNull" "jb_id k = ''a''" "times_ok valid_time k"
    using cp times by (auto simp: k times_ok_def)
  define db2 where "db2 = snd (so_update sqlite_ops db k)"
  have db2: "sqlite_ok db2" "db_net db2 = []" "\<exists>r. sqlite_view db2 ''a'' = Some r"
    using sq.update_view[OF db(1) rk(3), of ?j] calm_update(2)[OF db(2) rk(1)] db(3) rk(2)
    by (simp_all add: db2_def)
  define db3 where "db3 = snd (so_update sqlite_ops db2 cp)"
  have db3: "sqlite_ok db3" "db_net db3 = []"
    using sq.update_view(1)[OF db2(1) cp(3)] calm_update(2)[OF db2(2) cp(1)] db2(3) cp(2)
    by (auto simp: db3_def)
  have "q_store (persist sqlite_ops cp q2) = Some db3"
    using store2 by (simp add: persist_def db2_def db3_def)
  moreover obtain js where "so_load_incomplete sqlite_ops db3 = (Inr js, db3)" using calm_load[OF db3] by blast
  ultimately obtain n q3 where r: "resume sqlite_ops (new_queue 1 (q_store (persist sqlite_ops cp q2))) = (n, None, q3)"
    using resume_loads[of "new_queue 1 (Some db3)" db3 sqlite_ops js db3] by (auto simp: new_queue_def)
  have s2: "q_store q2 = Some db2" using store2 by (simp add: db2_def)
  from late_write_revives_canceled[OF db(1) _ q(2) j(1) db(3) j(2,3) times b c s2 calm_update(1)[OF db2(2) cp(1)] r]
  have w: "jb_status k = Canceled" "\<exists>p\<in>set (q_pending q3). jb_id (q_heap q3 p) = ''a'' \<and> jb_status (q_heap q3 p) = Queued"
    using q(1) by (auto simp: db_def)
  show ?thesis
    by (intro exI[of _ ctx] exI[of _ cp] exI[of _ q1] exI[of _ k] exI[of _ q2] exI[of _ n] exI[of _ q3] conjI)
      (use b c r w in \<open>simp_all add: q_def\<close>)
qed

end
