(* ===== verification/Spec2Isabelle.thy ===== *)
theory Spec2Isabelle
  imports Tcs_Lint Tool_Loading Sqlite_Store Postgres_Store Queue_Ops Queue_Steps Queue_Life Queue_Settle Executor_Props Seccomp Handlers
    Shim Preflight Verify Store_Open Start_Up Routes Responses Late_Writes
begin

text \<open>
  A verification library for deskbox: a desk that runs the tools of a folder under contracts,
  in a sandbox, with durable jobs behind an HTTP interface (\<^verbatim>\<open>cmd/agent-desk\<close>), the adapter
  that puts a foreign command behind such a contract (\<^verbatim>\<open>cmd/tcs-shim\<close>), the offline linter of
  contracts (\<^verbatim>\<open>cmd/tcs-verify\<close>) and the schema package the three share (\<^verbatim>\<open>internal/tcs\<close>).
  Paths are those under \<^verbatim>\<open>src/\<close>.

  \<^bold>\<open>How the parts work together.\<close> At its start the desk reads its settings, loads the tool folders,
  probes what the machine can enforce, opens the store, puts the unfinished jobs of the store
  back on the backlog and listens. A request is authenticated, routed and handled; a submission
  passes the schema gate, is admitted against the size of the backlog, written to the store under
  its idempotency key and enqueued. A dispatcher hands jobs to workers; a worker executes the
  tool of the job, sandboxed and capped, checks what it left behind and what it answered against
  the contract, and finishes, retries or abandons the job. The handlers read, cancel, wait for
  and acknowledge jobs while that goes on.

  \<^bold>\<open>The theories and the code.\<close> In the order in which they build on each other:

  \<^item> \<^verbatim>\<open>Prelude\<close>: the result type of operations that fail, the collections of rewrite rules, lemmas on
    lists, maps and association lists that the components share. \<^verbatim>\<open>Go_Strings\<close>, \<^verbatim>\<open>Go_Paths\<close>,
    \<^verbatim>\<open>Go_Values\<close>, \<^verbatim>\<open>Durations\<close>, \<^verbatim>\<open>Timestamps\<close>: what the code uses of the Go library (\<^verbatim>\<open>strings\<close>,
    \<^verbatim>\<open>strconv\<close>, \<^verbatim>\<open>filepath\<close>, \<^verbatim>\<open>time.ParseDuration\<close>, \<^verbatim>\<open>RFC3339Nano\<close>) and the dynamic values that
    JSON and YAML decode to. \<^verbatim>\<open>Capped\<close>: the promise of a buffer with a limit, a locale.
  \<^item> \<^verbatim>\<open>Tcs_Validator\<close>, \<^verbatim>\<open>Tcs_Lint\<close>, \<^verbatim>\<open>Tcs_Interp\<close>: \<^verbatim>\<open>internal/tcs/validator.go\<close>, \<^verbatim>\<open>lint.go\<close>,
    \<^verbatim>\<open>interp.go\<close> and \<^verbatim>\<open>hash.go\<close>: the schema gate, the linter of schemas, which interpreter a script
    is run by, digests of files.
  \<^item> \<^verbatim>\<open>Tools\<close>, \<^verbatim>\<open>Integrity\<close>, \<^verbatim>\<open>Tool_Loading\<close>: \<^verbatim>\<open>cmd/agent-desk/tools.go\<close> and \<^verbatim>\<open>integrity.go\<close>: the
    contract records, the time budgets in 64 bits, the pins and their check, the loading of the folder.
  \<^item> \<^verbatim>\<open>Job\<close>, \<^verbatim>\<open>Row_Table\<close>, \<^verbatim>\<open>Sqlite_Store\<close>, \<^verbatim>\<open>Postgres_Store\<close>, \<^verbatim>\<open>Store_Open\<close>: \<^verbatim>\<open>store.go\<close>,
    \<^verbatim>\<open>store_sqlite.go\<close> and \<^verbatim>\<open>store_postgres.go\<close>. A store is a record of functions over a database,
    its contract the locale \<open>job_store\<close>, which both databases interpret on the modelled statements; the
    tables of rows they have in common are in \<^verbatim>\<open>Row_Table\<close>. Opening and migrating a database acts on
    its schema; the locale \<open>migration\<close> holds what the two have in common.
  \<^item> \<^verbatim>\<open>Queue\<close>, \<^verbatim>\<open>Queue_Ops\<close>, \<^verbatim>\<open>Late_Writes\<close>, \<^verbatim>\<open>Queue_Steps\<close>, \<^verbatim>\<open>Queue_Life\<close>,
    \<^verbatim>\<open>Queue_Settle\<close>: \<^verbatim>\<open>queue.go\<close>. \<^verbatim>\<open>Queue\<close> has every
    critical section as a function on the heap of job objects, the table by id, the backlog, the
    channel, the cancel functions and the store, and the operations as the code composes them;
    \<^verbatim>\<open>Queue_Ops\<close> what they do one after the other; \<^verbatim>\<open>Late_Writes\<close> what follows from writing to the
    store after the lock was released; \<^verbatim>\<open>Queue_Steps\<close> the goroutines, as step relations over
    program points, whose steps are those critical sections and store calls in any order;
    \<^verbatim>\<open>Queue_Life\<close> refines them to the life cycle of one job and \<^verbatim>\<open>Queue_Settle\<close> shows that they come to rest.
  \<^item> \<^verbatim>\<open>Settings\<close>, \<^verbatim>\<open>Posture\<close>, \<^verbatim>\<open>Seccomp\<close>: \<^verbatim>\<open>settings.go\<close>, \<^verbatim>\<open>config.go\<close>, \<^verbatim>\<open>posture.go\<close>,
    \<^verbatim>\<open>seccomp.go\<close> and the parts of \<^verbatim>\<open>main.go\<close> that use them: the environment and the configuration, the
    exposure of the desk, the report of what is enforced, the system-call filter on its way to the
    sandbox.
  \<^item> \<^verbatim>\<open>Executor\<close>, \<^verbatim>\<open>Executor_Props\<close>: \<^verbatim>\<open>executor.go\<close>: the command line of the sandbox, the files of a
    run, the run itself against a record of what the machine answers, the audit of what it left.
  \<^item> \<^verbatim>\<open>Preflight\<close>, \<^verbatim>\<open>Handlers\<close>, \<^verbatim>\<open>Start_Up\<close>, \<^verbatim>\<open>Routes\<close>, \<^verbatim>\<open>Responses\<close>: \<^verbatim>\<open>preflight.go\<close> and \<^verbatim>\<open>main.go\<close>: the check
    of the tools' dependencies, every HTTP handler from the request to the response, \<^verbatim>\<open>main\<close> from the
    environment to a serving desk with every way it can end, the route table, the way of a request
    through it, and the document, the headers and the error text of every response up to \<^verbatim>\<open>writeJSON\<close>.
  \<^item> \<^verbatim>\<open>Shim\<close>, \<^verbatim>\<open>Verify\<close>: \<^verbatim>\<open>cmd/tcs-shim/main.go\<close> and \<^verbatim>\<open>cmd/tcs-verify/main.go\<close>, each the whole program.

  A Go struct is a record, an enumeration a datatype, a call that returns a value and an error a sum with
  the error on the left, a log line that matters an event in the result. A pointer to a job is a natural
  number into the heap, so a write through one holder is seen by all. Integers that can overflow are kept
  at 64 bits with the wrap-around written out.

  \<^bold>\<open>What the lemmas show.\<close>

  \<^item> The gate accepts exactly the values that conform to the schema in a declarative sense; a schema
    the linter passes never makes it stumble over the schema itself; a contract the offline linter passes
    is one the desk loads and honors.
  \<^item> The stores satisfy one contract (insert-or-find under a key, lifecycle writes that never touch an
    acknowledgment, recovery, listings) for every fault a call can meet. From it, once for both: one job
    per tool and key, no accepted job lost over a crash, writes that commute. Listings are chronological
    in PostgreSQL; where the text order of SQLite differs is shown. A migration that broke off anywhere
    is completed by the next start, and a store that opened has every column its statements name.
  \<^item> The queue balances its reservations on every path, bounds its backlog, runs a failing job the number
    of times it shall, answers waits within a bounded number of polls. For every interleaving, an accepted
    job is in one place until it is terminal, its status moves along one life cycle, a finished job is
    final, a cancellation reaches the run it is for, and without new calls the desk comes to rest with
    every job terminal: no thread blocks another and no wake of the
    dispatcher is lost. The windows in which a cancellation is lost are stated as theorems too.
  \<^item> An executed tool met its pins and ran in the sandbox it is owed; its result passed the audit and
    the gate; an execution writes nowhere outside its workspace; a strict desk keeps all that from its
    start. The filter that reaches the sandbox is the assembled denylist.
  \<^item> The handlers answer every request, gate every submission, serve no file outside a workspace; the
    route of a request is the most specific one; an error says so in its code and in its document, and
    the document of a job gives every field of the job back. The adapter's guard, its output modes and the dependency
    check are sound against the command line that is in the end run.

  \<^bold>\<open>Bounds and fuel.\<close> The functions that recurse do so on their data or on a measure, except
  these. The poll loops (\<^verbatim>\<open>WaitForTerminal\<close>, \<^verbatim>\<open>WaitForAnyTerminal\<close>) take fuel, and
  \<open>wait_for_terminal_ends\<close> shows that a bound computed from the remaining time is always enough, because
  each round sleeps a tenth of a second or what is left. The goroutines are relations: what is
  claimed of them is claimed of every reachable state, and \<open>desk_settles\<close> bounds their steps between calls
  by a measure on the runs the jobs have left. \<open>max_pending\<close> (10000, the admission check) and
  \<open>ch_capacity\<close> (256, the buffer of the channel) are the constants of the code.

  \<^bold>\<open>Arguments and their hypotheses.\<close> Code outside the repository is an argument of the definitions: decoding
  YAML and JSON, parsing and rendering templates, assembling the filter, SHA-256, the file system, starting
  a process, the clock, random bytes. Of these the theorems assume only what is stated in them, for
  example that a sleep takes at least its duration or that the assembler returns some instruction.
  The two databases execute the statements of the code on a list of rows, each call with an outcome drawn
  from the state: it may fail before it acts, or act and report a failure. The order in which Go visits a map
  is the order of an association list, over which the theorems are general.

  \<^bold>\<open>Not modelled.\<close> The HTTP server, the bytes of an encoded document, the texts of violations and of library errors, and
  the log lines carry no decision of the program; the parsing of flags and the decoding of a
  request's path are the library's as well, and their results are arguments. White space and letter case are
  those of ASCII. What a tool does inside its sandbox, the enforcement by bubblewrap, systemd and the kernel,
  and the engines of the databases are outside; the library ends at the command line, the filter and the
  statements that are handed to them. Data races in the sense of the Go memory model are not considered:
  a critical section is one step.
\<close>

end
